(* ===== verification/Prelude.thy ===== *)
theory Prelude imports Main "HOL-Library.List_Lexorder" "HOL-Library.Char_ord" begin

text \<open>
  Shared vocabulary of the development: the types every component uses, Python's exceptions as
  values, tables with unique constraints as lists of rows in insertion order, and the few string
  operations of the standard library the source calls. The lemmas are collected in
  \<open>table_simps\<close> (what a lookup sees after a write) and \<open>table_intros\<close> (what a write keeps).
\<close>

named_theorems table_simps \<open>what queries return after writes\<close>
named_theorems table_intros \<open>what writes keep of a table's constraints\<close>

section \<open>Types\<close>

text \<open>
  A UUID is its canonical text, so that \<open>str(id)\<close> is the identity and only equality matters.
  A time stamp is naive UTC in microseconds since the epoch. Bytes and text are both lists of
  8-bit characters; decoding latin-1 is therefore the identity.
\<close>

type_synonym uuid = string
type_synonym datetime = int
type_synonym bytes = string

definition seconds :: "int \<Rightarrow> datetime" where
  "seconds n = n * 1000000"

lemma seconds_mono: "0 \<le> n \<Longrightarrow> 0 \<le> seconds n"
  by (simp add: seconds_def)

lemma seconds_pos: "0 < n \<Longrightarrow> 0 < seconds n"
  by (simp add: seconds_def)

text \<open>The exceptions the source raises or lets escape, and an HTTP error with its headers.\<close>

datatype exn =
    IntegrityError
  | HTTPException (status_code: int) (detail: string) (exn_headers: "(string \<times> string) list")
  | KeyError string
  | ValueError string
  | RuntimeError string
  | AttributeError
  | TypeError
  | MultipleResultsFound
  | WebhookVerificationError
  | PaymentError string
  | RefreshError string
  | WebhookEgressError string
  | EmailError string
  | TemplateNotFound string
  | AgentUnavailableError string
  | OSError string

text \<open>JSON-like values, for the payloads the source builds out of dict and list displays.\<close>

datatype json =
    JNull
  | JBool bool
  | JInt int
  | JStr string
  | JList "json list"
  | JDict "(string \<times> json) list"

section \<open>Tables\<close>

text \<open>
  A table is the list of its rows, oldest first. An INSERT under a unique constraint fails
  (\<open>None\<close>, the database's IntegrityError) when a row with the same key exists; UPDATE and
  DELETE act on the rows that satisfy their WHERE clause.
\<close>

definition insert_unique :: "('r \<Rightarrow> 'k) \<Rightarrow> 'r \<Rightarrow> 'r list \<Rightarrow> 'r list option" where
  "insert_unique key r t = (if key r \<in> key ` set t then None else Some (t @ [r]))"

definition lookup_by :: "('r \<Rightarrow> 'k) \<Rightarrow> 'k \<Rightarrow> 'r list \<Rightarrow> 'r option" where
  "lookup_by key k t = find (\<lambda>r. key r = k) t"

definition update_where :: "('r \<Rightarrow> bool) \<Rightarrow> ('r \<Rightarrow> 'r) \<Rightarrow> 'r list \<Rightarrow> 'r list" where
  "update_where P f t = map (\<lambda>r. if P r then f r else r) t"

definition delete_where :: "('r \<Rightarrow> bool) \<Rightarrow> 'r list \<Rightarrow> 'r list" where
  "delete_where P t = filter (\<lambda>r. \<not> P r) t"

definition unique_on :: "('r \<Rightarrow> 'k) \<Rightarrow> 'r list \<Rightarrow> bool" where
  "unique_on key t = distinct (map key t)"

lemma unique_on_Nil [simp, table_intros]: "unique_on key []"
  by (simp add: unique_on_def)

lemma insert_unique_Some:
  "insert_unique key r t = Some t' \<longleftrightarrow> key r \<notin> key ` set t \<and> t' = t @ [r]"
  by (auto simp: insert_unique_def)

lemma insert_unique_None: "insert_unique key r t = None \<longleftrightarrow> key r \<in> key ` set t"
  by (simp add: insert_unique_def)

lemma unique_on_insert [table_intros]:
  "unique_on key t \<Longrightarrow> insert_unique key r t = Some t' \<Longrightarrow> unique_on key t'"
  by (auto simp: insert_unique_Some unique_on_def)

lemma unique_on_update [table_intros]:
  assumes "unique_on key t" "\<And>r. key (f r) = key r"
  shows "unique_on key (update_where P f t)"
proof -
  have "map key (update_where P f t) = map key t"
    using assms(2) by (auto simp: update_where_def)
  then show ?thesis using assms(1) by (simp add: unique_on_def)
qed

lemma unique_on_delete [table_intros]:
  "unique_on key t \<Longrightarrow> unique_on key (delete_where P t)"
  by (simp add: unique_on_def delete_where_def distinct_map_filter)

lemma unique_onD: "unique_on key t \<Longrightarrow> r \<in> set t \<Longrightarrow> s \<in> set t \<Longrightarrow> key r = key s \<Longrightarrow> r = s"
  by (auto simp: unique_on_def distinct_map dest: inj_onD)

lemma lookup_by_SomeD: "lookup_by key k t = Some r \<Longrightarrow> r \<in> set t \<and> key r = k"
  by (auto simp: lookup_by_def find_Some_iff)

lemma lookup_by_None: "lookup_by key k t = None \<longleftrightarrow> k \<notin> key ` set t"
  by (auto simp: lookup_by_def find_None_iff)

lemma lookup_by_unique:
  assumes "unique_on key t" "r \<in> set t"
  shows "lookup_by key (key r) t = Some r"
proof (cases "lookup_by key (key r) t")
  case None
  then show ?thesis using assms(2) by (auto simp: lookup_by_None)
next
  case (Some s)
  then have "s \<in> set t" "key s = key r" by (auto dest: lookup_by_SomeD)
  then have "s = r" using unique_onD [OF assms(1) _ assms(2)] by blast
  then show ?thesis using Some by simp
qed

lemma lookup_by_Some_iff:
  "unique_on key t \<Longrightarrow> lookup_by key k t = Some r \<longleftrightarrow> r \<in> set t \<and> key r = k"
  by (auto dest: lookup_by_SomeD lookup_by_unique)

lemma lookup_by_append [table_simps]:
  "lookup_by key k (t @ u) = (case lookup_by key k t of None \<Rightarrow> lookup_by key k u | Some r \<Rightarrow> Some r)"
  by (induction t) (auto simp: lookup_by_def)

lemma lookup_by_Nil [simp]: "lookup_by key k [] = None"
  by (simp add: lookup_by_def)

lemma lookup_by_Cons [simp]:
  "lookup_by key k (r # t) = (if key r = k then Some r else lookup_by key k t)"
  by (simp add: lookup_by_def)

lemma lookup_by_update [table_simps]:
  assumes "\<And>r. key (f r) = key r"
  shows "lookup_by key k (update_where P f t)
    = map_option (\<lambda>r. if P r then f r else r) (lookup_by key k t)"
  using assms by (induction t) (auto simp: update_where_def)

lemma lookup_by_delete [table_simps]:
  "unique_on key t \<Longrightarrow> lookup_by key k (delete_where P t)
    = (case lookup_by key k t of None \<Rightarrow> None | Some r \<Rightarrow> if P r then None else Some r)"
proof (induction t)
  case Nil
  then show ?case by (simp add: delete_where_def)
next
  case (Cons a t)
  have "key a \<notin> key ` set t" using Cons.prems by (simp add: unique_on_def)
  then have "lookup_by key (key a) t = None" by (simp add: lookup_by_None)
  with Cons show ?case
    by (auto simp: delete_where_def unique_on_def split: option.splits)
qed

lemma set_update_where: "set (update_where P f t) = (\<lambda>r. if P r then f r else r) ` set t"
  by (simp add: update_where_def)

lemma set_delete_where [simp]: "set (delete_where P t) = {r \<in> set t. \<not> P r}"
  by (simp add: delete_where_def)

lemma update_where_Nil [simp]: "update_where P f [] = []"
  by (simp add: update_where_def)

lemma update_where_Cons [simp]:
  "update_where P f (r # t) = (if P r then f r else r) # update_where P f t"
  by (simp add: update_where_def)

lemma update_where_append [simp]:
  "update_where P f (t @ u) = update_where P f t @ update_where P f u"
  by (simp add: update_where_def)

lemma length_update_where [simp]: "length (update_where P f t) = length t"
  by (simp add: update_where_def)

lemma map_update_where: "(\<And>r. g (f r) = g r) \<Longrightarrow> map g (update_where P f t) = map g t"
  by (auto simp: update_where_def)

lemma keys_update_where: "(\<And>r. g (f r) = g r) \<Longrightarrow> g ` set (update_where P f t) = g ` set t"
  by (simp only: set_map [symmetric] map_update_where)

lemma in_update_where: "r \<in> set t \<Longrightarrow> (if P r then f r else r) \<in> set (update_where P f t)"
  unfolding set_update_where by (rule imageI)

lemma update_where_none: "(\<And>r. r \<in> set t \<Longrightarrow> \<not> P r) \<Longrightarrow> update_where P f t = t"
  by (simp add: update_where_def map_idI)

lemma sum_list_update_where:
  assumes "unique_on key t" "r \<in> set t" "\<And>s. s \<in> set t \<Longrightarrow> P s \<longleftrightarrow> key s = key r"
  shows "(\<Sum>s\<leftarrow>update_where P f t. (g s :: int)) = (\<Sum>s\<leftarrow>t. g s) - g r + g (f r)"
  using assms
proof (induction t)
  case Nil
  then show ?case by simp
next
  case (Cons a t)
  show ?case
  proof (cases "a = r")
    case True
    have "\<not> P s" if "s \<in> set t" for s
    proof -
      have "key s \<noteq> key r" using that Cons.prems(1) True by (auto simp: unique_on_def image_iff)
      then show ?thesis using that Cons.prems(3) by simp
    qed
    then show ?thesis using True Cons.prems(3) by (simp add: update_where_none)
  next
    case False
    then have "\<not> P a"
      using Cons.prems unique_onD by (metis list.set_intros(1))
    then show ?thesis using Cons False by (auto simp: unique_on_def)
  qed
qed

section \<open>Strings\<close>

text \<open>Decimal rendering of an integer, as in an f-string.\<close>

definition digit_char :: "nat \<Rightarrow> char" where
  "digit_char d = ''0123456789'' ! d"

fun nat_str :: "nat \<Rightarrow> string" where
  "nat_str n = (if n < 10 then [digit_char n] else nat_str (n div 10) @ [digit_char (n mod 10)])"

declare nat_str.simps [simp del]

definition int_str :: "int \<Rightarrow> string" where
  "int_str i = (if i < 0 then ''-'' @ nat_str (nat (- i)) else nat_str (nat i))"

text \<open>ASCII lower-casing, as \<open>bytes.lower\<close> and, on ASCII text, \<open>str.lower\<close>.\<close>

definition lower_char :: "char \<Rightarrow> char" where
  "lower_char c = (let n = of_char c :: nat in if 65 \<le> n \<and> n \<le> 90 then char_of (n + 32) else c)"

definition lower :: "string \<Rightarrow> string" where
  "lower s = map lower_char s"

text \<open>The ASCII white space \<open>str.split()\<close> and \<open>str.strip()\<close> act on.\<close>

definition is_space :: "char \<Rightarrow> bool" where
  "is_space c = (let n = of_char c :: nat in n = 32 \<or> (9 \<le> n \<and> n \<le> 13) \<or> (28 \<le> n \<and> n \<le> 31)
     \<or> n = 133 \<or> n = 160)"

text \<open>\<open>s.split()\<close>: the maximal runs of non-space characters.\<close>

fun split_ws_aux :: "string \<Rightarrow> string \<Rightarrow> string list" where
  "split_ws_aux acc [] = (if acc = [] then [] else [rev acc])"
| "split_ws_aux acc (c # cs) =
     (if is_space c then (if acc = [] then split_ws_aux [] cs else rev acc # split_ws_aux [] cs)
      else split_ws_aux (c # acc) cs)"

definition split_ws :: "string \<Rightarrow> string list" where
  "split_ws s = split_ws_aux [] s"

text \<open>\<open>sep.join(xs)\<close>.\<close>

fun join_with :: "string \<Rightarrow> string list \<Rightarrow> string" where
  "join_with sep [] = []"
| "join_with sep [x] = x"
| "join_with sep (x # y # xs) = x @ sep @ join_with sep (y # xs)"

definition word_ok :: "string \<Rightarrow> bool" where
  "word_ok w = (w \<noteq> [] \<and> list_all (\<lambda>c. \<not> is_space c) w)"

lemma split_ws_aux_word:
  "list_all (\<lambda>c. \<not> is_space c) w \<Longrightarrow> split_ws_aux acc (w @ s) = split_ws_aux (rev w @ acc) s"
  by (induction w arbitrary: acc) auto

lemma is_space_blank [simp]: "is_space (CHR '' '')"
  by (simp add: is_space_def)

text \<open>Joining words with a blank and splitting gives the words back.\<close>

lemma split_join: "list_all word_ok ws \<Longrightarrow> split_ws (join_with '' '' ws) = ws"
proof (induction ws rule: induct_list012)
  case 1
  then show ?case by (simp add: split_ws_def)
next
  case (2 x)
  then show ?case
    using split_ws_aux_word [of x "[]" "[]"] by (simp add: split_ws_def word_ok_def)
next
  case (3 x y zs)
  then show ?case
    using split_ws_aux_word [of x "[]" "'' '' @ join_with '' '' (y # zs)"]
    by (auto simp: split_ws_def word_ok_def)
qed

text \<open>A separator that neither prefix contains splits a string in one way.\<close>

lemma split_at_inject: "c \<notin> set a \<Longrightarrow> c \<notin> set b \<Longrightarrow> a @ c # x = b @ c # y \<Longrightarrow> a = b \<and> x = y"
proof (induction a arbitrary: b)
  case Nil
  then show ?case by (cases b) auto
next
  case (Cons d a)
  then show ?case by (cases b) auto
qed

text \<open>\<open>s.startswith(p)\<close>.\<close>

fun starts_with :: "string \<Rightarrow> string \<Rightarrow> bool" where
  "starts_with [] s = True"
| "starts_with (p # ps) [] = False"
| "starts_with (p # ps) (c # cs) = (p = c \<and> starts_with ps cs)"

lemma starts_with_append [simp]: "starts_with p (p @ s)"
  by (induction p) auto

lemma starts_with_iff: "starts_with p s \<longleftrightarrow> (\<exists>t. s = p @ t)"
  by (induction p s rule: starts_with.induct) auto

text \<open>Whether \<open>p\<close> occurs in \<open>s\<close> (\<open>p in s\<close> on strings).\<close>

fun contains :: "string \<Rightarrow> string \<Rightarrow> bool" where
  "contains p [] = (p = [])"
| "contains p (c # cs) = (starts_with p (c # cs) \<or> contains p cs)"

text \<open>\<open>s.splitlines()\<close>: a carriage return and the line feed after it are one break, and the text after the last
  break is a line unless it is empty.\<close>

definition line_break :: "char \<Rightarrow> bool" where
  "line_break c = (let n = (of_char c :: nat) in (10 \<le> n \<and> n \<le> 13) \<or> (28 \<le> n \<and> n \<le> 30) \<or> n = 133)"

fun splitlines_aux :: "string \<Rightarrow> string \<Rightarrow> string list" where
  "splitlines_aux line [] = (if line = [] then [] else [rev line])"
| "splitlines_aux line (c # s) =
    (if \<not> line_break c then splitlines_aux (c # line) s
     else if c = CHR 0x0D \<and> starts_with [CHR 0x0A] s then rev line # splitlines_aux [] (tl s)
     else rev line # splitlines_aux [] s)"

definition splitlines :: "string \<Rightarrow> string list" where
  "splitlines s = splitlines_aux [] s"

text \<open>UTF-8 of text whose code points are below 256.\<close>

definition utf8_char :: "char \<Rightarrow> bytes" where
  "utf8_char c = (let n = of_char c :: nat in
     if n < 128 then [c] else [char_of (192 + n div 64), char_of (128 + n mod 64)])"

definition utf8 :: "string \<Rightarrow> bytes" where
  "utf8 s = concat (map utf8_char s)"

section \<open>Results\<close>

text \<open>Going on with a value, or leaving with the exception.\<close>

definition and_then :: "exn + 'a \<Rightarrow> ('a \<Rightarrow> exn + 'b) \<Rightarrow> exn + 'b" where
  "and_then m f = (case m of Inl e \<Rightarrow> Inl e | Inr x \<Rightarrow> f x)"

lemma and_then_simps [simp]: "and_then (Inl e) f = Inl e" "and_then (Inr x) f = f x"
  by (simp_all add: and_then_def)

lemma and_then_Inr: "and_then m f = Inr y \<longleftrightarrow> (\<exists>x. m = Inr x \<and> f x = Inr y)"
  by (cases m) simp_all

text \<open>\<open>s.partition(sep)\<close> for a one-character separator: \<open>None\<close> when it does not occur.\<close>

fun partition_at :: "char \<Rightarrow> string \<Rightarrow> (string \<times> string) option" where
  "partition_at c [] = None"
| "partition_at c (d # ds) = (if d = c then Some ([], ds)
     else map_option (\<lambda>(a, b). (d # a, b)) (partition_at c ds))"

lemma partition_at_append: "c \<notin> set a \<Longrightarrow> partition_at c (a @ c # b) = Some (a, b)"
  by (induction a) auto

lemma partition_at_Some: "partition_at c s = Some (a, b) \<Longrightarrow> s = a @ c # b \<and> c \<notin> set a"
  by (induction s arbitrary: a) (auto split: if_splits)

lemma find_SomeD: "find P xs = Some x \<Longrightarrow> x \<in> set xs \<and> P x"
  by (auto simp: find_Some_iff)

lemma find_unique_on:
  assumes "unique_on key t" "r \<in> set t" "P r" "\<And>s. s \<in> set t \<Longrightarrow> P s \<Longrightarrow> key s = key r"
  shows "find P t = Some r"
proof (cases "find P t")
  case None
  then show ?thesis using assms(2,3) by (auto simp: find_None_iff)
next
  case (Some s)
  then have "s \<in> set t" "P s" by (auto simp: find_Some_iff)
  then show ?thesis using Some assms unique_onD by metis
qed

lemma sum_caseE:
  assumes "(case x of Inl e \<Rightarrow> f e | Inr y \<Rightarrow> g y) = z"
  obtains e where "x = Inl e" "f e = z" | y where "x = Inr y" "g y = z"
  using assms by (cases x) auto

end
