(* ===== verification/Rating.thy ===== *)
theory Rating imports Prelude "HOL-Library.Multiset" begin

text \<open>
  The rate cards (\<open>app/metering/rate_cards.py\<close>) and the rating engine
  (\<open>app/metering/rating.py\<close>): a plan and a period's per-meter usage become invoice lines.
  Amounts are Python integers in minor units. A dict of meters is the association list of its
  items in insertion order; usage is a partial function from meter names to totals.
\<close>

section \<open>Rate cards\<close>

definition DEFAULT_CURRENCY :: string where
  "DEFAULT_CURRENCY = ''usd''"

definition DEFAULT_PLAN :: string where
  "DEFAULT_PLAN = ''free''"

record meter_rate =
  included :: int
  overage_cents :: int

record rate_card =
  base_cents :: int
  card_currency :: string
  meters :: "(string \<times> meter_rate) list"

definition DEFAULT_RATE_CARDS :: "(string \<times> rate_card) list" where
  "DEFAULT_RATE_CARDS =
    [(''free'', \<lparr>base_cents = 0, card_currency = DEFAULT_CURRENCY,
        meters = [(''api_calls'', \<lparr>included = 1000, overage_cents = 0\<rparr>)]\<rparr>),
     (''pro'', \<lparr>base_cents = 4900, card_currency = DEFAULT_CURRENCY,
        meters = [(''api_calls'', \<lparr>included = 100000, overage_cents = 1\<rparr>),
                  (''tokens'', \<lparr>included = 1000000, overage_cents = 0\<rparr>)]\<rparr>),
     (''enterprise'', \<lparr>base_cents = 49900, card_currency = DEFAULT_CURRENCY,
        meters = [(''api_calls'', \<lparr>included = 1000000, overage_cents = 1\<rparr>),
                  (''tokens'', \<lparr>included = 10000000, overage_cents = 0\<rparr>)]\<rparr>)]"

section \<open>Rating\<close>

record rated_line =
  kind :: string
  meter :: "string option"
  quantity :: int
  unit_cents :: int
  amount_cents :: int
  description :: string

text \<open>\<open>usage.get(meter, 0)\<close>.\<close>

definition usage_get :: "(string \<rightharpoonup> int) \<Rightarrow> string \<Rightarrow> int" where
  "usage_get usage m = (case usage m of None \<Rightarrow> 0 | Some q \<Rightarrow> q)"

text \<open>\<open>cards.get(plan) or cards.get(DEFAULT_PLAN)\<close>: a card object is always truthy.\<close>

definition resolve_card :: "(string \<times> rate_card) list \<Rightarrow> string \<Rightarrow> rate_card option" where
  "resolve_card cards plan = (case map_of cards plan of Some c \<Rightarrow> Some c
     | None \<Rightarrow> map_of cards DEFAULT_PLAN)"

definition base_lines :: "string \<Rightarrow> rate_card \<Rightarrow> rated_line list" where
  "base_lines plan rc = (if base_cents rc \<noteq> 0
     then [\<lparr>kind = ''base'', meter = None, quantity = 1, unit_cents = base_cents rc,
            amount_cents = base_cents rc, description = plan @ '' plan''\<rparr>]
     else [])"

text \<open>The loop over the sorted meters, appending a line where the included quota is exceeded.\<close>

fun overage_lines :: "(string \<rightharpoonup> int) \<Rightarrow> (string \<times> meter_rate) list \<Rightarrow> rated_line list" where
  "overage_lines usage [] = []"
| "overage_lines usage ((m, r) # ms) =
    (let used = usage_get usage m; over = max 0 (used - included r)
     in if over \<noteq> 0 \<and> overage_cents r \<noteq> 0
        then \<lparr>kind = ''overage'', meter = Some m, quantity = over, unit_cents = overage_cents r,
              amount_cents = over * overage_cents r,
              description = m @ '' overage: '' @ int_str over @ '' x '' @ int_str (overage_cents r) @ ''c''\<rparr>
             # overage_lines usage ms
        else overage_lines usage ms)"

definition rate :: "string \<Rightarrow> (string \<rightharpoonup> int) \<Rightarrow> (string \<times> rate_card) list option \<Rightarrow> rated_line list" where
  "rate plan usage rate_cards =
    (let cards = (case rate_cards of Some cs \<Rightarrow> cs | None \<Rightarrow> DEFAULT_RATE_CARDS)
     in case resolve_card cards plan of
          None \<Rightarrow> []
        | Some rc \<Rightarrow> base_lines plan rc @ overage_lines usage (sort_key fst (meters rc)))"

definition total_cents :: "rated_line list \<Rightarrow> int" where
  "total_cents ls = (\<Sum>l\<leftarrow>ls. amount_cents l)"

section \<open>Lemmas\<close>

lemma total_cents_Nil [simp]: "total_cents [] = 0"
  by (simp add: total_cents_def)

lemma total_cents_Cons [simp]: "total_cents (l # ls) = amount_cents l + total_cents ls"
  by (simp add: total_cents_def)

lemma total_cents_append [simp]: "total_cents (ls @ ks) = total_cents ls + total_cents ks"
  by (simp add: total_cents_def)

lemma total_base_lines: "total_cents (base_lines plan rc) = base_cents rc"
  by (simp add: base_lines_def)

lemma total_overage_lines:
  "total_cents (overage_lines usage ms)
    = (\<Sum>(m, r)\<leftarrow>ms. max 0 (usage_get usage m - included r) * overage_cents r)"
  by (induction ms) (auto simp: Let_def)

lemma sum_list_sort_key:
  fixes f :: "'a \<Rightarrow> int"
  shows "sum_list (map f (sort_key k xs)) = sum_list (map f xs)"
proof -
  have "sum_mset (image_mset f (mset (sort_key k xs))) = sum_mset (image_mset f (mset xs))"
    by simp
  then show ?thesis by (metis mset_map sum_mset_sum_list)
qed

text \<open>The overage a list of meters asks for a usage.\<close>

definition overage_due :: "(string \<rightharpoonup> int) \<Rightarrow> (string \<times> meter_rate) list \<Rightarrow> int" where
  "overage_due usage ms
    = (\<Sum>(m, r)\<leftarrow>ms. max 0 (usage_get usage m - included r) * overage_cents r)"

lemma total_rate_card:
  "resolve_card cards plan = Some rc
    \<Longrightarrow> total_cents (rate plan usage (Some cards)) = base_cents rc + overage_due usage (meters rc)"
  by (simp add: rate_def total_base_lines total_overage_lines sum_list_sort_key overage_due_def)

lemma total_rate_no_card:
  "resolve_card cards plan = None \<Longrightarrow> total_cents (rate plan usage (Some cards)) = 0"
  by (simp add: rate_def)

definition card_ok :: "rate_card \<Rightarrow> bool" where
  "card_ok c = (0 \<le> base_cents c \<and> list_all (\<lambda>(m, r). 0 \<le> overage_cents r) (meters c))"

definition cards_ok :: "(string \<times> rate_card) list \<Rightarrow> bool" where
  "cards_ok cs = list_all (\<lambda>(p, c). card_ok c) cs"

lemma resolve_card_ok: "cards_ok cs \<Longrightarrow> resolve_card cs plan = Some c \<Longrightarrow> card_ok c"
  by (auto simp: resolve_card_def cards_ok_def list_all_iff split: option.splits dest!: map_of_SomeD)

lemma default_cards_ok: "cards_ok DEFAULT_RATE_CARDS"
  by (simp add: cards_ok_def card_ok_def DEFAULT_RATE_CARDS_def)

lemma overage_due_nonneg: "list_all (\<lambda>(m, r). 0 \<le> overage_cents r) ms \<Longrightarrow> 0 \<le> overage_due u ms"
  by (induction ms) (auto simp: overage_due_def)

lemma overage_due_mono:
  assumes "\<And>m. usage_get u m \<le> usage_get v m"
  shows "list_all (\<lambda>(m, r). 0 \<le> overage_cents r) ms \<Longrightarrow> overage_due u ms \<le> overage_due v ms"
proof (induction ms)
  case Nil
  then show ?case by (simp add: overage_due_def)
next
  case (Cons x ms)
  obtain m r where x: "x = (m, r)" by (cases x)
  have "max 0 (usage_get u m - included r) \<le> max 0 (usage_get v m - included r)"
    using assms [of m] by simp
  then have "max 0 (usage_get u m - included r) * overage_cents r
      \<le> max 0 (usage_get v m - included r) * overage_cents r"
    using Cons.prems x by (simp add: mult_right_mono)
  with Cons x show ?case by (simp add: overage_due_def)
qed

lemma rate_default: "rate plan usage None = rate plan usage (Some DEFAULT_RATE_CARDS)"
  by (simp add: rate_def)

lemma total_rate_nonneg: "0 \<le> total_cents (rate plan usage None)"
proof (cases "resolve_card DEFAULT_RATE_CARDS plan")
  case None
  then show ?thesis by (simp add: rate_default total_rate_no_card)
next
  case (Some c)
  then have "card_ok c" using default_cards_ok resolve_card_ok by blast
  with Some show ?thesis
    by (simp add: rate_default total_rate_card card_ok_def overage_due_nonneg)
qed

lemma map_meter_overage_lines:
  "map meter (overage_lines usage ms)
    = map (Some \<circ> fst) (filter (\<lambda>(m, r). included r < usage_get usage m \<and> overage_cents r \<noteq> 0) ms)"
proof (induction ms)
  case Nil
  then show ?case by simp
next
  case (Cons x ms)
  obtain m r where "x = (m, r)" by (cases x)
  then show ?case using Cons by (simp add: Let_def max_def not_le)
qed

definition line_ok :: "rated_line \<Rightarrow> bool" where
  "line_ok l = (0 < quantity l \<and> unit_cents l \<noteq> 0 \<and> amount_cents l = quantity l * unit_cents l)"

lemma overage_lines_ok: "l \<in> set (overage_lines usage ms) \<Longrightarrow> line_ok l \<and> kind l = ''overage''"
  by (induction ms) (auto simp: Let_def line_ok_def split: if_splits)

lemma base_lines_ok: "l \<in> set (base_lines plan rc) \<Longrightarrow> line_ok l \<and> kind l = ''base''"
  by (auto simp: base_lines_def line_ok_def split: if_splits)

section \<open>Properties\<close>

text \<open>the invoice total is exactly the plan's price: the base fee of the plan's card (the free
  card's when the plan is unknown) plus, over all its meters, the units beyond the included quota
  times the overage price; without any card it is zero. The order of the lines does not matter.
\<close>

theorem rate_total_price:
  "total_cents (rate plan usage (Some cards)) = (case resolve_card cards plan of
      None \<Rightarrow> 0
    | Some rc \<Rightarrow> base_cents rc
        + (\<Sum>(m, r)\<leftarrow>meters rc. max 0 (usage_get usage m - included r) * overage_cents r))"
  by (cases "resolve_card cards plan")
    (simp_all add: total_rate_no_card total_rate_card overage_due_def)

text \<open>the lines an invoice shows are well formed and ordered: every line bills a positive quantity
  at a non-zero unit price for quantity times price, at most the first line is a base line, and
  the overage lines name exactly the meters beyond their quota that have a price, in sorted order.
\<close>

theorem rate_lines_ordered:
  assumes "resolve_card cards plan = Some rc" "distinct (map fst (meters rc))"
  shows "(\<forall>l \<in> set (rate plan usage (Some cards)). line_ok l)
    \<and> (\<exists>bs os. rate plan usage (Some cards) = bs @ os \<and> length bs \<le> 1
        \<and> (\<forall>l \<in> set bs. kind l = ''base'') \<and> (\<forall>l \<in> set os. kind l = ''overage'')
        \<and> (\<exists>ms. map meter os = map Some ms \<and> sorted_wrt (<) ms
            \<and> set ms = {m. \<exists>r. (m, r) \<in> set (meters rc)
                 \<and> included r < usage_get usage m \<and> overage_cents r \<noteq> 0}))"
proof -
  let ?sorted = "sort_key fst (meters rc)"
  let ?os = "overage_lines usage ?sorted"
  let ?over = "\<lambda>(m, r). included r < usage_get usage m \<and> overage_cents r \<noteq> 0"
  let ?ms = "map fst (filter ?over ?sorted)"
  have rate: "rate plan usage (Some cards) = base_lines plan rc @ ?os"
    using assms(1) by (simp add: rate_def)
  have "mset (map fst ?sorted) = mset (map fst (meters rc))" by simp
  then have "distinct (map fst ?sorted)"
    using assms(2) by (metis mset_eq_imp_distinct_iff)
  then have "distinct ?ms" by (simp add: distinct_map_filter)
  moreover have "sorted ?ms" by (simp add: sorted_filter)
  ultimately have "sorted_wrt (<) ?ms" by (simp add: strict_sorted_iff)
  moreover have "map meter ?os = map Some ?ms" by (simp add: map_meter_overage_lines)
  moreover have "set ?ms = {m. \<exists>r. (m, r) \<in> set (meters rc)
      \<and> included r < usage_get usage m \<and> overage_cents r \<noteq> 0}"
    by force
  ultimately have ex: "\<exists>ms. map meter ?os = map Some ms \<and> sorted_wrt (<) ms
      \<and> set ms = {m. \<exists>r. (m, r) \<in> set (meters rc)
           \<and> included r < usage_get usage m \<and> overage_cents r \<noteq> 0}"
    by blast
  have len: "length (base_lines plan rc) \<le> 1" by (simp add: base_lines_def)
  have kinds: "\<forall>l \<in> set (base_lines plan rc). kind l = ''base''" "\<forall>l \<in> set ?os. kind l = ''overage''"
    using base_lines_ok overage_lines_ok by blast+
  have ok: "\<forall>l \<in> set (rate plan usage (Some cards)). line_ok l"
    using rate base_lines_ok [of _ plan rc] overage_lines_ok [of _ usage ?sorted] by auto
  show ?thesis
    by (rule conjI [OF ok], rule exI, rule exI, intro conjI) (rule rate len kinds ex)+
qed

theorem rate_lines_ordered_witness:
  "sorted_wrt (<) [''api_calls'']
    \<and> list_all line_ok (rate ''pro'' [''api_calls'' \<mapsto> 150000] (Some DEFAULT_RATE_CARDS))"
proof -
  have rc: "resolve_card DEFAULT_RATE_CARDS ''pro'' = Some \<lparr>base_cents = 4900, card_currency = DEFAULT_CURRENCY,
        meters = [(''api_calls'', \<lparr>included = 100000, overage_cents = 1\<rparr>),
                  (''tokens'', \<lparr>included = 1000000, overage_cents = 0\<rparr>)]\<rparr>"
    by (simp add: resolve_card_def DEFAULT_RATE_CARDS_def)
  show ?thesis
    using rate_lines_ordered [OF rc, of "[''api_calls'' \<mapsto> 150000]"] by (simp add: list_all_iff)
qed

text \<open>more usage never makes an invoice cheaper, on any rate cards without negative prices, and
  in particular on the default ones.
\<close>

theorem rate_total_mono:
  assumes "cards_ok cards" "\<And>m. usage_get u m \<le> usage_get v m"
  shows "total_cents (rate plan u (Some cards)) \<le> total_cents (rate plan v (Some cards))"
proof (cases "resolve_card cards plan")
  case None
  then show ?thesis by (simp add: total_rate_no_card)
next
  case (Some c)
  then have "card_ok c" using assms(1) resolve_card_ok by blast
  with Some overage_due_mono [OF assms(2)] show ?thesis by (simp add: total_rate_card card_ok_def)
qed

theorem rate_total_mono_witness:
  "total_cents (rate ''pro'' [''api_calls'' \<mapsto> 100001] (Some DEFAULT_RATE_CARDS))
    \<le> total_cents (rate ''pro'' [''api_calls'' \<mapsto> 150000] (Some DEFAULT_RATE_CARDS))"
proof (rule rate_total_mono)
  show "cards_ok DEFAULT_RATE_CARDS" by (rule default_cards_ok)
  show "usage_get [''api_calls'' \<mapsto> 100001] m \<le> usage_get [''api_calls'' \<mapsto> 150000] m" for m
    by (simp add: usage_get_def)
qed

end
