(* ===== verification/Metering.thy ===== *)
theory Metering imports Rating begin

text \<open>
  The metering service (\<open>app/metering/models.py\<close>, \<open>app/metering/service.py\<close> and the close of a
  period in \<open>app/metering/router.py.jinja\<close>): usage events, invoices, prepaid wallets and their
  ledger. The database is a record of tables with the unique constraints of the models; each
  operation is one call on the committed database. Identifiers and clock readings are arguments.
\<close>

section \<open>Tables\<close>

record usage_event =
  ue_id :: uuid
  ue_org :: uuid
  ue_meter :: string
  ue_quantity :: int
  ue_key :: string
  ue_created_at :: datetime

record invoice =
  inv_id :: uuid
  inv_org :: uuid
  inv_start :: datetime
  inv_end :: datetime
  inv_status :: string
  inv_currency :: string
  inv_total :: int
  inv_plan :: string
  inv_lines :: "(string \<times> json) list list"
  inv_charged_at :: "datetime option"

record customer_wallet =
  w_id :: uuid
  w_org :: uuid
  w_balance :: int
  w_currency :: string

record wallet_transaction =
  tx_id :: uuid
  tx_wallet :: uuid
  tx_org :: uuid
  tx_delta :: int
  tx_reason :: string
  tx_key :: string
  tx_invoice :: "uuid option"

text \<open>The tables, and the organization ids the foreign keys refer to.\<close>

record metering_db =
  orgs :: "uuid list"
  usage_events :: "usage_event list"
  invoices :: "invoice list"
  wallets :: "customer_wallet list"
  wallet_txs :: "wallet_transaction list"

abbreviation "OPEN \<equiv> ''open''"
abbreviation "PAID \<equiv> ''paid''"
abbreviation "UNCOLLECTIBLE \<equiv> ''uncollectible''"

text \<open>The unique constraints (\<open>uq_usage_org_idem\<close>, \<open>uq_invoice_org_period\<close>).\<close>

definition usage_key :: "usage_event \<Rightarrow> uuid \<times> string" where
  "usage_key e = (ue_org e, ue_key e)"

definition invoice_key :: "invoice \<Rightarrow> uuid \<times> datetime" where
  "invoice_key i = (inv_org i, inv_start i)"

section \<open>Usage\<close>

text \<open>
  Append a usage event. The commit fails on an unknown organization or a used key; after the
  rollback only a duplicate key is benign, anything else is raised again.
\<close>

definition record_usage ::
  "uuid \<Rightarrow> datetime \<Rightarrow> uuid \<Rightarrow> string \<Rightarrow> int \<Rightarrow> string \<Rightarrow> metering_db \<Rightarrow> (exn + bool) \<times> metering_db" where
  "record_usage new_id now org m q key db =
    (let e = \<lparr>ue_id = new_id, ue_org = org, ue_meter = m, ue_quantity = q, ue_key = key,
              ue_created_at = now\<rparr>;
         committed = (if org \<in> set (orgs db) then insert_unique usage_key e (usage_events db) else None)
     in case committed of
          Some es \<Rightarrow> (Inr True, db\<lparr>usage_events := es\<rparr>)
        | None \<Rightarrow>
            (case lookup_by usage_key (org, key) (usage_events db) of
               Some _ \<Rightarrow> (Inr False, db)
             | None \<Rightarrow> (Inl IntegrityError, db)))"

text \<open>The events of an organization in \<open>[start, end)\<close>, and their sums per meter.\<close>

definition period_events :: "uuid \<Rightarrow> datetime \<Rightarrow> datetime \<Rightarrow> metering_db \<Rightarrow> usage_event list" where
  "period_events org start stop db
    = filter (\<lambda>e. ue_org e = org \<and> start \<le> ue_created_at e \<and> ue_created_at e < stop) (usage_events db)"

definition usage_for_period :: "uuid \<Rightarrow> datetime \<Rightarrow> datetime \<Rightarrow> metering_db \<Rightarrow> (string \<rightharpoonup> int)" where
  "usage_for_period org start stop db =
    (let es = period_events org start stop db
     in (\<lambda>m. if m \<in> ue_meter ` set es
              then Some (\<Sum>e\<leftarrow>filter (\<lambda>e. ue_meter e = m) es. ue_quantity e) else None))"

section \<open>Invoices\<close>

text \<open>A rated line as the JSON object stored on the invoice.\<close>

definition line_dict :: "rated_line \<Rightarrow> (string \<times> json) list" where
  "line_dict l =
    [(''kind'', JStr (kind l)),
     (''meter'', case meter l of None \<Rightarrow> JNull | Some m \<Rightarrow> JStr m),
     (''quantity'', JInt (quantity l)),
     (''unit_cents'', JInt (unit_cents l)),
     (''amount_cents'', JInt (amount_cents l)),
     (''description'', JStr (description l))]"

text \<open>
  Rate the period into an open invoice. When the period already has one, the commit fails and
  the existing invoice is returned.
\<close>

definition invoice_period ::
  "uuid \<Rightarrow> uuid \<Rightarrow> string \<Rightarrow> datetime \<Rightarrow> datetime \<Rightarrow> metering_db \<Rightarrow> (exn + invoice) \<times> metering_db" where
  "invoice_period new_id org plan start stop db =
    (let usage = usage_for_period org start stop db;
         lines = rate plan usage None;
         iv = \<lparr>inv_id = new_id, inv_org = org, inv_start = start, inv_end = stop,
           inv_status = OPEN, inv_currency = DEFAULT_CURRENCY, inv_total = total_cents lines,
           inv_plan = plan, inv_lines = map line_dict lines, inv_charged_at = None\<rparr>;
         committed = (if org \<in> set (orgs db) then insert_unique invoice_key iv (invoices db) else None)
     in case committed of
          Some rows \<Rightarrow> (Inr iv, db\<lparr>invoices := rows\<rparr>)
        | None \<Rightarrow>
            (case lookup_by invoice_key (org, start) (invoices db) of
               Some existing \<Rightarrow> (Inr existing, db)
             | None \<Rightarrow> (Inl IntegrityError, db)))"

text \<open>
  The wallet debit \<open>UPDATE ... WHERE organization_id = org AND balance_cents >= amount RETURNING id\<close>:
  one statement that tests and writes.
\<close>

definition debit_wallet :: "uuid \<Rightarrow> int \<Rightarrow> metering_db \<Rightarrow> uuid option \<times> metering_db" where
  "debit_wallet org amount db =
    (let hit = (\<lambda>w. w_org w = org \<and> amount \<le> w_balance w)
     in (map_option w_id (find hit (wallets db)),
         db\<lparr>wallets := update_where hit (\<lambda>w. w\<lparr>w_balance := w_balance w - amount\<rparr>) (wallets db)\<rparr>))"

text \<open>The flush of an invoice object: only its changed columns, on the row with its id.\<close>

definition save_charge :: "uuid \<Rightarrow> string \<Rightarrow> datetime option \<Rightarrow> metering_db \<Rightarrow> metering_db" where
  "save_charge i st charged db = db\<lparr>invoices :=
     update_where (\<lambda>r. inv_id r = i)
       (\<lambda>r. r\<lparr>inv_status := st, inv_charged_at := (case charged of None \<Rightarrow> inv_charged_at r | Some t \<Rightarrow> Some t)\<rparr>)
       (invoices db)\<rparr>"

text \<open>
  Charge an invoice. The argument is the caller's copy of the row, which another request may have
  overtaken. The ledger entry's key is derived from the invoice id; when it is already there the
  commit fails and debit and status are rolled back together.
\<close>

definition charge_invoice :: "uuid \<Rightarrow> datetime \<Rightarrow> invoice \<Rightarrow> metering_db \<Rightarrow> invoice \<times> metering_db" where
  "charge_invoice new_tx now iv db =
    (if inv_status iv \<noteq> OPEN then (iv, db)
     else if inv_total iv = 0 then
       (iv\<lparr>inv_status := PAID, inv_charged_at := Some now\<rparr>, save_charge (inv_id iv) PAID (Some now) db)
     else (case debit_wallet (inv_org iv) (inv_total iv) db of
         (None, _) \<Rightarrow>
           (iv\<lparr>inv_status := UNCOLLECTIBLE\<rparr>, save_charge (inv_id iv) UNCOLLECTIBLE None db)
       | (Some wallet_id, debited) \<Rightarrow>
           (let tx = \<lparr>tx_id = new_tx, tx_wallet = wallet_id, tx_org = inv_org iv,
                  tx_delta = - inv_total iv, tx_reason = ''invoice'',
                  tx_key = ''invoice:'' @ inv_id iv, tx_invoice = Some (inv_id iv)\<rparr>
            in case insert_unique tx_key tx (wallet_txs debited) of
                 Some txs \<Rightarrow>
                   (iv\<lparr>inv_status := PAID, inv_charged_at := Some now\<rparr>,
                    save_charge (inv_id iv) PAID (Some now) (debited\<lparr>wallet_txs := txs\<rparr>))
               | None \<Rightarrow>
                   (case lookup_by inv_id (inv_id iv) (invoices db) of
                      Some reloaded \<Rightarrow> (reloaded, db)
                    | None \<Rightarrow> (iv, db)))))"

section \<open>The wallet\<close>

definition get_wallet :: "uuid \<Rightarrow> metering_db \<Rightarrow> customer_wallet option" where
  "get_wallet org db = lookup_by w_org org (wallets db)"

text \<open>
  The wallet of an organization, created and flushed into the transaction when there is none.
  The flush fails for an unknown organization.
\<close>

definition get_or_create_wallet ::
  "uuid \<Rightarrow> uuid \<Rightarrow> string \<Rightarrow> metering_db \<Rightarrow> exn + (customer_wallet \<times> metering_db)" where
  "get_or_create_wallet new_id org currency db =
    (case get_wallet org db of
       Some w \<Rightarrow> Inr (w, db)
     | None \<Rightarrow>
         (let w = \<lparr>w_id = new_id, w_org = org, w_balance = 0, w_currency = currency\<rparr>
          in if org \<in> set (orgs db) then Inr (w, db\<lparr>wallets := wallets db @ [w]\<rparr>)
             else Inl IntegrityError))"

text \<open>
  Credit a wallet. A used key makes the flush of the ledger entry fail: everything is rolled
  back, the wallet created for this call included, and what is returned is flushed but never
  committed.
\<close>

definition top_up ::
  "uuid \<Rightarrow> uuid \<Rightarrow> uuid \<Rightarrow> int \<Rightarrow> string \<Rightarrow> string \<Rightarrow> metering_db
    \<Rightarrow> (exn + customer_wallet) \<times> metering_db" where
  "top_up new_wallet new_tx org amount key currency db =
    (case get_or_create_wallet new_wallet org currency db of
       Inl e \<Rightarrow> (Inl e, db)
     | Inr (w, flushed) \<Rightarrow>
         (let tx = \<lparr>tx_id = new_tx, tx_wallet = w_id w, tx_org = org, tx_delta = amount,
                tx_reason = ''topup'', tx_key = key, tx_invoice = None\<rparr>
          in case insert_unique tx_key tx (wallet_txs flushed) of
               None \<Rightarrow>
                 (case get_or_create_wallet new_wallet org currency db of
                    Inl e \<Rightarrow> (Inl e, db) | Inr (w', _) \<Rightarrow> (Inr w', db))
             | Some txs \<Rightarrow>
                 (Inr (w\<lparr>w_balance := w_balance w + amount\<rparr>),
                  flushed\<lparr>wallets := update_where (\<lambda>x. w_id x = w_id w)
                      (\<lambda>x. x\<lparr>w_balance := w_balance x + amount\<rparr>) (wallets flushed),
                    wallet_txs := txs\<rparr>)))"

section \<open>Closing a period\<close>

definition EPOCH :: datetime where
  "EPOCH = 0"

text \<open>\<open>last_end or _EPOCH\<close>: the greatest period end of the organization, the epoch if none.\<close>

definition period_start :: "uuid \<Rightarrow> metering_db \<Rightarrow> datetime" where
  "period_start org db =
    (case map inv_end (filter (\<lambda>i. inv_org i = org) (invoices db)) of
       [] \<Rightarrow> EPOCH
     | t # ts \<Rightarrow> fold max ts t)"

text \<open>
  The close route after its guards: the plan is the one the caller's subscription gives, the
  default plan without one.
\<close>

definition close_invoice ::
  "uuid \<Rightarrow> uuid \<Rightarrow> datetime \<Rightarrow> datetime \<Rightarrow> uuid \<Rightarrow> string option \<Rightarrow> metering_db
    \<Rightarrow> (exn + invoice) \<times> metering_db" where
  "close_invoice new_inv new_tx now charge_now org subscribed db =
    (let plan = (case subscribed of None \<Rightarrow> DEFAULT_PLAN | Some p \<Rightarrow> p);
         start = period_start org db
     in case invoice_period new_inv org plan start now db of
          (Inl e, db') \<Rightarrow> (Inl e, db')
        | (Inr iv, db') \<Rightarrow>
            (case charge_invoice new_tx charge_now iv db' of (iv', db'') \<Rightarrow> (Inr iv', db'')))"

section \<open>The ledger invariant\<close>

text \<open>
  What the tables keep: the unique constraints; every wallet's balance is the sum of its ledger
  entries and is not negative; every ledger entry belongs to a wallet of its organization; an
  entry made for an invoice carries the key derived from it and debits exactly its total.
\<close>

definition keys_ok :: "metering_db \<Rightarrow> bool" where
  "keys_ok db \<longleftrightarrow> unique_on usage_key (usage_events db) \<and> unique_on invoice_key (invoices db)
     \<and> unique_on inv_id (invoices db) \<and> unique_on w_org (wallets db) \<and> unique_on w_id (wallets db)
     \<and> unique_on tx_key (wallet_txs db)"

definition ledger_sum :: "uuid \<Rightarrow> wallet_transaction list \<Rightarrow> int" where
  "ledger_sum wid txs = (\<Sum>x\<leftarrow>filter (\<lambda>x. tx_wallet x = wid) txs. tx_delta x)"

definition balances_ok :: "customer_wallet list \<Rightarrow> wallet_transaction list \<Rightarrow> bool" where
  "balances_ok ws txs \<longleftrightarrow> (\<forall>w \<in> set ws. w_balance w = ledger_sum (w_id w) txs \<and> 0 \<le> w_balance w)
     \<and> (\<forall>x \<in> set txs. \<exists>w \<in> set ws. w_id w = tx_wallet x \<and> w_org w = tx_org x)"

definition links_ok :: "invoice list \<Rightarrow> wallet_transaction list \<Rightarrow> bool" where
  "links_ok invs txs \<longleftrightarrow> (\<forall>x \<in> set txs. \<forall>i. tx_invoice x = Some i \<longrightarrow>
     tx_key x = ''invoice:'' @ i
     \<and> (\<exists>iv \<in> set invs. inv_id iv = i \<and> inv_org iv = tx_org x \<and> tx_delta x = - inv_total iv))
     \<and> (\<forall>iv \<in> set invs. 0 \<le> inv_total iv)"

definition metering_ok :: "metering_db \<Rightarrow> bool" where
  "metering_ok db \<longleftrightarrow> keys_ok db \<and> balances_ok (wallets db) (wallet_txs db)
     \<and> links_ok (invoices db) (wallet_txs db)"

lemma ledger_sum_snoc:
  "ledger_sum wid (txs @ [x]) = ledger_sum wid txs + (if tx_wallet x = wid then tx_delta x else 0)"
  by (simp add: ledger_sum_def)

text \<open>One ledger entry with the matching balance update: the step both debit and top-up make.\<close>

lemma balances_ok_entry:
  assumes ok: "balances_ok ws txs" and uniq: "unique_on w_id ws"
    and w: "w \<in> set ws" "w_id w = tx_wallet x" "w_org w = tx_org x"
    and pos: "0 \<le> w_balance w + tx_delta x"
  shows "balances_ok (update_where (\<lambda>y. w_id y = tx_wallet x)
    (\<lambda>y. y\<lparr>w_balance := w_balance y + tx_delta x\<rparr>) ws) (txs @ [x])"
    (is "balances_ok ?ws _")
proof -
  have "w_balance v = ledger_sum (w_id v) (txs @ [x]) \<and> 0 \<le> w_balance v" if v: "v \<in> set ?ws" for v
  proof -
    from v obtain u where u: "u \<in> set ws"
      "v = (if w_id u = tx_wallet x then u\<lparr>w_balance := w_balance u + tx_delta x\<rparr> else u)"
      by (auto simp: set_update_where)
    have bal: "w_balance u = ledger_sum (w_id u) txs" "0 \<le> w_balance u"
      using ok u(1) by (auto simp: balances_ok_def)
    show ?thesis
    proof (cases "w_id u = tx_wallet x")
      case True
      then have "u = w" using unique_onD [OF uniq u(1) w(1)] w(2) by simp
      then show ?thesis using True bal pos u(2) by (simp add: ledger_sum_snoc)
    next
      case False
      then show ?thesis using bal u(2) by (simp add: ledger_sum_snoc)
    qed
  qed
  moreover have "\<exists>v \<in> set ?ws. w_id v = tx_wallet y \<and> w_org v = tx_org y" if "y \<in> set (txs @ [x])" for y
  proof -
    have "\<exists>u \<in> set ws. w_id u = tx_wallet y \<and> w_org u = tx_org y"
    proof (cases "y = x")
      case True
      then show ?thesis using w by blast
    next
      case False
      then show ?thesis using that ok by (simp add: balances_ok_def)
    qed
    then obtain u where "u \<in> set ws" "w_id u = tx_wallet y" "w_org u = tx_org y" by blast
    then show ?thesis
      unfolding set_update_where by (intro bexI [OF _ imageI [of u]]) simp_all
  qed
  ultimately show ?thesis unfolding balances_ok_def by blast
qed

lemma links_ok_snoc_other:
  "links_ok invs txs \<Longrightarrow> tx_invoice x = None \<Longrightarrow> links_ok invs (txs @ [x])"
  by (auto simp: links_ok_def)

lemma links_ok_snoc_invoice:
  assumes "links_ok invs txs" "iv \<in> set invs" "tx_invoice x = Some (inv_id iv)"
    "tx_key x = ''invoice:'' @ inv_id iv" "inv_org iv = tx_org x" "tx_delta x = - inv_total iv"
  shows "links_ok invs (txs @ [x])"
  using assms by (auto simp: links_ok_def)

lemma links_ok_update:
  assumes "links_ok invs txs"
    "\<And>r. inv_id (f r) = inv_id r \<and> inv_org (f r) = inv_org r \<and> inv_total (f r) = inv_total r"
  shows "links_ok (update_where P f invs) txs"
proof -
  let ?g = "\<lambda>r. if P r then f r else r"
  have g: "inv_id (?g r) = inv_id r \<and> inv_org (?g r) = inv_org r \<and> inv_total (?g r) = inv_total r" for r
    using assms(2) by simp
  have "\<exists>v \<in> set (update_where P f invs). inv_id v = i \<and> inv_org v = o' \<and> d = - inv_total v"
    if iv: "iv \<in> set invs" "inv_id iv = i" "inv_org iv = o'" "d = - inv_total iv" for iv i o' d
    by (rule bexI [of _ "?g iv"]) (use g [of iv] iv in \<open>auto simp: set_update_where\<close>)
  moreover have "0 \<le> inv_total v" if "v \<in> set (update_where P f invs)" for v
  proof -
    from that obtain u where u: "u \<in> set invs" "v = ?g u" unfolding set_update_where by blast
    then have "inv_total v = inv_total u" using g by simp
    then show ?thesis using assms(1) u(1) by (simp add: links_ok_def)
  qed
  ultimately show ?thesis using assms(1) unfolding links_ok_def by metis
qed

lemma links_ok_invoice: "links_ok invs txs \<Longrightarrow> 0 \<le> inv_total iv \<Longrightarrow> links_ok (invs @ [iv]) txs"
  by (fastforce simp: links_ok_def)

lemma links_ok_keeps:
  "links_ok invs txs \<Longrightarrow> x \<in> set txs \<Longrightarrow> tx_invoice x = Some i \<Longrightarrow> tx_key x = ''invoice:'' @ i"
  by (auto simp: links_ok_def)

section \<open>Every operation keeps the invariant\<close>

lemma metering_okI:
  "keys_ok db \<Longrightarrow> balances_ok (wallets db) (wallet_txs db) \<Longrightarrow> links_ok (invoices db) (wallet_txs db)
    \<Longrightarrow> metering_ok db"
  by (simp add: metering_ok_def)

lemma record_usage_ok: "metering_ok db \<Longrightarrow> metering_ok (snd (record_usage i t org m q k db))"
  by (auto simp: record_usage_def Let_def metering_ok_def keys_ok_def
      intro: unique_on_insert split: option.splits if_splits)

lemma invoice_period_ok:
  assumes "metering_ok db" "new_id \<notin> inv_id ` set (invoices db)"
  shows "metering_ok (snd (invoice_period new_id org plan s e db))"
proof -
  have step: "metering_ok (db\<lparr>invoices := invoices db @ [iv]\<rparr>)"
    if "inv_id iv = new_id" "invoice_key iv \<notin> invoice_key ` set (invoices db)" "0 \<le> inv_total iv" for iv
    using assms that
    by (simp add: metering_ok_def keys_ok_def links_ok_invoice unique_on_def)
  show ?thesis
    using assms(1)
    by (simp add: invoice_period_def Let_def split: option.splits)
      (auto simp: insert_unique_Some total_rate_nonneg intro!: step)
qed

text \<open>Under the unique constraints the conditional debit writes one wallet, found by its id.\<close>

lemma debit_wallet_Some:
  assumes keys: "unique_on w_org (wallets db)" "unique_on w_id (wallets db)"
    and hit: "debit_wallet org a db = (Some wid, db1)"
  shows "\<exists>w \<in> set (wallets db). w_org w = org \<and> w_id w = wid \<and> a \<le> w_balance w
    \<and> db1 = db\<lparr>wallets := update_where (\<lambda>y. w_id y = wid) (\<lambda>y. y\<lparr>w_balance := w_balance y - a\<rparr>) (wallets db)\<rparr>"
proof -
  let ?hit = "\<lambda>w. w_org w = org \<and> a \<le> w_balance w"
  from hit obtain w where f: "find ?hit (wallets db) = Some w" "w_id w = wid"
    by (auto simp: debit_wallet_def Let_def)
  then have w: "w \<in> set (wallets db)" "?hit w" by (auto simp: find_Some_iff)
  have "?hit y \<longleftrightarrow> w_id y = wid" if y: "y \<in> set (wallets db)" for y
    using unique_onD [OF keys(1) y w(1)] unique_onD [OF keys(2) y w(1)] w(2) f(2) by auto
  then have "update_where ?hit (\<lambda>y. y\<lparr>w_balance := w_balance y - a\<rparr>) (wallets db)
      = update_where (\<lambda>y. w_id y = wid) (\<lambda>y. y\<lparr>w_balance := w_balance y - a\<rparr>) (wallets db)"
    by (simp add: update_where_def)
  then show ?thesis using hit w f(2) by (auto simp: debit_wallet_def Let_def)
qed

lemma debit_wallet_None:
  "fst (debit_wallet org a db) = None \<longleftrightarrow> (\<forall>w \<in> set (wallets db). w_org w = org \<longrightarrow> w_balance w < a)"
  by (auto simp: debit_wallet_def Let_def find_None_iff)

lemma keys_ok_wallets_txs:
  assumes "keys_ok db" "unique_on tx_key txs" "map w_id ws = map w_id (wallets db)"
    "map w_org ws = map w_org (wallets db)"
  shows "keys_ok (db\<lparr>wallets := ws, wallet_txs := txs\<rparr>)"
  using assms by (simp add: keys_ok_def unique_on_def)

lemma save_charge_ok: "metering_ok db \<Longrightarrow> metering_ok (save_charge i st c db)"
  by (auto simp: save_charge_def metering_ok_def keys_ok_def invoice_key_def
      intro!: unique_on_update links_ok_update)

text \<open>The copy a caller charges may be stale in its status, never in its immutable columns.\<close>

definition copy_of :: "invoice \<Rightarrow> invoice \<Rightarrow> bool" where
  "copy_of iv r \<longleftrightarrow> inv_id iv = inv_id r \<and> inv_org iv = inv_org r \<and> inv_total iv = inv_total r"

lemma entry_ok:
  assumes ok: "metering_ok db" and fresh: "insert_unique tx_key x (wallet_txs db) = Some txs"
    and w: "w \<in> set (wallets db)" "w_id w = tx_wallet x" "w_org w = tx_org x" "0 \<le> w_balance w + tx_delta x"
    and link: "links_ok (invoices db) (wallet_txs db @ [x])"
  shows "metering_ok (db\<lparr>wallets := update_where (\<lambda>y. w_id y = tx_wallet x)
    (\<lambda>y. y\<lparr>w_balance := w_balance y + tx_delta x\<rparr>) (wallets db), wallet_txs := txs\<rparr>)"
proof (rule metering_okI)
  have txs: "txs = wallet_txs db @ [x]" using fresh by (simp add: insert_unique_Some)
  have keys: "keys_ok db" and bal: "balances_ok (wallets db) (wallet_txs db)"
    using ok by (simp_all add: metering_ok_def)
  show "keys_ok (db\<lparr>wallets := update_where (\<lambda>y. w_id y = tx_wallet x)
      (\<lambda>y. y\<lparr>w_balance := w_balance y + tx_delta x\<rparr>) (wallets db), wallet_txs := txs\<rparr>)"
    using keys fresh by (intro keys_ok_wallets_txs map_update_where)
      (auto simp: keys_ok_def intro: unique_on_insert)
  show "balances_ok (wallets (db\<lparr>wallets := update_where (\<lambda>y. w_id y = tx_wallet x)
      (\<lambda>y. y\<lparr>w_balance := w_balance y + tx_delta x\<rparr>) (wallets db), wallet_txs := txs\<rparr>))
      (wallet_txs (db\<lparr>wallets := update_where (\<lambda>y. w_id y = tx_wallet x)
      (\<lambda>y. y\<lparr>w_balance := w_balance y + tx_delta x\<rparr>) (wallets db), wallet_txs := txs\<rparr>))"
    using balances_ok_entry [OF bal _ w] keys txs by (simp add: keys_ok_def)
qed (use link fresh in \<open>simp add: insert_unique_Some\<close>)

text \<open>The three ways a charge of an open invoice with a non-zero total ends.\<close>

lemma charge_cases:
  assumes ok: "metering_ok db" and op: "inv_status iv = OPEN" "inv_total iv \<noteq> 0"
  obtains (broke) "\<forall>w \<in> set (wallets db). w_org w = inv_org iv \<longrightarrow> w_balance w < inv_total iv"
      "charge_invoice t now iv db
        = (iv\<lparr>inv_status := UNCOLLECTIBLE\<rparr>, save_charge (inv_id iv) UNCOLLECTIBLE None db)"
  | (paid) w txs where "w \<in> set (wallets db)" "w_org w = inv_org iv" "inv_total iv \<le> w_balance w"
      "''invoice:'' @ inv_id iv \<notin> tx_key ` set (wallet_txs db)"
      "txs = wallet_txs db @ [\<lparr>tx_id = t, tx_wallet = w_id w, tx_org = inv_org iv,
        tx_delta = - inv_total iv, tx_reason = ''invoice'', tx_key = ''invoice:'' @ inv_id iv,
        tx_invoice = Some (inv_id iv)\<rparr>]"
      "charge_invoice t now iv db = (iv\<lparr>inv_status := PAID, inv_charged_at := Some now\<rparr>,
        save_charge (inv_id iv) PAID (Some now) (db\<lparr>wallets := update_where (\<lambda>y. w_id y = w_id w)
          (\<lambda>y. y\<lparr>w_balance := w_balance y + (- inv_total iv)\<rparr>) (wallets db), wallet_txs := txs\<rparr>))"
  | (dup) "''invoice:'' @ inv_id iv \<in> tx_key ` set (wallet_txs db)"
      "\<exists>w \<in> set (wallets db). w_org w = inv_org iv \<and> inv_total iv \<le> w_balance w"
      "charge_invoice t now iv db = (case lookup_by inv_id (inv_id iv) (invoices db) of
        Some r \<Rightarrow> (r, db) | None \<Rightarrow> (iv, db))"
proof (cases "debit_wallet (inv_org iv) (inv_total iv) db")
  case (Pair found db1)
  show thesis
  proof (cases found)
    case None
    then show thesis
      using broke debit_wallet_None [of "inv_org iv" "inv_total iv" db] Pair op
      by (simp add: charge_invoice_def)
  next
    case (Some wid)
    have keys: "unique_on w_org (wallets db)" "unique_on w_id (wallets db)"
      using ok by (simp_all add: metering_ok_def keys_ok_def)
    from debit_wallet_Some [OF keys] Pair Some obtain w where
      w: "w \<in> set (wallets db)" "w_org w = inv_org iv" "w_id w = wid" "inv_total iv \<le> w_balance w"
      "db1 = db\<lparr>wallets := update_where (\<lambda>y. w_id y = wid)
        (\<lambda>y. y\<lparr>w_balance := w_balance y - inv_total iv\<rparr>) (wallets db)\<rparr>"
      by blast
    show thesis
    proof (cases "''invoice:'' @ inv_id iv \<in> tx_key ` set (wallet_txs db)")
      case True
      then show thesis
        using dup w Pair Some op by (auto simp: charge_invoice_def Let_def insert_unique_def)
    next
      case False
      then show thesis
        using paid [OF w(1,2,4) False refl] w(3,5) Pair Some op
        by (simp add: charge_invoice_def Let_def insert_unique_def)
    qed
  qed
qed

lemma charge_invoice_ok:
  assumes ok: "metering_ok db" and r: "r \<in> set (invoices db)" "copy_of iv r"
  shows "metering_ok (snd (charge_invoice t now iv db))"
proof (cases "inv_status iv = OPEN \<and> inv_total iv \<noteq> 0")
  case False
  then show ?thesis using ok save_charge_ok [OF ok] by (auto simp: charge_invoice_def)
next
  case True
  then have "inv_status iv = OPEN" "inv_total iv \<noteq> 0" by blast+
  from ok this show ?thesis
  proof (cases rule: charge_cases [where t = t and now = now])
    case broke
    then show ?thesis using save_charge_ok [OF ok] by simp
  next
    case (paid w txs)
    let ?x = "\<lparr>tx_id = t, tx_wallet = w_id w, tx_org = inv_org iv,
        tx_delta = - inv_total iv, tx_reason = ''invoice'', tx_key = ''invoice:'' @ inv_id iv,
        tx_invoice = Some (inv_id iv)\<rparr>"
    have "links_ok (invoices db) (wallet_txs db @ [?x])"
      using ok r by (intro links_ok_snoc_invoice [of _ _ r]) (auto simp: metering_ok_def copy_of_def)
    then have "metering_ok (db\<lparr>wallets := update_where (\<lambda>y. w_id y = tx_wallet ?x)
        (\<lambda>y. y\<lparr>w_balance := w_balance y + tx_delta ?x\<rparr>) (wallets db), wallet_txs := txs\<rparr>)"
      using paid ok by (intro entry_ok) (auto simp: insert_unique_def)
    then show ?thesis using paid(6) save_charge_ok by simp
  next
    case dup
    then show ?thesis using ok by (simp split: option.splits)
  qed
qed

lemma get_or_create_ok:
  assumes ok: "metering_ok db" and new: "new_id \<notin> w_id ` set (wallets db)"
    and got: "get_or_create_wallet new_id org c db = Inr (w, db1)"
  shows "metering_ok db1 \<and> w \<in> set (wallets db1) \<and> w_org w = org \<and> wallet_txs db1 = wallet_txs db
    \<and> invoices db1 = invoices db \<and> usage_events db1 = usage_events db \<and> orgs db1 = orgs db"
proof (cases "get_wallet org db")
  case None
  then have org: "org \<notin> w_org ` set (wallets db)" by (simp add: get_wallet_def lookup_by_None)
  have bal: "balances_ok (wallets db) (wallet_txs db)" and keys: "keys_ok db"
    using ok by (simp_all add: metering_ok_def)
  have "ledger_sum new_id (wallet_txs db) = 0"
  proof -
    have "tx_wallet x \<noteq> new_id" if "x \<in> set (wallet_txs db)" for x
    proof
      assume "tx_wallet x = new_id"
      moreover obtain w where "w \<in> set (wallets db)" "w_id w = tx_wallet x"
        using bal \<open>x \<in> set (wallet_txs db)\<close> by (auto simp: balances_ok_def)
      ultimately have "new_id \<in> w_id ` set (wallets db)" by (intro image_eqI [of _ _ w]) simp_all
      then show False using new by contradiction
    qed
    then have "filter (\<lambda>x. tx_wallet x = new_id) (wallet_txs db) = []" by (simp add: filter_empty_conv)
    then show ?thesis by (simp add: ledger_sum_def)
  qed
  then have "balances_ok (wallets db @ [\<lparr>w_id = new_id, w_org = org, w_balance = 0, w_currency = c\<rparr>]) (wallet_txs db)"
    using bal by (auto simp: balances_ok_def)
  moreover have "keys_ok (db\<lparr>wallets := wallets db @ [\<lparr>w_id = new_id, w_org = org, w_balance = 0, w_currency = c\<rparr>]\<rparr>)"
    using keys org new by (simp add: keys_ok_def unique_on_def)
  ultimately show ?thesis
    using None got ok by (auto simp: get_or_create_wallet_def Let_def metering_ok_def split: if_splits)
next
  case (Some v)
  then show ?thesis
    using got ok by (auto simp: get_or_create_wallet_def get_wallet_def dest: lookup_by_SomeD)
qed

lemma top_up_ok:
  assumes ok: "metering_ok db" and new: "new_w \<notin> w_id ` set (wallets db)" and pos: "0 < a"
  shows "metering_ok (snd (top_up new_w t org a k c db))"
proof (cases "get_or_create_wallet new_w org c db")
  case (Inl e)
  then show ?thesis using ok by (simp add: top_up_def)
next
  case (Inr p)
  obtain w db1 where p: "p = (w, db1)" by (cases p)
  note got = get_or_create_ok [OF ok new Inr [unfolded p]]
  let ?x = "\<lparr>tx_id = t, tx_wallet = w_id w, tx_org = org, tx_delta = a, tx_reason = ''topup'',
      tx_key = k, tx_invoice = None\<rparr>"
  show ?thesis
  proof (cases "insert_unique tx_key ?x (wallet_txs db1)")
    case None
    then show ?thesis using Inr p ok by (auto simp: top_up_def Let_def split: sum.splits prod.splits)
  next
    case (Some txs)
    have "0 \<le> w_balance w" using got by (auto simp: metering_ok_def balances_ok_def)
    then have "metering_ok (db1\<lparr>wallets := update_where (\<lambda>y. w_id y = tx_wallet ?x)
        (\<lambda>y. y\<lparr>w_balance := w_balance y + tx_delta ?x\<rparr>) (wallets db1), wallet_txs := txs\<rparr>)"
      using got Some pos
      by (intro entry_ok [where w = w]) (auto simp: metering_ok_def intro: links_ok_snoc_other)
    then show ?thesis using Inr p Some by (simp add: top_up_def Let_def)
  qed
qed

section \<open>Runs\<close>

text \<open>
  One step is one service call on the committed database. A charge may act on a stale copy of its
  invoice, and an invoice may be opened for a period start read before another close committed:
  such a start is the epoch or some period end of the organization. A close takes a clock reading
  after the start.
\<close>

definition known_start :: "uuid \<Rightarrow> metering_db \<Rightarrow> datetime \<Rightarrow> bool" where
  "known_start org db s \<longleftrightarrow> s = EPOCH \<or> s \<in> inv_end ` {i \<in> set (invoices db). inv_org i = org}"

inductive metering_step :: "metering_db \<Rightarrow> metering_db \<Rightarrow> bool" where
  usage: "metering_step db (snd (record_usage i t org m q k db))"
| invoice: "new_id \<notin> inv_id ` set (invoices db) \<Longrightarrow> known_start org db s \<Longrightarrow> s < e \<Longrightarrow>
    metering_step db (snd (invoice_period new_id org plan s e db))"
| charge: "r \<in> set (invoices db) \<Longrightarrow> copy_of iv r \<Longrightarrow>
    metering_step db (snd (charge_invoice t now iv db))"
| topup: "new_w \<notin> w_id ` set (wallets db) \<Longrightarrow> 0 < a \<Longrightarrow>
    metering_step db (snd (top_up new_w t org a k c db))"

inductive metering_run :: "metering_db \<Rightarrow> metering_db \<Rightarrow> bool" where
  base: "metering_run db db"
| more: "metering_run db db' \<Longrightarrow> metering_step db' db'' \<Longrightarrow> metering_run db db''"

definition empty_db :: "uuid list \<Rightarrow> metering_db" where
  "empty_db os = \<lparr>orgs = os, usage_events = [], invoices = [], wallets = [], wallet_txs = []\<rparr>"

lemma empty_db_ok: "metering_ok (empty_db os)"
  by (simp add: empty_db_def metering_ok_def keys_ok_def balances_ok_def links_ok_def)

lemma metering_step_ok: "metering_step db db' \<Longrightarrow> metering_ok db \<Longrightarrow> metering_ok db'"
  by (induction rule: metering_step.induct)
    (auto intro: record_usage_ok invoice_period_ok charge_invoice_ok top_up_ok)

lemma metering_run_ok: "metering_run db db' \<Longrightarrow> metering_ok db \<Longrightarrow> metering_ok db'"
  by (induction rule: metering_run.induct) (auto intro: metering_step_ok)

text \<open>A close is an invoice step followed by a charge step.\<close>

lemma lookup_invoice_copy:
  "invoice_period i org plan s e db = (Inr iv, db') \<Longrightarrow> iv \<in> set (invoices db')"
  by (auto simp: invoice_period_def Let_def insert_unique_Some
      split: option.splits if_splits dest: lookup_by_SomeD)

lemma fold_max_in: "fold max ts t \<in> set (t # ts)" for t :: "'a :: linorder"
proof (induction ts arbitrary: t)
  case (Cons x ts)
  then show ?case using Cons.IH [of "max x t"] by (auto simp: max_def split: if_splits)
qed simp

lemma known_start_period_start: "known_start org db (period_start org db)"
proof (cases "map inv_end (filter (\<lambda>i. inv_org i = org) (invoices db))")
  case Nil
  then show ?thesis by (simp add: known_start_def period_start_def)
next
  case (Cons t ts)
  then have "period_start org db \<in> set (t # ts)"
    using fold_max_in [of ts t] by (simp add: period_start_def)
  also have "set (t # ts) = inv_end ` {i \<in> set (invoices db). inv_org i = org}"
    by (subst Cons [symmetric]) simp
  finally show ?thesis by (simp add: known_start_def)
qed

lemma close_invoice_run:
  assumes "new_inv \<notin> inv_id ` set (invoices db)" "period_start org db < now"
  shows "metering_run db (snd (close_invoice new_inv t now c org p db))"
proof -
  let ?plan = "case p of None \<Rightarrow> DEFAULT_PLAN | Some p \<Rightarrow> p"
  let ?ip = "invoice_period new_inv org ?plan (period_start org db) now db"
  have step: "metering_run db (snd ?ip)"
    using assms known_start_period_start
    by (blast intro: metering_run.more metering_run.base metering_step.invoice)
  show ?thesis
  proof (cases ?ip)
    case (Pair res db')
    show ?thesis
    proof (cases res)
      case (Inl e)
      then show ?thesis using Pair step by (simp add: close_invoice_def Let_def)
    next
      case (Inr iv)
      then have "iv \<in> set (invoices db')" using Pair lookup_invoice_copy by blast
      then have "metering_step db' (snd (charge_invoice t c iv db'))"
        by (rule metering_step.charge) (simp add: copy_of_def)
      then show ?thesis
        using Pair Inr step
        by (auto simp: close_invoice_def Let_def split: prod.splits intro: metering_run.more)
    qed
  qed
qed

end
