(* ===== verification/MeteringProps.thy ===== *)
theory MeteringProps imports Metering begin

text \<open>
  The properties of the metering service: usage is recorded once, the wallet ledger balances, an
  invoice is debited at most once whatever stale copies are charged, a payment is backed by its
  debit, and the periods tile time so that usage is billed exactly once. The theorems on a stale
  charge, a reused top-up key and a close that is not after its start state what the code does
  where its comments promise more.
\<close>

section \<open>What each operation leaves alone\<close>

lemma save_charge_frame [simp]:
  "usage_events (save_charge i st c db) = usage_events db" "wallets (save_charge i st c db) = wallets db"
  "wallet_txs (save_charge i st c db) = wallet_txs db" "orgs (save_charge i st c db) = orgs db"
  by (simp_all add: save_charge_def)

lemma debit_wallet_frame:
  "debit_wallet org a db = (r, db1) \<Longrightarrow> usage_events db1 = usage_events db \<and> invoices db1 = invoices db
    \<and> wallet_txs db1 = wallet_txs db \<and> orgs db1 = orgs db"
  by (auto simp: debit_wallet_def Let_def)

lemma charge_invoice_usage [simp]: "usage_events (snd (charge_invoice t now iv db)) = usage_events db"
  using debit_wallet_frame
  by (fastforce simp: charge_invoice_def Let_def split: prod.splits option.splits)

lemma top_up_frame [simp]:
  "usage_events (snd (top_up nw t org a k c db)) = usage_events db"
  "invoices (snd (top_up nw t org a k c db)) = invoices db"
  by (auto simp: top_up_def get_or_create_wallet_def Let_def
      split: option.splits sum.splits prod.splits if_splits)

lemma invoice_period_usage [simp]: "usage_events (snd (invoice_period i org plan s e db)) = usage_events db"
  by (auto simp: invoice_period_def Let_def split: option.splits)

lemma record_usage_frame [simp]:
  "invoices (snd (record_usage i t org m q k db)) = invoices db"
  "wallet_txs (snd (record_usage i t org m q k db)) = wallet_txs db"
  by (auto simp: record_usage_def Let_def split: option.splits)

lemma record_usage_grows:
  "set (usage_events db) \<subseteq> set (usage_events (snd (record_usage i t org m q k db)))"
  by (auto simp: record_usage_def Let_def insert_unique_Some split: option.splits if_splits)

lemma metering_step_usage_grows: "metering_step db db' \<Longrightarrow> set (usage_events db) \<subseteq> set (usage_events db')"
  by (induction rule: metering_step.induct) (simp_all add: record_usage_grows)

lemma metering_run_usage_grows: "metering_run db db' \<Longrightarrow> set (usage_events db) \<subseteq> set (usage_events db')"
  by (induction rule: metering_run.induct) (auto dest: metering_step_usage_grows)

lemma record_usage_dup:
  assumes "(org, k) \<in> usage_key ` set (usage_events db)"
  shows "record_usage i t org m q k db = (Inr False, db)"
proof -
  have "lookup_by usage_key (org, k) (usage_events db) \<noteq> None"
    using assms by (simp add: lookup_by_None)
  then show ?thesis
    using assms by (auto simp: record_usage_def Let_def insert_unique_def usage_key_def)
qed

lemma record_usage_True:
  assumes "record_usage i t org m q k db = (Inr True, db1)"
  shows "(org, k) \<in> usage_key ` set (usage_events db1)"
proof -
  have "usage_events db1 = usage_events db @ [\<lparr>ue_id = i, ue_org = org, ue_meter = m,
      ue_quantity = q, ue_key = k, ue_created_at = t\<rparr>]"
    using assms by (auto simp: record_usage_def Let_def insert_unique_Some split: option.splits if_splits)
  then show ?thesis by (simp add: usage_key_def)
qed

section \<open>Payments are backed by their debit\<close>

definition paid_ok :: "metering_db \<Rightarrow> bool" where
  "paid_ok db \<longleftrightarrow> (\<forall>iv \<in> set (invoices db). inv_status iv = PAID \<and> inv_total iv \<noteq> 0 \<longrightarrow>
     (\<exists>x \<in> set (wallet_txs db). tx_invoice x = Some (inv_id iv)))"

lemma paid_ok_grow:
  assumes "paid_ok db" "set (wallet_txs db) \<subseteq> set txs"
    "\<And>iv. iv \<in> set invs \<Longrightarrow> inv_status iv = PAID \<Longrightarrow> inv_total iv \<noteq> 0 \<Longrightarrow>
      iv \<in> set (invoices db) \<or> (\<exists>x \<in> set txs. tx_invoice x = Some (inv_id iv))"
  shows "paid_ok (db\<lparr>invoices := invs, wallet_txs := txs\<rparr>)"
  using assms by (fastforce simp: paid_ok_def)

lemma paid_ok_cong:
  "paid_ok db \<Longrightarrow> invoices db' = invoices db \<Longrightarrow> set (wallet_txs db) \<subseteq> set (wallet_txs db') \<Longrightarrow> paid_ok db'"
  by (fastforce simp: paid_ok_def)

lemma paid_ok_invoice:
  "paid_ok db \<Longrightarrow> paid_ok (snd (invoice_period i org plan s e db))"
  by (auto simp: paid_ok_def invoice_period_def Let_def insert_unique_Some split: option.splits if_splits)

lemma save_charge_mem:
  "r' \<in> set (invoices (save_charge i st c db)) \<Longrightarrow>
    r' \<in> set (invoices db) \<or> (\<exists>r \<in> set (invoices db). inv_id r = i \<and> inv_id r' = i
      \<and> inv_status r' = st \<and> inv_total r' = inv_total r)"
  by (auto simp: save_charge_def set_update_where)

lemma paid_ok_save:
  assumes "paid_ok db"
    "\<And>r. r \<in> set (invoices db) \<Longrightarrow> inv_id r = i \<Longrightarrow> st = PAID \<Longrightarrow> inv_total r \<noteq> 0 \<Longrightarrow>
      \<exists>x \<in> set (wallet_txs db). tx_invoice x = Some i"
  shows "paid_ok (save_charge i st c db)"
  unfolding paid_ok_def
proof (intro ballI impI)
  fix r' assume r': "r' \<in> set (invoices (save_charge i st c db))"
    "inv_status r' = PAID \<and> inv_total r' \<noteq> 0"
  from save_charge_mem [OF r'(1)] show "\<exists>x \<in> set (wallet_txs (save_charge i st c db)). tx_invoice x = Some (inv_id r')"
    using assms r'(2) by (auto simp: paid_ok_def)
qed

lemma paid_ok_charge:
  assumes ok: "metering_ok db" and paid: "paid_ok db" and r: "r \<in> set (invoices db)" "copy_of iv r"
  shows "paid_ok (snd (charge_invoice t now iv db))"
proof (cases "inv_status iv = OPEN \<and> inv_total iv \<noteq> 0")
  case False
  have same: "s = r" if "s \<in> set (invoices db)" "inv_id s = inv_id iv" for s
    using ok r that by (auto simp: metering_ok_def keys_ok_def copy_of_def dest: unique_onD)
  show ?thesis
  proof (cases "inv_status iv = OPEN")
    case True
    then have "snd (charge_invoice t now iv db) = save_charge (inv_id iv) PAID (Some now) db"
      using False by (simp add: charge_invoice_def)
    moreover have "inv_total s = 0" if "s \<in> set (invoices db)" "inv_id s = inv_id iv" for s
      using same [OF that] r(2) True False by (auto simp: copy_of_def)
    ultimately show ?thesis using paid by (auto intro: paid_ok_save)
  next
    case False
    then show ?thesis using paid by (simp add: charge_invoice_def)
  qed
next
  case True
  then have "inv_status iv = OPEN" "inv_total iv \<noteq> 0" by blast+
  from ok this show ?thesis
  proof (cases rule: charge_cases [where t = t and now = now])
    case broke
    then show ?thesis using paid by (auto intro: paid_ok_save)
  next
    case (paid w txs)
    let ?db = "db\<lparr>wallets := update_where (\<lambda>y. w_id y = w_id w)
          (\<lambda>y. y\<lparr>w_balance := w_balance y + (- inv_total iv)\<rparr>) (wallets db), wallet_txs := txs\<rparr>"
    have "paid_ok ?db" by (rule paid_ok_cong [OF assms(2)]) (auto simp: paid(5))
    then show ?thesis using paid(5,6) by (auto intro: paid_ok_save)
  next
    case dup
    then show ?thesis using paid by (simp split: option.splits)
  qed
qed

lemma top_up_txs: "set (wallet_txs db) \<subseteq> set (wallet_txs (snd (top_up nw t org a k c db)))"
  by (auto simp: top_up_def get_or_create_wallet_def Let_def insert_unique_Some
      split: option.splits sum.splits prod.splits if_splits)

lemma metering_step_paid:
  "metering_step db db' \<Longrightarrow> metering_ok db \<Longrightarrow> paid_ok db \<Longrightarrow> paid_ok db'"
proof (induction rule: metering_step.induct)
  case (usage db i t org m q k)
  then show ?case by (auto intro: paid_ok_cong)
next
  case (topup new_w db a t org k c)
  show ?case by (rule paid_ok_cong [OF topup.prems(2)]) (simp_all add: top_up_txs)
qed (auto intro: paid_ok_invoice paid_ok_charge)

lemma metering_run_paid: "metering_run db db' \<Longrightarrow> metering_ok db \<Longrightarrow> paid_ok db \<Longrightarrow> paid_ok db'"
  by (induction rule: metering_run.induct) (auto intro: metering_step_paid metering_run_ok)

lemma empty_db_paid: "paid_ok (empty_db os)"
  by (simp add: paid_ok_def empty_db_def)

section \<open>The ledger of one invoice\<close>

text \<open>Entries for an invoice share the key derived from its id, so there is at most one.\<close>

lemma invoice_entries:
  assumes ok: "metering_ok db" and iv: "iv \<in> set (invoices db)"
  shows "filter (\<lambda>x. tx_invoice x = Some (inv_id iv)) (wallet_txs db) = []
    \<or> (\<exists>x. filter (\<lambda>x. tx_invoice x = Some (inv_id iv)) (wallet_txs db) = [x]
          \<and> tx_delta x = - inv_total iv)"
proof -
  let ?es = "filter (\<lambda>x. tx_invoice x = Some (inv_id iv)) (wallet_txs db)"
  have links: "links_ok (invoices db) (wallet_txs db)" and keys: "keys_ok db"
    using ok by (simp_all add: metering_ok_def)
  have delta: "tx_delta x = - inv_total iv" if "x \<in> set ?es" for x
  proof -
    from that have "x \<in> set (wallet_txs db)" "tx_invoice x = Some (inv_id iv)" by simp_all
    then have "\<exists>v \<in> set (invoices db). inv_id v = inv_id iv \<and> inv_org v = tx_org x \<and> tx_delta x = - inv_total v"
      using links by (simp add: links_ok_def)
    then obtain v where "v \<in> set (invoices db)" "inv_id v = inv_id iv" "tx_delta x = - inv_total v" by blast
    moreover have "v = iv" using keys calculation iv by (auto simp: keys_ok_def dest: unique_onD)
    ultimately show ?thesis by simp
  qed
  have "distinct (map tx_key ?es)" using keys by (simp add: keys_ok_def unique_on_def distinct_map_filter)
  moreover have "tx_key x = ''invoice:'' @ inv_id iv" if "x \<in> set ?es" for x
    using links_ok_keeps [OF links] that by simp
  ultimately show ?thesis
    using delta by (cases ?es; cases "tl ?es") auto
qed

section \<open>Periods\<close>

definition org_invoices :: "uuid \<Rightarrow> metering_db \<Rightarrow> invoice list" where
  "org_invoices org db = filter (\<lambda>i. inv_org i = org) (invoices db)"

text \<open>Each invoice of the list starts where the one before it ended, the first at \<open>s\<close>.\<close>

fun chained :: "datetime \<Rightarrow> (datetime \<times> datetime) list \<Rightarrow> bool" where
  "chained s [] = True"
| "chained s ((a, b) # ps) = (a = s \<and> a < b \<and> chained b ps)"

definition periods :: "uuid \<Rightarrow> metering_db \<Rightarrow> (datetime \<times> datetime) list" where
  "periods org db = map (\<lambda>i. (inv_start i, inv_end i)) (org_invoices org db)"

fun chain_end :: "datetime \<Rightarrow> (datetime \<times> datetime) list \<Rightarrow> datetime" where
  "chain_end s [] = s"
| "chain_end s ((a, b) # ps) = chain_end b ps"

lemma chain_end_ge: "chained s ps \<Longrightarrow> s \<le> chain_end s ps"
  by (induction s ps rule: chained.induct) auto

lemma chained_snoc:
  "chained s ps \<Longrightarrow> chain_end s ps < e \<Longrightarrow> chained s (ps @ [(chain_end s ps, e)])"
  by (induction s ps rule: chained.induct) auto

lemma chained_known:
  "chained s ps \<Longrightarrow> x = s \<or> x \<in> snd ` set ps \<Longrightarrow> x \<notin> fst ` set ps \<Longrightarrow> x = chain_end s ps"
proof (induction s ps rule: chained.induct)
  case (2 s a b ps)
  then have "x = b \<or> x \<in> snd ` set ps" "x \<notin> fst ` set ps" "chained b ps" by auto
  then show ?case using 2(1) by simp
qed simp

lemma chained_fold_max: "chained s ps \<Longrightarrow> fold max (map snd ps) s = chain_end s ps"
  by (induction s ps rule: chained.induct) (auto simp: max_def)

lemma chained_ends: "chained s ps \<Longrightarrow> (a, b) \<in> set ps \<Longrightarrow> s \<le> a \<and> a < b \<and> b \<le> chain_end s ps"
proof (induction s ps rule: chained.induct)
  case (2 s a' b' ps)
  then show ?case using chain_end_ge [of b' ps] by fastforce
qed simp

lemma chained_covers:
  "chained s ps \<Longrightarrow> s \<le> t \<Longrightarrow> t < chain_end s ps \<Longrightarrow> \<exists>p. filter (\<lambda>p. fst p \<le> t \<and> t < snd p) ps = [p]"
proof (induction s ps rule: chained.induct)
  case (2 s a b ps)
  show ?case
  proof (cases "t < b")
    case True
    have "b \<le> fst p" if "p \<in> set ps" for p
      using chained_ends [of b ps "fst p" "snd p"] 2(2) that by simp
    then have "filter (\<lambda>p. fst p \<le> t \<and> t < snd p) ps = []"
      using True by (fastforce simp: filter_empty_conv)
    then show ?thesis using True 2(2,3) by simp
  next
    case False
    then show ?thesis using 2 by simp
  qed
qed simp

definition span_of :: "invoice \<Rightarrow> uuid \<times> datetime \<times> datetime" where
  "span_of i = (inv_org i, inv_start i, inv_end i)"

lemma periods_spans: "periods org db = map snd (filter (\<lambda>p. fst p = org) (map span_of (invoices db)))"
  by (simp add: periods_def org_invoices_def filter_map o_def span_of_def)

lemma periods_cong: "map span_of (invoices db') = map span_of (invoices db) \<Longrightarrow> periods org db' = periods org db"
  by (simp only: periods_spans)

lemma save_charge_spans: "map span_of (invoices (save_charge i st c d)) = map span_of (invoices d)"
  by (simp add: save_charge_def map_update_where span_of_def)

lemma charge_invoice_spans:
  "map span_of (invoices (snd (charge_invoice t now iv db))) = map span_of (invoices db)"
proof -
  obtain r db1 where d: "debit_wallet (inv_org iv) (inv_total iv) db = (r, db1)" by fastforce
  then have "invoices db1 = invoices db" using debit_wallet_frame by blast
  then show ?thesis
    by (simp add: charge_invoice_def Let_def save_charge_spans d split: option.splits)
qed

definition tiled :: "metering_db \<Rightarrow> bool" where
  "tiled db \<longleftrightarrow> (\<forall>org. chained EPOCH (periods org db))"

lemma invoice_period_tiled:
  assumes "tiled db" "known_start org db s" "s < e"
  shows "tiled (snd (invoice_period i org plan s e db))"
proof (cases "invoices (snd (invoice_period i org plan s e db)) = invoices db")
  case True
  then show ?thesis using assms(1) by (simp add: tiled_def periods_def org_invoices_def)
next
  case False
  then obtain iv where iv: "inv_org iv = org" "inv_start iv = s" "inv_end iv = e"
    "invoices (snd (invoice_period i org plan s e db)) = invoices db @ [iv]"
    "(org, s) \<notin> invoice_key ` set (invoices db)"
    using that [of "\<lparr>inv_id = i, inv_org = org, inv_start = s, inv_end = e, inv_status = OPEN,
        inv_currency = DEFAULT_CURRENCY, inv_total = total_cents (rate plan (usage_for_period org s e db) None),
        inv_plan = plan, inv_lines = map line_dict (rate plan (usage_for_period org s e db) None),
        inv_charged_at = None\<rparr>"]
    by (auto simp: invoice_period_def Let_def insert_unique_Some invoice_key_def
        split: option.splits if_splits)
  have chain: "chained EPOCH (periods o' db)" for o' using assms(1) by (simp add: tiled_def)
  have "s \<notin> fst ` set (periods org db)"
    using iv(5) by (force simp: periods_def org_invoices_def invoice_key_def)
  moreover have "s = EPOCH \<or> s \<in> snd ` set (periods org db)"
    using assms(2) by (force simp: known_start_def periods_def org_invoices_def)
  ultimately have "s = chain_end EPOCH (periods org db)" using chained_known [OF chain] by blast
  then have "chained EPOCH (periods org db @ [(s, e)])"
    using chained_snoc [OF chain] assms(3) by simp
  moreover have "periods o' (snd (invoice_period i org plan s e db))
      = periods o' db @ (if o' = org then [(s, e)] else [])" for o'
    using iv by (simp add: periods_def org_invoices_def)
  ultimately show ?thesis using chain by (simp add: tiled_def)
qed

lemma metering_step_tiled: "metering_step db db' \<Longrightarrow> tiled db \<Longrightarrow> tiled db'"
proof (induction rule: metering_step.induct)
  case (charge r db iv t now)
  then show ?case using periods_cong [OF charge_invoice_spans] by (simp add: tiled_def)
qed (auto simp: invoice_period_tiled, simp_all add: tiled_def periods_def org_invoices_def)

lemma metering_run_tiled: "metering_run db db' \<Longrightarrow> tiled db \<Longrightarrow> tiled db'"
  by (induction rule: metering_run.induct) (auto intro: metering_step_tiled)

lemma empty_db_tiled: "tiled (empty_db os)"
  by (simp add: tiled_def empty_db_def periods_def org_invoices_def)

lemma period_start_chain: "tiled db \<Longrightarrow> period_start org db = chain_end EPOCH (periods org db)"
proof -
  assume "tiled db"
  then have chain: "chained EPOCH (periods org db)" by (simp add: tiled_def)
  have ends: "map inv_end (org_invoices org db) = map snd (periods org db)"
    by (simp add: periods_def o_def)
  show ?thesis
  proof (cases "periods org db")
    case Nil
    then show ?thesis using ends by (simp add: period_start_def org_invoices_def)
  next
    case (Cons p ps)
    then have "period_start org db = fold max (map snd ps) (snd p)"
      using ends by (simp add: period_start_def org_invoices_def)
    then show ?thesis using chain Cons chained_fold_max [of "snd p" ps] by (cases p) simp
  qed
qed

section \<open>Properties\<close>

text \<open>A usage event is recorded once: after a call that recorded a key, and whatever happens in
  between, another call with the same organization and key answers \<open>False\<close> and writes nothing.\<close>

theorem usage_recorded_once:
  assumes "record_usage i t org m q k db = (Inr True, db1)" "metering_run db1 db2"
  shows "record_usage i' t' org m' q' k db2 = (Inr False, db2)"
proof (rule record_usage_dup)
  have "usage_key ` set (usage_events db1) \<subseteq> usage_key ` set (usage_events db2)"
    using metering_run_usage_grows [OF assms(2)] by blast
  then show "(org, k) \<in> usage_key ` set (usage_events db2)" using record_usage_True [OF assms(1)] by blast
qed

lemma usage_recorded_once_witness:
  "record_usage ''e2'' 9 ''acme'' ''tokens'' 50 ''k1''
     (snd (record_usage ''e1'' 5 ''acme'' ''api_calls'' 7 ''k1'' (empty_db [''acme''])))
   = (Inr False, snd (record_usage ''e1'' 5 ''acme'' ''api_calls'' 7 ''k1'' (empty_db [''acme''])))"
  by (rule usage_recorded_once [OF _ metering_run.base, where i = "''e1''" and t = 5 and m = "''api_calls''"
        and q = 7 and db = "empty_db [''acme'']"])
    (simp add: record_usage_def empty_db_def insert_unique_def)

text \<open>C2. The wallet ledger: in every state the service reaches, a wallet's balance is the sum of
  its ledger entries and is never negative.\<close>

theorem wallet_balance_is_ledger:
  assumes "metering_run (empty_db os) db" "w \<in> set (wallets db)"
  shows "w_balance w = (\<Sum>x\<leftarrow>filter (\<lambda>x. tx_wallet x = w_id w) (wallet_txs db). tx_delta x) \<and> 0 \<le> w_balance w"
proof -
  have "metering_ok db" using metering_run_ok [OF assms(1) empty_db_ok] .
  then show ?thesis using assms(2) by (auto simp: metering_ok_def balances_ok_def ledger_sum_def)
qed

definition topped_db :: metering_db where
  "topped_db = snd (top_up ''w1'' ''t1'' ''acme'' 500 ''k1'' ''usd'' (empty_db [''acme'']))"

lemma topped_db_eval: "topped_db = \<lparr>orgs = [''acme''], usage_events = [], invoices = [],
    wallets = [\<lparr>w_id = ''w1'', w_org = ''acme'', w_balance = 500, w_currency = ''usd''\<rparr>],
    wallet_txs = [\<lparr>tx_id = ''t1'', tx_wallet = ''w1'', tx_org = ''acme'', tx_delta = 500,
      tx_reason = ''topup'', tx_key = ''k1'', tx_invoice = None\<rparr>]\<rparr>"
  by (simp add: topped_db_def empty_db_def top_up_def get_or_create_wallet_def get_wallet_def Let_def
      insert_unique_def)

lemma topped_db_run: "metering_run (empty_db [''acme'']) topped_db"
  unfolding topped_db_def
  by (rule metering_run.more [OF metering_run.base metering_step.topup]) (simp_all add: empty_db_def)

lemma wallet_balance_is_ledger_witness:
  "w_balance (hd (wallets topped_db)) = 500 \<and> 0 \<le> w_balance (hd (wallets topped_db))"
  using wallet_balance_is_ledger [OF topped_db_run, of "hd (wallets topped_db)"]
  by (simp add: topped_db_eval)

text \<open>C1. An invoice is debited at most once, by exactly its total, whatever stale copies of it are
  charged and in whatever order; one that is marked paid has been debited.\<close>

theorem invoice_debited_once:
  assumes "metering_run (empty_db os) db" "iv \<in> set (invoices db)"
  shows "(\<Sum>x\<leftarrow>filter (\<lambda>x. tx_invoice x = Some (inv_id iv)) (wallet_txs db). tx_delta x) = - inv_total iv
    \<or> filter (\<lambda>x. tx_invoice x = Some (inv_id iv)) (wallet_txs db) = [] \<and> (inv_status iv \<noteq> PAID \<or> inv_total iv = 0)"
proof -
  have ok: "metering_ok db" and paid: "paid_ok db"
    using metering_run_ok [OF assms(1) empty_db_ok] metering_run_paid [OF assms(1) empty_db_ok empty_db_paid] .
  have "filter (\<lambda>x. tx_invoice x = Some (inv_id iv)) (wallet_txs db) = []
      \<Longrightarrow> inv_status iv \<noteq> PAID \<or> inv_total iv = 0"
    using paid assms(2) by (auto simp: paid_ok_def filter_empty_conv)
  then show ?thesis using invoice_entries [OF ok assms(2)] by auto
qed

definition invoiced_db :: metering_db where
  "invoiced_db = snd (invoice_period ''i1'' ''acme'' ''pro'' 0 7 topped_db)"

lemma invoiced_run: "metering_run (empty_db [''acme'']) invoiced_db"
  unfolding invoiced_db_def
  by (rule metering_run.more [OF topped_db_run metering_step.invoice])
    (simp_all add: topped_db_eval known_start_def EPOCH_def)

lemma invoice_debited_once_witness:
  "filter (\<lambda>x. tx_invoice x = Some ''i1'') (wallet_txs invoiced_db) = [] \<and> inv_status (hd (invoices invoiced_db)) = OPEN"
proof -
  have iv: "hd (invoices invoiced_db) \<in> set (invoices invoiced_db)"
    "inv_id (hd (invoices invoiced_db)) = ''i1''" "inv_status (hd (invoices invoiced_db)) = OPEN"
    "inv_total (hd (invoices invoiced_db)) = 4900" "wallet_txs invoiced_db = wallet_txs topped_db"
    by (simp_all add: invoiced_db_def topped_db_eval invoice_period_def Let_def insert_unique_def
        rate_def resolve_card_def DEFAULT_RATE_CARDS_def usage_for_period_def period_events_def
        base_lines_def usage_get_def insort_key_def)
  show ?thesis
    using invoice_debited_once [OF invoiced_run iv(1)] iv(2-) by (simp add: topped_db_eval)
qed

text \<open>C21. The periods tile time: every instant from the epoch to the start of the current period lies
  in exactly one invoice of the organization, so usage of that instant is billed by one invoice. The runs are those in which every close comes after the start
  of its period (\<open>close_blocked_for_ever\<close> is about the others).\<close>

theorem every_instant_on_one_invoice:
  assumes "metering_run (empty_db os) db" "EPOCH \<le> t" "t < period_start org db"
  shows "\<exists>iv. filter (\<lambda>i. inv_org i = org \<and> inv_start i \<le> t \<and> t < inv_end i) (invoices db) = [iv]"
proof -
  have tiled: "tiled db" using metering_run_tiled [OF assms(1) empty_db_tiled] .
  then have "chained EPOCH (periods org db)" by (simp add: tiled_def)
  then obtain p where "filter (\<lambda>p. fst p \<le> t \<and> t < snd p) (periods org db) = [p]"
    using chained_covers assms(2,3) period_start_chain [OF tiled] by metis
  then have "map (\<lambda>i. (inv_start i, inv_end i))
      (filter (\<lambda>i. inv_org i = org \<and> inv_start i \<le> t \<and> t < inv_end i) (invoices db)) = [p]"
    by (simp add: periods_def org_invoices_def filter_map o_def conj_commute)
  then show ?thesis by (auto simp: map_eq_Cons_conv)
qed

lemma every_instant_on_one_invoice_witness:
  "\<exists>iv. filter (\<lambda>i. inv_org i = ''acme'' \<and> inv_start i \<le> 3 \<and> 3 < inv_end i) (invoices invoiced_db) = [iv]"
  by (rule every_instant_on_one_invoice [OF invoiced_run])
    (simp_all add: EPOCH_def period_start_def invoiced_db_def topped_db_eval invoice_period_def Let_def
      insert_unique_def)

text \<open>Charging an open, not yet charged invoice with a non-zero total: when the organization's
  wallet covers it, the invoice comes back paid and exactly that wallet loses exactly the total;
  otherwise it comes back uncollectible and no wallet and no ledger entry changes.\<close>

theorem charge_open_invoice:
  assumes ok: "metering_ok db" and iv: "inv_status iv = OPEN" "inv_total iv \<noteq> 0"
    and fresh: "''invoice:'' @ inv_id iv \<notin> tx_key ` set (wallet_txs db)"
  shows "case get_wallet (inv_org iv) db of
      Some w \<Rightarrow>
        (if inv_total iv \<le> w_balance w
         then inv_status (fst (charge_invoice t now iv db)) = PAID
            \<and> get_wallet (inv_org iv) (snd (charge_invoice t now iv db))
               = Some (w\<lparr>w_balance := w_balance w - inv_total iv\<rparr>)
            \<and> (\<forall>o'. o' \<noteq> inv_org iv \<longrightarrow> get_wallet o' (snd (charge_invoice t now iv db)) = get_wallet o' db)
         else inv_status (fst (charge_invoice t now iv db)) = UNCOLLECTIBLE
            \<and> wallets (snd (charge_invoice t now iv db)) = wallets db
            \<and> wallet_txs (snd (charge_invoice t now iv db)) = wallet_txs db)
    | None \<Rightarrow> inv_status (fst (charge_invoice t now iv db)) = UNCOLLECTIBLE
            \<and> wallets (snd (charge_invoice t now iv db)) = wallets db"
proof -
  have keys: "unique_on w_org (wallets db)" "unique_on w_id (wallets db)"
    using ok by (simp_all add: metering_ok_def keys_ok_def)
  have get: "get_wallet o' db = Some w \<longleftrightarrow> w \<in> set (wallets db) \<and> w_org w = o'" for o' w
    using lookup_by_Some_iff [OF keys(1)] by (simp add: get_wallet_def)
  from ok iv show ?thesis
  proof (cases rule: charge_cases [where t = t and now = now])
    case broke
    then have "w_balance w < inv_total iv" if "get_wallet (inv_org iv) db = Some w" for w
      using that get by blast
    then show ?thesis using broke by (auto split: option.splits)
  next
    case (paid w txs)
    have w: "get_wallet (inv_org iv) db = Some w" using paid get by simp
    have "get_wallet o' (snd (charge_invoice t now iv db))
        = map_option (\<lambda>y. if w_id y = w_id w then y\<lparr>w_balance := w_balance y - inv_total iv\<rparr> else y)
            (get_wallet o' db)" for o'
      using paid(6) by (simp add: get_wallet_def lookup_by_update)
    moreover have "w_id y \<noteq> w_id w" if "get_wallet o' db = Some y" "o' \<noteq> inv_org iv" for o' y
    proof
      assume "w_id y = w_id w"
      moreover have "y \<in> set (wallets db)" "w \<in> set (wallets db)" "w_org y = o'" "w_org w = inv_org iv"
        using that(1) w by (simp_all add: get)
      ultimately have "y = w" by (intro unique_onD [OF keys(2)])
      then show False using that(2) \<open>w_org y = o'\<close> \<open>w_org w = inv_org iv\<close> by simp
    qed
    ultimately have "get_wallet o' (snd (charge_invoice t now iv db)) = get_wallet o' db"
      if "o' \<noteq> inv_org iv" for o'
      using that by (cases "get_wallet o' db") auto
    then show ?thesis using w paid(3,6) by (simp add: get_wallet_def lookup_by_update)
  next
    case dup
    then show ?thesis using fresh by blast
  qed
qed

lemma charge_open_invoice_witness:
  "inv_status (fst (charge_invoice ''t2'' 8 (hd (invoices invoiced_db)) invoiced_db)) = UNCOLLECTIBLE"
proof -
  let ?iv = "hd (invoices invoiced_db)"
  have iv: "inv_org ?iv = ''acme''" "inv_total ?iv = 4900" "inv_status ?iv = OPEN" "inv_id ?iv = ''i1''"
    and db: "get_wallet ''acme'' invoiced_db
        = Some \<lparr>w_id = ''w1'', w_org = ''acme'', w_balance = 500, w_currency = ''usd''\<rparr>"
      "tx_key ` set (wallet_txs invoiced_db) = {''k1''}"
    by (simp_all add: invoiced_db_def topped_db_eval invoice_period_def Let_def insert_unique_def
        rate_def resolve_card_def DEFAULT_RATE_CARDS_def usage_for_period_def period_events_def
        base_lines_def usage_get_def insort_key_def get_wallet_def)
  have "metering_ok invoiced_db" using metering_run_ok [OF invoiced_run empty_db_ok] .
  from charge_open_invoice [OF this iv(3), of "''t2''" 8] show ?thesis
    by (simp add: iv(1,2,4) db)
qed

text \<open>A stale charge: a request that read an open invoice, which another request meanwhile
  charged and paid, marks it uncollectible when the rest of the wallet does not cover the total
  again. The debit stays in the ledger, so the customer has paid an invoice that is reported unpaid.\<close>

theorem stale_charge_unpays:
  assumes ok: "metering_ok db" and r: "r \<in> set (invoices db)" "inv_status r = PAID"
    and debited: "x \<in> set (wallet_txs db)" "tx_invoice x = Some (inv_id r)"
    and stale: "copy_of iv r" "inv_status iv = OPEN" "inv_total iv \<noteq> 0"
    and rest: "\<forall>w \<in> set (wallets db). w_org w = inv_org r \<longrightarrow> w_balance w < inv_total r"
  shows "\<exists>r' \<in> set (invoices (snd (charge_invoice t now iv db))).
      inv_id r' = inv_id r \<and> inv_status r' = UNCOLLECTIBLE
      \<and> x \<in> set (wallet_txs (snd (charge_invoice t now iv db))) \<and> tx_delta x = - inv_total r'"
proof -
  have "tx_delta x = - inv_total r"
  proof -
    have "x \<in> set (filter (\<lambda>x. tx_invoice x = Some (inv_id r)) (wallet_txs db))"
      using debited by simp
    with invoice_entries [OF ok r(1)] show ?thesis
      by (elim disjE exE conjE) (simp_all only: list.set insert_iff empty_iff simp_thms)
  qed
  moreover have "charge_invoice t now iv db
      = (iv\<lparr>inv_status := UNCOLLECTIBLE\<rparr>, save_charge (inv_id iv) UNCOLLECTIBLE None db)"
    using ok stale(2,3)
    by (cases rule: charge_cases [where t = t and now = now])
      (use rest stale(1) in \<open>auto simp: copy_of_def\<close>)
  ultimately show ?thesis
    using r stale(1) debited
    by (auto simp: save_charge_def set_update_where copy_of_def
        intro!: bexI [of _ "r\<lparr>inv_status := UNCOLLECTIBLE\<rparr>"] image_eqI [of _ _ r])
qed

definition paid_db :: metering_db where
  "paid_db = \<lparr>orgs = [''acme''], usage_events = [],
    invoices = [\<lparr>inv_id = ''i1'', inv_org = ''acme'', inv_start = 0, inv_end = 7, inv_status = PAID,
      inv_currency = ''usd'', inv_total = 4900, inv_plan = ''pro'', inv_lines = [], inv_charged_at = Some 8\<rparr>],
    wallets = [\<lparr>w_id = ''w1'', w_org = ''acme'', w_balance = 100, w_currency = ''usd''\<rparr>],
    wallet_txs = [\<lparr>tx_id = ''t1'', tx_wallet = ''w1'', tx_org = ''acme'', tx_delta = 5000,
      tx_reason = ''topup'', tx_key = ''k1'', tx_invoice = None\<rparr>,
      \<lparr>tx_id = ''t2'', tx_wallet = ''w1'', tx_org = ''acme'', tx_delta = - 4900,
      tx_reason = ''invoice'', tx_key = ''invoice:i1'', tx_invoice = Some ''i1''\<rparr>]\<rparr>"

lemma stale_charge_unpays_witness:
  "\<exists>r' \<in> set (invoices (snd (charge_invoice ''t3'' 9 ((hd (invoices paid_db))\<lparr>inv_status := OPEN\<rparr>) paid_db))).
      inv_id r' = inv_id (hd (invoices paid_db)) \<and> inv_status r' = UNCOLLECTIBLE
      \<and> wallet_txs paid_db ! 1 \<in> set (wallet_txs (snd (charge_invoice ''t3'' 9
            ((hd (invoices paid_db))\<lparr>inv_status := OPEN\<rparr>) paid_db)))
      \<and> tx_delta (wallet_txs paid_db ! 1) = - inv_total r'"
  by (rule stale_charge_unpays)
    (simp_all add: paid_db_def metering_ok_def keys_ok_def balances_ok_def links_ok_def ledger_sum_def
      unique_on_def copy_of_def)

lemma get_or_create_total: "org \<in> set (orgs db) \<Longrightarrow> \<exists>w db1. get_or_create_wallet i org c db = Inr (w, db1)"
  by (cases "get_wallet org db") (simp_all add: get_or_create_wallet_def Let_def)

lemma get_or_create_get:
  assumes "metering_ok db" "new_id \<notin> w_id ` set (wallets db)"
    and got: "get_or_create_wallet new_id org c db = Inr (w, db1)"
  shows "get_wallet org db1 = Some w \<and> w_balance w = (case get_wallet org db of None \<Rightarrow> 0 | Some v \<Rightarrow> w_balance v)
    \<and> (\<forall>o'. o' \<noteq> org \<longrightarrow> get_wallet o' db1 = get_wallet o' db)"
  using got by (auto simp: get_or_create_wallet_def get_wallet_def Let_def lookup_by_append
      split: option.splits if_splits)

text \<open>A top-up with an unused key adds exactly the amount to the organization's balance (a missing
  wallet counts as zero) and leaves the wallets of all other organizations alone.\<close>

theorem top_up_credits:
  assumes ok: "metering_ok db" and org: "org \<in> set (orgs db)" and new: "nw \<notin> w_id ` set (wallets db)"
    and fresh: "k \<notin> tx_key ` set (wallet_txs db)"
  shows "map_option w_balance (get_wallet org (snd (top_up nw t org a k c db)))
      = Some ((case get_wallet org db of None \<Rightarrow> 0 | Some w \<Rightarrow> w_balance w) + a)
    \<and> (o' \<noteq> org \<longrightarrow> get_wallet o' (snd (top_up nw t org a k c db)) = get_wallet o' db)"
proof -
  obtain w db1 where got: "get_or_create_wallet nw org c db = Inr (w, db1)"
    using get_or_create_total [OF org] by blast
  note made = get_or_create_ok [OF ok new got] get_or_create_get [OF ok new got]
  have keys: "unique_on w_id (wallets db1)" using made by (simp add: metering_ok_def keys_ok_def)
  have other: "w_id y \<noteq> w_id w" if "get_wallet o' db1 = Some y" "o' \<noteq> org" for y
  proof
    assume "w_id y = w_id w"
    moreover have "y \<in> set (wallets db1)" "w_org y = o'"
      using that(1) by (auto simp: get_wallet_def dest: lookup_by_SomeD)
    ultimately show False using unique_onD [OF keys, of y w] made that(2) by blast
  qed
  have "get_wallet o'' (snd (top_up nw t org a k c db))
      = map_option (\<lambda>y. if w_id y = w_id w then y\<lparr>w_balance := w_balance y + a\<rparr> else y) (get_wallet o'' db1)" for o''
    using got fresh made by (simp add: top_up_def Let_def insert_unique_def get_wallet_def lookup_by_update)
  then show ?thesis using made other by (cases "get_wallet o' db1") auto
qed

lemma top_up_credits_witness:
  "map_option w_balance (get_wallet ''acme'' (snd (top_up ''w2'' ''t2'' ''acme'' 25 ''k2'' ''usd'' topped_db))) = Some 525"
  using top_up_credits [OF metering_run_ok [OF topped_db_run empty_db_ok], of "''acme''" "''w2''" "''k2''" "''t2''" 25 "''usd''"]
  by (simp add: topped_db_eval get_wallet_def)

lemma metering_step_txs_grow: "metering_step db db' \<Longrightarrow> metering_ok db \<Longrightarrow> set (wallet_txs db) \<subseteq> set (wallet_txs db')"
proof (induction rule: metering_step.induct)
  case (charge r db iv t now)
  show ?case
  proof (cases "inv_status iv = OPEN \<and> inv_total iv \<noteq> 0")
    case True
    then have "inv_status iv = OPEN" "inv_total iv \<noteq> 0" by blast+
    from charge(3) this show ?thesis
      by (cases rule: charge_cases [where t = t and now = now]) (auto split: option.splits)
  qed (auto simp: charge_invoice_def)
next
  case (invoice new_id db org s e plan)
  show ?case by (auto simp: invoice_period_def Let_def split: option.splits)
qed (simp_all add: top_up_txs)

lemma metering_run_txs_grow: "metering_run db db' \<Longrightarrow> metering_ok db \<Longrightarrow> set (wallet_txs db) \<subseteq> set (wallet_txs db')"
  by (induction rule: metering_run.induct) (auto dest: metering_step_txs_grow metering_run_ok)

text \<open>A top-up key is used up for ever and for everybody: after any entry of the ledger carries it,
  a top-up with the same key changes nothing, whichever organization asks and whatever it pays, and
  still answers with a wallet and not with an error.\<close>

theorem top_up_key_used_up:
  assumes ok: "metering_ok db" and used: "k \<in> tx_key ` set (wallet_txs db)"
    and run: "metering_run db db'" and org: "org \<in> set (orgs db')"
  shows "\<exists>w. top_up nw t org a k c db' = (Inr w, db')"
proof -
  have used': "k \<in> tx_key ` set (wallet_txs db')" using used metering_run_txs_grow [OF run ok] by blast
  obtain w db1 where got: "get_or_create_wallet nw org c db' = Inr (w, db1)"
    using get_or_create_total [OF org] by blast
  then have "wallet_txs db1 = wallet_txs db'"
    by (auto simp: get_or_create_wallet_def Let_def split: option.splits if_splits)
  then show ?thesis using got used' by (simp add: top_up_def Let_def insert_unique_def)
qed

definition two_orgs_db :: metering_db where
  "two_orgs_db = topped_db\<lparr>orgs := [''acme'', ''umbrella'']\<rparr>"

lemma top_up_key_used_up_witness:
  "\<exists>w. top_up ''w2'' ''t2'' ''umbrella'' 70000 ''k1'' ''usd'' two_orgs_db = (Inr w, two_orgs_db)"
  by (rule top_up_key_used_up [OF _ _ metering_run.base])
    (simp_all add: two_orgs_db_def topped_db_eval metering_ok_def keys_ok_def balances_ok_def links_ok_def
      ledger_sum_def unique_on_def)

section \<open>A close that is not after its start\<close>

lemma invoice_period_taken:
  assumes "iv \<in> set (invoices db)" "inv_org iv = org" "inv_start iv = s"
  shows "\<exists>v. invoice_period i org plan s e db = (Inr v, db)"
proof -
  have "(org, s) \<in> invoice_key ` set (invoices db)"
    using assms by (auto simp: invoice_key_def intro: rev_image_eqI)
  moreover then have "lookup_by invoice_key (org, s) (invoices db) \<noteq> None" by (simp add: lookup_by_None)
  ultimately show ?thesis by (auto simp: invoice_period_def Let_def insert_unique_def invoice_key_def)
qed

lemma period_start_spans:
  assumes "map span_of (invoices db') = map span_of (invoices db)"
  shows "period_start org db' = period_start org db"
proof -
  have "map inv_end (filter (\<lambda>i. inv_org i = org) (invoices d)) = map snd (periods org d)" for d
    by (simp add: periods_def org_invoices_def o_def)
  then show ?thesis by (simp only: period_start_def periods_cong [OF assms])
qed

definition blocked :: "uuid \<Rightarrow> metering_db \<Rightarrow> bool" where
  "blocked org db = (\<exists>iv \<in> set (invoices db). inv_org iv = org \<and> inv_start iv = period_start org db)"

text \<open>An invoice that starts where the current period starts blocks the organization: every later
  close, at any time, adds no invoice and leaves the period start where it is. Closing at a clock
  reading that is not after the period start (two closes in one microsecond, a clock that went
  back) leaves the tables so.\<close>

theorem close_blocked_for_ever:
  assumes "blocked org db"
  shows "map span_of (invoices (snd (close_invoice ni nt now cn org p db))) = map span_of (invoices db)
    \<and> blocked org (snd (close_invoice ni nt now cn org p db))"
proof -
  let ?db = "snd (close_invoice ni nt now cn org p db)"
  obtain v where "invoice_period ni org (case p of None \<Rightarrow> DEFAULT_PLAN | Some p \<Rightarrow> p) (period_start org db) now db = (Inr v, db)"
    using assms invoice_period_taken unfolding blocked_def by blast
  then have "?db = snd (charge_invoice nt cn v db)"
    by (simp add: close_invoice_def Let_def split: prod.splits)
  then have spans: "map span_of (invoices ?db) = map span_of (invoices db)"
    by (simp add: charge_invoice_spans)
  have blocked: "blocked org d \<longleftrightarrow> (\<exists>e. (org, period_start org d, e) \<in> set (map span_of (invoices d)))" for d
    by (force simp: blocked_def span_of_def)
  have "blocked org ?db" using assms unfolding blocked spans period_start_spans [OF spans] .
  then show ?thesis using spans by blast
qed

text \<open>The degenerate close itself: the second of two closes in the same microsecond.\<close>

definition closed_twice :: metering_db where
  "closed_twice = snd (close_invoice ''i2'' ''t2'' 7 7 ''acme'' None
     (snd (close_invoice ''i1'' ''t1'' 7 7 ''acme'' None (empty_db [''acme'']))))"

lemma close_blocked_for_ever_witness:
  "length (invoices (snd (close_invoice ''i3'' ''t3'' 900 900 ''acme'' None closed_twice))) = 2
    \<and> blocked ''acme'' (snd (close_invoice ''i3'' ''t3'' 900 900 ''acme'' None closed_twice))"
proof -
  have c: "length (invoices closed_twice) = 2" "blocked ''acme'' closed_twice"
    by (simp_all add: closed_twice_def close_invoice_def Let_def period_start_def empty_db_def EPOCH_def
        invoice_period_def insert_unique_def invoice_key_def charge_invoice_def save_charge_def
        rate_def resolve_card_def DEFAULT_RATE_CARDS_def DEFAULT_PLAN_def usage_for_period_def
        period_events_def base_lines_def usage_get_def update_where_def blocked_def)
  show ?thesis
    using close_blocked_for_ever [OF c(2), of "''i3''" "''t3''" 900 900 None] c(1)
    by (metis length_map)
qed

end
