(* ===== verification/Idempotency.thy ===== *)
theory Idempotency imports Prelude begin

text \<open>
  The idempotency store (\<open>app/idempotency/models.py\<close>, \<open>app/idempotency/store.py\<close>): one row per
  \<open>(scope, key)\<close>, claimed by an INSERT under the unique constraint, completed with the response,
  released or purged. The rows implement a map from \<open>(scope, key)\<close> to an expiry, a request hash
  and perhaps a response; the interface the middleware speaks is stated over that map as the
  locale \<open>idempotency_port\<close> and interpreted on the SQL store.
\<close>

section \<open>Rows and results\<close>

type_synonym header_list = "(bytes \<times> bytes) list"

record idem_row =
  ik_id :: uuid
  ik_scope :: string
  ik_key :: string
  ik_hash :: string
  ik_status :: string
  ik_resp_status :: "int option"
  ik_resp_headers :: "(string \<times> string) list option"
  ik_resp_body :: "bytes option"
  ik_expires :: datetime

definition idem_key :: "idem_row \<Rightarrow> string \<times> string" where
  "idem_key r = (ik_scope r, ik_key r)"

record cached_response =
  cr_status :: int
  cr_headers :: header_list
  cr_body :: bytes

datatype outcome = Owned | Replay | InProgress | Mismatch

record claim_result =
  cl_outcome :: outcome
  cl_cached :: "cached_response option"

abbreviation "IN_PROGRESS \<equiv> ''in_progress''"
abbreviation "COMPLETED \<equiv> ''completed''"

definition EXCLUDED_HEADERS :: "bytes list" where
  "EXCLUDED_HEADERS = [''set-cookie'', ''connection'', ''keep-alive'', ''transfer-encoding'',
    ''upgrade'', ''te'', ''trailers'', ''proxy-authenticate'', ''proxy-authorization'']"

section \<open>The store\<close>

text \<open>The two transactions of a claim: the INSERT, and the inspection of the row that beat it.\<close>

definition claim_insert ::
  "uuid \<Rightarrow> datetime \<Rightarrow> string \<Rightarrow> string \<Rightarrow> string \<Rightarrow> int \<Rightarrow> idem_row list \<Rightarrow> idem_row list option" where
  "claim_insert new_id now key scope h ttl rows =
    insert_unique idem_key
      \<lparr>ik_id = new_id, ik_scope = scope, ik_key = key, ik_hash = h, ik_status = IN_PROGRESS,
       ik_resp_status = None, ik_resp_headers = None, ik_resp_body = None,
       ik_expires = now + seconds ttl\<rparr> rows"

definition cached_of :: "idem_row \<Rightarrow> cached_response" where
  "cached_of r = \<lparr>cr_status = (case ik_resp_status r of Some st \<Rightarrow> st | None \<Rightarrow> 200),
     cr_headers = (case ik_resp_headers r of Some hs \<Rightarrow> hs | None \<Rightarrow> []),
     cr_body = (case ik_resp_body r of Some b \<Rightarrow> b | None \<Rightarrow> [])\<rparr>"

definition claim_inspect ::
  "datetime \<Rightarrow> string \<Rightarrow> string \<Rightarrow> string \<Rightarrow> int \<Rightarrow> idem_row list \<Rightarrow> claim_result \<times> idem_row list" where
  "claim_inspect now key scope h ttl rows =
    (case lookup_by idem_key (scope, key) rows of
       None \<Rightarrow> (\<lparr>cl_outcome = InProgress, cl_cached = None\<rparr>, rows)
     | Some r \<Rightarrow>
         if ik_expires r \<le> now then
           (\<lparr>cl_outcome = Owned, cl_cached = None\<rparr>,
            update_where (\<lambda>x. idem_key x = (scope, key))
              (\<lambda>x. x\<lparr>ik_hash := h, ik_status := IN_PROGRESS, ik_resp_status := None,
                 ik_resp_headers := None, ik_resp_body := None, ik_expires := now + seconds ttl\<rparr>) rows)
         else if ik_hash r \<noteq> h then (\<lparr>cl_outcome = Mismatch, cl_cached = None\<rparr>, rows)
         else if ik_status r = COMPLETED then
           (\<lparr>cl_outcome = Replay, cl_cached = Some (cached_of r)\<rparr>, rows)
         else (\<lparr>cl_outcome = InProgress, cl_cached = None\<rparr>, rows))"

definition claim ::
  "uuid \<Rightarrow> datetime \<Rightarrow> string \<Rightarrow> string \<Rightarrow> string \<Rightarrow> int \<Rightarrow> idem_row list \<Rightarrow> claim_result \<times> idem_row list" where
  "claim new_id now key scope h ttl rows =
    (case claim_insert new_id now key scope h ttl rows of
       Some rows' \<Rightarrow> (\<lparr>cl_outcome = Owned, cl_cached = None\<rparr>, rows')
     | None \<Rightarrow> claim_inspect now key scope h ttl rows)"

definition stored_headers :: "header_list \<Rightarrow> header_list" where
  "stored_headers hs = filter (\<lambda>(n, v). lower n \<notin> set EXCLUDED_HEADERS) hs"

definition complete ::
  "string \<Rightarrow> string \<Rightarrow> int \<Rightarrow> header_list \<Rightarrow> bytes \<Rightarrow> idem_row list \<Rightarrow> idem_row list" where
  "complete key scope st hs body rows =
    (case lookup_by idem_key (scope, key) rows of
       None \<Rightarrow> rows
     | Some _ \<Rightarrow>
         update_where (\<lambda>x. idem_key x = (scope, key))
           (\<lambda>x. x\<lparr>ik_status := COMPLETED, ik_resp_status := Some st,
              ik_resp_headers := Some (stored_headers hs), ik_resp_body := Some body\<rparr>) rows)"

definition release :: "string \<Rightarrow> string \<Rightarrow> idem_row list \<Rightarrow> idem_row list" where
  "release key scope rows =
    (case lookup_by idem_key (scope, key) rows of
       None \<Rightarrow> rows
     | Some r \<Rightarrow> if ik_status r = IN_PROGRESS then delete_where (\<lambda>x. idem_key x = (scope, key)) rows
                 else rows)"

text \<open>The purge answers how many rows it deleted.\<close>

definition purge_expired :: "datetime \<Rightarrow> idem_row list \<Rightarrow> nat \<times> idem_row list" where
  "purge_expired now rows =
    (length (filter (\<lambda>r. ik_expires r \<le> now) rows), delete_where (\<lambda>r. ik_expires r \<le> now) rows)"

section \<open>The interface\<close>

record 's idem_port =
  p_claim :: "uuid \<Rightarrow> datetime \<Rightarrow> string \<Rightarrow> string \<Rightarrow> string \<Rightarrow> int \<Rightarrow> 's \<Rightarrow> claim_result \<times> 's"
  p_complete :: "string \<Rightarrow> string \<Rightarrow> int \<Rightarrow> header_list \<Rightarrow> bytes \<Rightarrow> 's \<Rightarrow> 's"
  p_release :: "string \<Rightarrow> string \<Rightarrow> 's \<Rightarrow> 's"
  p_purge :: "datetime \<Rightarrow> 's \<Rightarrow> nat \<times> 's"

text \<open>What a claimed key holds: when it expires, the request it was claimed for, its response.\<close>

type_synonym claim_entry = "datetime \<times> string \<times> cached_response option"
type_synonym claim_map = "string \<times> string \<rightharpoonup> claim_entry"

definition live :: "datetime \<Rightarrow> claim_map \<Rightarrow> string \<times> string \<Rightarrow> bool" where
  "live now m p = (case m p of None \<Rightarrow> False | Some (t, _, _) \<Rightarrow> now < t)"

definition answer :: "string \<Rightarrow> claim_entry \<Rightarrow> claim_result" where
  "answer h e = (case e of (_, h', c) \<Rightarrow>
     if h' \<noteq> h then \<lparr>cl_outcome = Mismatch, cl_cached = None\<rparr>
     else (case c of None \<Rightarrow> \<lparr>cl_outcome = InProgress, cl_cached = None\<rparr>
           | Some r \<Rightarrow> \<lparr>cl_outcome = Replay, cl_cached = Some r\<rparr>))"

locale idempotency_port =
  fixes store :: "'s idem_port"
    and ok :: "'s \<Rightarrow> bool"
    and entries :: "'s \<Rightarrow> claim_map"
  assumes claim_free: "ok s \<Longrightarrow> \<not> live now (entries s) (sc, k) \<Longrightarrow>
      \<exists>s'. p_claim store i now k sc h ttl s = (\<lparr>cl_outcome = Owned, cl_cached = None\<rparr>, s') \<and> ok s'
        \<and> entries s' = (entries s)((sc, k) \<mapsto> (now + seconds ttl, h, None))"
    and claim_held: "ok s \<Longrightarrow> entries s (sc, k) = Some e \<Longrightarrow> now < fst e \<Longrightarrow>
      p_claim store i now k sc h ttl s = (answer h e, s)"
    and complete_ok: "ok s \<Longrightarrow> ok (p_complete store k sc st hs b s)"
    and complete_entries: "ok s \<Longrightarrow> entries (p_complete store k sc st hs b s)
      = (case entries s (sc, k) of None \<Rightarrow> entries s
         | Some (t, h, c) \<Rightarrow> (entries s)((sc, k) \<mapsto>
             (t, h, Some \<lparr>cr_status = st, cr_headers = stored_headers hs, cr_body = b\<rparr>)))"
    and release_ok: "ok s \<Longrightarrow> ok (p_release store k sc s)"
    and release_entries: "ok s \<Longrightarrow> entries (p_release store k sc s)
      = (case entries s (sc, k) of Some (t, h, None) \<Rightarrow> (entries s)((sc, k) := None) | _ \<Rightarrow> entries s)"
    and purge_ok: "ok s \<Longrightarrow> ok (snd (p_purge store now s))"
    and purge_entries: "ok s \<Longrightarrow> entries (snd (p_purge store now s))
      = (\<lambda>p. if live now (entries s) p then entries s p else None)"

section \<open>The SQL store implements it\<close>

definition sql_store :: "idem_row list idem_port" where
  "sql_store = \<lparr>p_claim = claim, p_complete = complete, p_release = release, p_purge = purge_expired\<rparr>"

definition rows_ok :: "idem_row list \<Rightarrow> bool" where
  "rows_ok rows \<longleftrightarrow> unique_on idem_key rows
     \<and> (\<forall>r \<in> set rows. ik_status r = IN_PROGRESS \<or> ik_status r = COMPLETED)"

definition entry_of :: "idem_row \<Rightarrow> claim_entry" where
  "entry_of r = (ik_expires r, ik_hash r, if ik_status r = COMPLETED then Some (cached_of r) else None)"

definition row_entries :: "idem_row list \<Rightarrow> claim_map" where
  "row_entries rows p = map_option entry_of (lookup_by idem_key p rows)"

lemma rows_ok_update: "rows_ok rows \<Longrightarrow> (\<And>r. idem_key (f r) = idem_key r) \<Longrightarrow>
    (\<And>r. ik_status (f r) = IN_PROGRESS \<or> ik_status (f r) = COMPLETED) \<Longrightarrow> rows_ok (update_where P f rows)"
  by (auto simp: rows_ok_def set_update_where intro: unique_on_update)

lemma rows_ok_delete: "rows_ok rows \<Longrightarrow> rows_ok (delete_where P rows)"
  by (auto simp: rows_ok_def intro: unique_on_delete)

lemma lookup_rows_status: "rows_ok rows \<Longrightarrow> lookup_by idem_key p rows = Some r \<Longrightarrow>
    ik_status r = IN_PROGRESS \<or> ik_status r = COMPLETED"
  by (auto simp: rows_ok_def dest: lookup_by_SomeD)

lemma row_entries_update:
  assumes "\<And>r. idem_key (f r) = idem_key r" "lookup_by idem_key p rows = Some r"
  shows "row_entries (update_where (\<lambda>x. idem_key x = p) f rows) = (row_entries rows)(p \<mapsto> entry_of (f r))"
proof
  fix q
  have "idem_key x = q" if "lookup_by idem_key q rows = Some x" for x
    using that by (auto dest: lookup_by_SomeD)
  then show "row_entries (update_where (\<lambda>x. idem_key x = p) f rows) q
      = ((row_entries rows)(p \<mapsto> entry_of (f r))) q"
    using assms by (cases "lookup_by idem_key q rows") (auto simp: row_entries_def lookup_by_update)
qed

lemma claim_inserts:
  assumes "rows_ok rows" "lookup_by idem_key (sc, k) rows = None"
  shows "\<exists>rows'. claim i now k sc h ttl rows = (\<lparr>cl_outcome = Owned, cl_cached = None\<rparr>, rows') \<and> rows_ok rows'
    \<and> row_entries rows' = (row_entries rows)((sc, k) \<mapsto> (now + seconds ttl, h, None))"
proof -
  let ?r = "\<lparr>ik_id = i, ik_scope = sc, ik_key = k, ik_hash = h, ik_status = IN_PROGRESS,
       ik_resp_status = None, ik_resp_headers = None, ik_resp_body = None, ik_expires = now + seconds ttl\<rparr>"
  have new: "idem_key ?r = (sc, k)" by (simp add: idem_key_def)
  have absent: "(sc, k) \<notin> idem_key ` set rows" using assms(2) by (simp add: lookup_by_None)
  have "claim i now k sc h ttl rows = (\<lparr>cl_outcome = Owned, cl_cached = None\<rparr>, rows @ [?r])"
    using new absent by (simp add: claim_def claim_insert_def insert_unique_def)
  moreover have "rows_ok (rows @ [?r])"
    using assms(1) new absent by (simp add: rows_ok_def unique_on_def)
  moreover have "row_entries (rows @ [?r]) = (row_entries rows)((sc, k) \<mapsto> (now + seconds ttl, h, None))"
    using assms(2) new by (auto simp: row_entries_def lookup_by_append entry_of_def fun_eq_iff split: option.splits)
  ultimately show ?thesis by blast
qed

lemma claim_inspects:
  "lookup_by idem_key (sc, k) rows = Some r \<Longrightarrow> claim i now k sc h ttl rows = claim_inspect now k sc h ttl rows"
  by (auto simp: claim_def claim_insert_def insert_unique_def idem_key_def
      dest!: lookup_by_SomeD split: option.splits)

lemma claim_reclaims:
  assumes ok: "rows_ok rows" and r: "lookup_by idem_key (sc, k) rows = Some r" "ik_expires r \<le> now"
  shows "\<exists>rows'. claim i now k sc h ttl rows = (\<lparr>cl_outcome = Owned, cl_cached = None\<rparr>, rows') \<and> rows_ok rows'
    \<and> row_entries rows' = (row_entries rows)((sc, k) \<mapsto> (now + seconds ttl, h, None))"
proof -
  let ?f = "\<lambda>x. x\<lparr>ik_hash := h, ik_status := IN_PROGRESS, ik_resp_status := None,
    ik_resp_headers := None, ik_resp_body := None, ik_expires := now + seconds ttl\<rparr>"
  have "claim i now k sc h ttl rows = (\<lparr>cl_outcome = Owned, cl_cached = None\<rparr>,
      update_where (\<lambda>x. idem_key x = (sc, k)) ?f rows)"
    using r by (simp add: claim_inspects claim_inspect_def)
  moreover have "rows_ok (update_where (\<lambda>x. idem_key x = (sc, k)) ?f rows)"
    by (rule rows_ok_update [OF ok]) (simp_all add: idem_key_def)
  moreover have "row_entries (update_where (\<lambda>x. idem_key x = (sc, k)) ?f rows)
      = (row_entries rows)((sc, k) \<mapsto> (now + seconds ttl, h, None))"
    by (subst row_entries_update [OF _ r(1)]) (simp_all add: idem_key_def entry_of_def)
  ultimately show ?thesis by blast
qed

lemma claim_answers:
  assumes ok: "rows_ok rows" and r: "lookup_by idem_key (sc, k) rows = Some r" "now < ik_expires r"
  shows "claim i now k sc h ttl rows = (answer h (entry_of r), rows)"
  using r lookup_rows_status [OF ok r(1)]
  by (simp add: claim_inspects claim_inspect_def answer_def entry_of_def)

lemma complete_rows:
  assumes ok: "rows_ok rows"
  shows "rows_ok (complete k sc st hs b rows)
    \<and> row_entries (complete k sc st hs b rows)
      = (case row_entries rows (sc, k) of None \<Rightarrow> row_entries rows
         | Some (t, h, c) \<Rightarrow> (row_entries rows)((sc, k) \<mapsto>
             (t, h, Some \<lparr>cr_status = st, cr_headers = stored_headers hs, cr_body = b\<rparr>)))"
proof (cases "lookup_by idem_key (sc, k) rows")
  case None
  then show ?thesis using ok by (simp add: complete_def row_entries_def)
next
  case (Some r)
  let ?f = "\<lambda>x. x\<lparr>ik_status := COMPLETED, ik_resp_status := Some st,
    ik_resp_headers := Some (stored_headers hs), ik_resp_body := Some b\<rparr>"
  have "row_entries (update_where (\<lambda>x. idem_key x = (sc, k)) ?f rows) = (row_entries rows)((sc, k) \<mapsto> entry_of (?f r))"
    by (rule row_entries_update [OF _ Some]) (simp add: idem_key_def)
  moreover have "rows_ok (update_where (\<lambda>x. idem_key x = (sc, k)) ?f rows)"
    by (rule rows_ok_update [OF ok]) (simp_all add: idem_key_def)
  moreover have "row_entries rows (sc, k) = Some (entry_of r)" using Some by (simp add: row_entries_def)
  ultimately show ?thesis using Some by (simp add: complete_def entry_of_def cached_of_def)
qed

lemma row_entries_delete:
  "unique_on idem_key rows \<Longrightarrow> row_entries (delete_where P rows) p
    = (case lookup_by idem_key p rows of None \<Rightarrow> None | Some r \<Rightarrow> if P r then None else Some (entry_of r))"
  by (simp add: row_entries_def lookup_by_delete split: option.split)

lemma release_rows:
  assumes ok: "rows_ok rows"
  shows "rows_ok (release k sc rows)
    \<and> row_entries (release k sc rows)
      = (case row_entries rows (sc, k) of Some (t, h, None) \<Rightarrow> (row_entries rows)((sc, k) := None)
         | _ \<Rightarrow> row_entries rows)"
proof (cases "lookup_by idem_key (sc, k) rows")
  case None
  then show ?thesis using ok by (simp add: release_def row_entries_def)
next
  case (Some r)
  have uniq: "unique_on idem_key rows" using ok by (simp add: rows_ok_def)
  have "row_entries (delete_where (\<lambda>x. idem_key x = (sc, k)) rows) q
      = ((row_entries rows)((sc, k) := None)) q" for q
  proof (cases "lookup_by idem_key q rows")
    case None
    then show ?thesis by (simp add: row_entries_delete [OF uniq] fun_upd_def) (simp add: row_entries_def)
  next
    case (Some x)
    then have "idem_key x = q" by (auto dest: lookup_by_SomeD)
    with Some show ?thesis
      by (simp add: row_entries_delete [OF uniq] fun_upd_def) (simp add: row_entries_def)
  qed
  then have "row_entries (delete_where (\<lambda>x. idem_key x = (sc, k)) rows) = (row_entries rows)((sc, k) := None)"
    by (rule ext)
  then show ?thesis
    using Some ok lookup_rows_status [OF ok Some] rows_ok_delete
    by (auto simp: release_def row_entries_def entry_of_def)
qed

lemma purge_rows:
  assumes "rows_ok rows"
  shows "row_entries (snd (purge_expired now rows))
    = (\<lambda>p. if live now (row_entries rows) p then row_entries rows p else None)"
proof
  fix p
  have "unique_on idem_key rows" using assms by (simp add: rows_ok_def)
  then show "row_entries (snd (purge_expired now rows)) p
      = (if live now (row_entries rows) p then row_entries rows p else None)"
    by (cases "lookup_by idem_key p rows")
      (simp_all add: purge_expired_def row_entries_delete live_def, simp_all add: row_entries_def entry_of_def)
qed

lemma not_live_cases:
  "\<not> live now (row_entries rows) p \<Longrightarrow>
    lookup_by idem_key p rows = None \<or> (\<exists>r. lookup_by idem_key p rows = Some r \<and> ik_expires r \<le> now)"
  by (cases "lookup_by idem_key p rows") (auto simp: live_def row_entries_def entry_of_def)

lemma claim_when_free:
  assumes ok: "rows_ok rows" and free: "\<not> live now (row_entries rows) (sc, k)"
  shows "\<exists>rows'. claim i now k sc h ttl rows = (\<lparr>cl_outcome = Owned, cl_cached = None\<rparr>, rows') \<and> rows_ok rows'
    \<and> row_entries rows' = (row_entries rows)((sc, k) \<mapsto> (now + seconds ttl, h, None))"
  using not_live_cases [OF free]
proof (elim disjE exE conjE)
  assume "lookup_by idem_key (sc, k) rows = None"
  then show ?thesis by (rule claim_inserts [OF ok])
next
  fix r
  assume "lookup_by idem_key (sc, k) rows = Some r" "ik_expires r \<le> now"
  then show ?thesis by (rule claim_reclaims [OF ok])
qed

interpretation sql: idempotency_port sql_store rows_ok row_entries
proof
  fix s now sc k i h ttl
  assume "rows_ok s" "\<not> live now (row_entries s) (sc, k)"
  then show "\<exists>s'. p_claim sql_store i now k sc h ttl s = (\<lparr>cl_outcome = Owned, cl_cached = None\<rparr>, s') \<and> rows_ok s'
      \<and> row_entries s' = (row_entries s)((sc, k) \<mapsto> (now + seconds ttl, h, None))"
    using claim_when_free by (simp add: sql_store_def)
next
  fix s sc k e now i h ttl
  assume "rows_ok s" "row_entries s (sc, k) = Some e" "now < fst e"
  then show "p_claim sql_store i now k sc h ttl s = (answer h e, s)"
    by (auto simp: sql_store_def row_entries_def entry_of_def claim_answers)
qed (simp_all add: sql_store_def complete_rows release_rows purge_rows, simp add: purge_expired_def rows_ok_delete)

end
