(* ===== verification/IdempotencyMiddleware.thy ===== *)
theory IdempotencyMiddleware imports Idempotency begin

text \<open>
  The idempotency middleware (\<open>app/idempotency/middleware.py\<close>) over any store that satisfies the
  interface \<open>idempotency_port\<close>. The messages of one request are a function from the number of the
  call of \<open>receive\<close> to its answer; the application is a parameter that maps a scope, such a
  function and its own world to the messages it sends, how it ends, and the world after it. SHA-256
  in hexadecimal is a parameter. Header names and values are 8-bit text.
\<close>

section \<open>ASGI\<close>

text \<open>An absent \<open>body\<close> is the empty one, an absent \<open>more_body\<close> is \<open>False\<close>, absent headers are none.\<close>

datatype request_msg = http_request bytes bool | http_disconnect
datatype response_msg = response_start int header_list | response_body bytes

record http_scope =
  sc_type :: string
  sc_method :: string
  sc_path :: string
  sc_headers :: header_list
  sc_client :: "(string \<times> int) option"

text \<open>How an application ends: it returns, raises an \<open>Exception\<close>, or is cancelled (\<open>CancelledError\<close>
  is a \<open>BaseException\<close>, which \<open>except Exception\<close> does not catch).\<close>

datatype app_end = Returned | Raised exn | Cancelled

type_synonym 'w asgi_app = "http_scope \<Rightarrow> (nat \<Rightarrow> request_msg) \<Rightarrow> 'w \<Rightarrow> response_msg list \<times> app_end \<times> 'w"

definition MUTATING :: "string list" where
  "MUTATING = [''POST'', ''PUT'', ''PATCH'', ''DELETE'']"

section \<open>Reading the request\<close>

text \<open>The loop of \<open>_buffer_body\<close>. It need not end: a client may send empty parts for ever.\<close>

partial_function (option) buffer_loop ::
  "nat \<Rightarrow> (nat \<Rightarrow> request_msg) \<Rightarrow> nat \<Rightarrow> bytes \<Rightarrow> request_msg list \<Rightarrow> (bytes \<times> request_msg list \<times> bool) option" where
  "buffer_loop max_bytes receive i body messages =
    (case receive i of
       http_request b more_body \<Rightarrow>
         (if max_bytes < length (body @ b) then Some (body @ b, messages @ [receive i], True)
          else if \<not> more_body then Some (body @ b, messages @ [receive i], False)
          else buffer_loop max_bytes receive (Suc i) (body @ b) (messages @ [receive i]))
     | http_disconnect \<Rightarrow> Some (body, messages @ [receive i], False))"

definition buffer_body :: "(nat \<Rightarrow> request_msg) \<Rightarrow> nat \<Rightarrow> (bytes \<times> request_msg list \<times> bool) option" where
  "buffer_body receive max_bytes = buffer_loop max_bytes receive 0 [] []"

definition replayer :: "request_msg list \<Rightarrow> nat \<Rightarrow> request_msg" where
  "replayer messages i = (if i < length messages then messages ! i else http_request [] False)"

text \<open>After \<open>n\<close> buffered messages the next call of the real \<open>receive\<close> is its call number \<open>n\<close>.\<close>

definition chain_replayer :: "request_msg list \<Rightarrow> (nat \<Rightarrow> request_msg) \<Rightarrow> nat \<Rightarrow> request_msg" where
  "chain_replayer messages receive i = (if i < length messages then messages ! i else receive i)"

section \<open>Scope and fingerprint\<close>

definition header_value :: "http_scope \<Rightarrow> bytes \<Rightarrow> string option" where
  "header_value scope name = map_option snd (find (\<lambda>(n, v). n = name) (sc_headers scope))"

text \<open>\<open>a or b\<close> on optional strings: the empty string is falsy too.\<close>

definition or_str :: "string option \<Rightarrow> string option \<Rightarrow> string option" where
  "or_str a b = (case a of Some (c # cs) \<Rightarrow> Some (c # cs) | _ \<Rightarrow> b)"

definition caller_credential :: "http_scope \<Rightarrow> string" where
  "caller_credential scope =
    (case or_str (header_value scope ''authorization'') (header_value scope ''x-api-key'') of
       Some c \<Rightarrow> c
     | None \<Rightarrow> (case sc_client scope of Some (host, _) \<Rightarrow> ''ip:'' @ host | None \<Rightarrow> ''anonymous''))"

definition caller_scope :: "(bytes \<Rightarrow> string) \<Rightarrow> http_scope \<Rightarrow> string" where
  "caller_scope sha scope = sha (utf8 (caller_credential scope))"

definition fingerprint_input :: "http_scope \<Rightarrow> bytes \<Rightarrow> bytes" where
  "fingerprint_input scope body = sc_method scope @ '' '' @ utf8 (sc_path scope) @ [CHR 0x0A] @ body"

definition fingerprint :: "(bytes \<Rightarrow> string) \<Rightarrow> http_scope \<Rightarrow> bytes \<Rightarrow> string" where
  "fingerprint sha scope body = sha (fingerprint_input scope body)"

section \<open>Answering\<close>

record response_capture =
  rc_status :: int
  rc_headers :: header_list
  rc_body :: bytes
  rc_too_big :: bool

definition capture_init :: response_capture where
  "capture_init = \<lparr>rc_status = 500, rc_headers = [], rc_body = [], rc_too_big = False\<rparr>"

fun capture_send :: "nat \<Rightarrow> response_msg \<Rightarrow> response_capture \<Rightarrow> response_capture" where
  "capture_send max_bytes (response_start st hs) c = c\<lparr>rc_status := st, rc_headers := hs\<rparr>"
| "capture_send max_bytes (response_body b) c =
    (if rc_too_big c then c
     else c\<lparr>rc_body := rc_body c @ b, rc_too_big := max_bytes < length (rc_body c @ b)\<rparr>)"

definition capture :: "nat \<Rightarrow> response_msg list \<Rightarrow> response_capture" where
  "capture max_bytes ms = fold (capture_send max_bytes) ms capture_init"

definition send_response :: "int \<Rightarrow> header_list \<Rightarrow> bytes \<Rightarrow> response_msg list" where
  "send_response st headers body =
    [response_start st (headers @ [(''idempotent-replayed'', ''true'')]), response_body body]"

definition send_json :: "int \<Rightarrow> string \<Rightarrow> response_msg list" where
  "send_json st d =
    [response_start st [(''content-type'', ''application/json'')],
     response_body (''{\"detail\": \"'' @ d @ ''\"}'')]"

abbreviation "IN_PROGRESS_DETAIL \<equiv> ''A request with this Idempotency-Key is already in progress''"
abbreviation "MISMATCH_DETAIL \<equiv> ''Idempotency-Key was reused with a different request''"

section \<open>The middleware\<close>

record idem_config =
  ttl_seconds :: int
  max_body_bytes :: nat

text \<open>The part after the claim was granted: run the application, then complete or release.\<close>

definition run_owned ::
  "'s idem_port \<Rightarrow> 'w asgi_app \<Rightarrow> nat \<Rightarrow> string \<Rightarrow> string \<Rightarrow> http_scope \<Rightarrow> request_msg list \<Rightarrow> 's \<Rightarrow> 'w
    \<Rightarrow> (response_msg list \<times> app_end) \<times> 's \<times> 'w" where
  "run_owned store app max_bytes key caller scope messages s w =
    (case app scope (replayer messages) w of (sent, ending, w') \<Rightarrow>
       let captured = capture max_bytes sent
       in ((sent, ending),
           (case ending of
              Raised e \<Rightarrow> p_release store key caller s
            | Cancelled \<Rightarrow> s
            | Returned \<Rightarrow>
                if rc_too_big captured \<or> 500 \<le> rc_status captured then p_release store key caller s
                else p_complete store key caller (rc_status captured) (rc_headers captured) (rc_body captured) s),
           w'))"

definition idempotency_call ::
  "'s idem_port \<Rightarrow> 'w asgi_app \<Rightarrow> (bytes \<Rightarrow> string) \<Rightarrow> idem_config \<Rightarrow> uuid \<Rightarrow> datetime
    \<Rightarrow> http_scope \<Rightarrow> (nat \<Rightarrow> request_msg) \<Rightarrow> 's \<Rightarrow> 'w
    \<Rightarrow> ((response_msg list \<times> app_end) \<times> 's \<times> 'w) option" where
  "idempotency_call store app sha cfg new_id now scope receive s w =
    (let pass = (\<lambda>rcv. Some (case app scope rcv w of (sent, ending, w') \<Rightarrow> ((sent, ending), s, w')))
     in if sc_type scope \<noteq> ''http'' \<or> sc_method scope \<notin> set MUTATING then pass receive
        else case header_value scope ''idempotency-key'' of
          None \<Rightarrow> pass receive
        | Some key \<Rightarrow>
            (case buffer_body receive (max_body_bytes cfg) of
               None \<Rightarrow> None
             | Some (body, messages, over) \<Rightarrow>
                 if over then pass (chain_replayer messages receive)
                 else
                   (let caller = caller_scope sha scope
                    in case p_claim store new_id now key caller (fingerprint sha scope body) (ttl_seconds cfg) s of
                         (res, s') \<Rightarrow>
                           (case (cl_outcome res, cl_cached res) of
                              (Replay, Some r) \<Rightarrow>
                                Some ((send_response (cr_status r) (cr_headers r) (cr_body r), Returned), s', w)
                            | (InProgress, _) \<Rightarrow> Some ((send_json 409 IN_PROGRESS_DETAIL, Returned), s', w)
                            | (Mismatch, _) \<Rightarrow> Some ((send_json 422 MISMATCH_DETAIL, Returned), s', w)
                            | _ \<Rightarrow> Some (run_owned store app (max_body_bytes cfg) key caller scope messages s' w)))))"

section \<open>Buffering\<close>

fun part :: "request_msg \<Rightarrow> bytes" where
  "part (http_request b again) = b"
| "part http_disconnect = []"

text \<open>What the loop returns: the messages it read, their bodies, and whether they exceed the cap.\<close>

lemma buffer_loop_result:
  "buffer_loop m rcv i body ms = Some r \<Longrightarrow> length body \<le> m \<longrightarrow>
    (\<exists>n > i. r = (body @ concat (map (part \<circ> rcv) [i..<n]), ms @ map rcv [i..<n],
                  m < length (body @ concat (map (part \<circ> rcv) [i..<n]))))"
proof (rule buffer_loop.raw_induct [where P = "\<lambda>m rcv i body ms r. length body \<le> m \<longrightarrow>
    (\<exists>n > i. r = (body @ concat (map (part \<circ> rcv) [i..<n]), ms @ map rcv [i..<n],
                  m < length (body @ concat (map (part \<circ> rcv) [i..<n]))))"], goal_cases)
  case (1 f m rcv i body ms r)
  have one: "\<exists>n > i. r = (body @ concat (map (part \<circ> rcv) [i..<n]), ms @ map rcv [i..<n],
                  m < length (body @ concat (map (part \<circ> rcv) [i..<n])))"
    if "r = (body @ part (rcv i), ms @ [rcv i], m < length (body @ part (rcv i)))"
    using that by (intro exI [of _ "Suc i"]) simp
  show ?case
  proof (cases "rcv i")
    case http_disconnect
    then have "r = (body @ part (rcv i), ms @ [rcv i], False)" using 1(3) by simp
    then show ?thesis using one http_disconnect by (intro impI, intro one) simp
  next
    case (http_request b again)
    show ?thesis
    proof (cases "m < length (body @ b) \<or> \<not> again")
      case True
      then show ?thesis using 1(3) http_request one by (auto split: if_splits)
    next
      case False
      then have "f m rcv (Suc i) (body @ b) (ms @ [rcv i]) = Some r" "length (body @ b) \<le> m"
        using 1(3) http_request by auto
      then obtain n where "n > Suc i"
        "r = ((body @ b) @ concat (map (part \<circ> rcv) [Suc i..<n]), (ms @ [rcv i]) @ map rcv [Suc i..<n],
            m < length ((body @ b) @ concat (map (part \<circ> rcv) [Suc i..<n])))"
        using 1(2) by blast
      moreover have "[i..<n] = i # [Suc i..<n]" using \<open>n > Suc i\<close> by (simp add: upt_conv_Cons)
      ultimately show ?thesis using http_request by (intro impI exI [of _ n]) simp
    qed
  qed
qed

lemma buffer_body_result:
  assumes "buffer_body rcv m = Some (body, ms, over)"
  shows "\<exists>n > 0. body = concat (map (part \<circ> rcv) [0..<n]) \<and> ms = map rcv [0..<n] \<and> over = (m < length body)"
  using buffer_loop_result [OF assms [unfolded buffer_body_def]] by auto

text \<open>The loop ends when some message ends the body.\<close>

fun last_msg :: "request_msg \<Rightarrow> bool" where
  "last_msg (http_request b again) = (\<not> again)"
| "last_msg http_disconnect = True"

lemma buffer_loop_ends: "last_msg (rcv (i + k)) \<Longrightarrow> \<exists>r. buffer_loop m rcv i body ms = Some r"
proof (induction k arbitrary: i body ms)
  case 0
  then show ?case by (cases "rcv i") (auto simp: buffer_loop.simps)
next
  case (Suc k)
  then have "\<exists>r. buffer_loop m rcv (Suc i) b msgs = Some r" for b msgs by simp
  then show ?case by (cases "rcv i") (auto simp: buffer_loop.simps [of m rcv i])
qed

lemma buffer_loop_full:
  assumes "\<And>j. part (rcv j) \<noteq> []"
  shows "\<exists>r. buffer_loop m rcv i body ms = Some r"
proof (induction "Suc m - length body" arbitrary: i body ms rule: less_induct)
  case less
  show ?case
  proof (cases "rcv i")
    case (http_request b again)
    then have "b \<noteq> []" using assms [of i] by simp
    then have "\<not> m < length (body @ b) \<Longrightarrow> \<exists>r. buffer_loop m rcv (Suc i) (body @ b) (ms @ [rcv i]) = Some r"
      by (intro less) (cases b; simp)
    then show ?thesis using http_request by (auto simp: buffer_loop.simps [of m rcv i])
  next
    case http_disconnect
    then show ?thesis using assms [of i] by simp
  qed
qed

lemma chain_replayer_same: "chain_replayer (map rcv [0..<n]) rcv = rcv"
  by (rule ext) (simp add: chain_replayer_def)

section \<open>Capturing\<close>

lemma capture_append: "capture m (xs @ [x]) = capture_send m x (capture m xs)"
  by (simp add: capture_def)

fun sent_body :: "response_msg \<Rightarrow> bytes" where
  "sent_body (response_body b) = b"
| "sent_body (response_start st hs) = []"

lemma capture_body:
  "\<not> rc_too_big (capture m ms) \<Longrightarrow> rc_body (capture m ms) = concat (map sent_body ms) \<and> length (rc_body (capture m ms)) \<le> m"
proof (induction ms rule: rev_induct)
  case Nil
  then show ?case by (simp add: capture_def capture_init_def)
next
  case (snoc x xs)
  then show ?case by (cases x) (auto simp: capture_append split: if_splits)
qed

section \<open>The middleware over any store\<close>

text \<open>A request that reaches the claim with this key, body and messages.\<close>

definition claims_key :: "idem_config \<Rightarrow> http_scope \<Rightarrow> (nat \<Rightarrow> request_msg) \<Rightarrow> string \<Rightarrow> bytes \<Rightarrow> request_msg list \<Rightarrow> bool" where
  "claims_key cfg scope receive key body messages \<longleftrightarrow>
     sc_type scope = ''http'' \<and> sc_method scope \<in> set MUTATING
     \<and> header_value scope ''idempotency-key'' = Some key
     \<and> buffer_body receive (max_body_bytes cfg) = Some (body, messages, False)"

text \<open>A final answer: the application returned, below 500 and within the cap.\<close>

definition final :: "nat \<Rightarrow> response_msg list \<Rightarrow> app_end \<Rightarrow> bool" where
  "final max_bytes sent ending \<longleftrightarrow> ending = Returned \<and> \<not> rc_too_big (capture max_bytes sent)
     \<and> rc_status (capture max_bytes sent) < 500"

definition kept_response :: "nat \<Rightarrow> response_msg list \<Rightarrow> cached_response" where
  "kept_response max_bytes sent = (let c = capture max_bytes sent in
     \<lparr>cr_status = rc_status c, cr_headers = stored_headers (rc_headers c), cr_body = rc_body c\<rparr>)"

text \<open>What other requests and the purge do to a store before a claim on \<open>p\<close> expires: claims and releases of any key,
  completions of others. The one thing left out is a run of an earlier claim on \<open>p\<close>, expired since, that completes late:
  \<open>complete\<close> does not test who owns the claim.\<close>

inductive other_traffic :: "'s idem_port \<Rightarrow> string \<times> string \<Rightarrow> datetime \<Rightarrow> 's \<Rightarrow> 's \<Rightarrow> bool"
  for store p deadline where
  idle: "other_traffic store p deadline s s"
| other_claim: "other_traffic store p deadline s s' \<Longrightarrow> (sc, k) \<noteq> p \<or> now < deadline \<Longrightarrow>
    other_traffic store p deadline s (snd (p_claim store i now k sc h ttl s'))"
| other_complete: "other_traffic store p deadline s s' \<Longrightarrow> (sc, k) \<noteq> p \<Longrightarrow>
    other_traffic store p deadline s (p_complete store k sc st hs b s')"
| other_release: "other_traffic store p deadline s s' \<Longrightarrow>
    other_traffic store p deadline s (p_release store k sc s')"
| other_purge: "other_traffic store p deadline s s' \<Longrightarrow> now < deadline \<Longrightarrow>
    other_traffic store p deadline s (snd (p_purge store now s'))"

context idempotency_port
begin

lemma held_call:
  assumes "ok s" "claims_key cfg scope rcv key body msgs"
    "entries s (caller_scope sha scope, key) = Some (t, h, c)" "now < t"
  shows "idempotency_call store app sha cfg i now scope rcv s w
    = Some ((if h \<noteq> fingerprint sha scope body then send_json 422 MISMATCH_DETAIL
             else (case c of None \<Rightarrow> send_json 409 IN_PROGRESS_DETAIL
               | Some r \<Rightarrow> send_response (cr_status r) (cr_headers r) (cr_body r)), Returned), s, w)"
  using assms claim_held [OF assms(1,3), of now i "fingerprint sha scope body" "ttl_seconds cfg"]
  by (simp add: idempotency_call_def claims_key_def answer_def Let_def split: option.split)

lemma free_call:
  assumes "ok s" "claims_key cfg scope rcv key body msgs"
    "\<not> live now (entries s) (caller_scope sha scope, key)"
  shows "\<exists>s'. ok s' \<and> entries s' = (entries s)((caller_scope sha scope, key)
        \<mapsto> (now + seconds (ttl_seconds cfg), fingerprint sha scope body, None))
    \<and> idempotency_call store app sha cfg i now scope rcv s w
        = Some (run_owned store app (max_body_bytes cfg) key (caller_scope sha scope) scope msgs s' w)"
  using assms(2) claim_free [OF assms(1,3), of i "fingerprint sha scope body" "ttl_seconds cfg"]
  by (auto simp: idempotency_call_def claims_key_def Let_def)

lemma run_owned_entries:
  assumes "ok s" "entries s (caller, key) = Some (t, h, None)"
    and app: "app scope (replayer msgs) w = (sent, ending, w')"
  shows "\<exists>s'. run_owned store app m key caller scope msgs s w = ((sent, ending), s', w') \<and> ok s'
    \<and> entries s' = (if ending = Cancelled then entries s
        else (entries s)((caller, key) :=
          (if final m sent ending then Some (t, h, Some (kept_response m sent)) else None)))"
  using assms complete_ok [OF assms(1)] complete_entries [OF assms(1)] release_ok [OF assms(1)] release_entries [OF assms(1)]
  by (cases ending) (auto simp: run_owned_def Let_def final_def kept_response_def)

text \<open>A request granted the claim runs the application once and leaves its answer, or nothing.\<close>

lemma owned_call:
  assumes "ok s" "claims_key cfg scope rcv key body msgs"
    and free: "\<not> live now (entries s) (caller_scope sha scope, key)"
    and app: "app scope (replayer msgs) w = (sent, ending, w')"
  shows "\<exists>s'. idempotency_call store app sha cfg i now scope rcv s w = Some ((sent, ending), s', w') \<and> ok s'
    \<and> (\<forall>p. p \<noteq> (caller_scope sha scope, key) \<longrightarrow> entries s' p = entries s p)
    \<and> entries s' (caller_scope sha scope, key)
      = (if ending = Cancelled \<or> final (max_body_bytes cfg) sent ending
         then Some (now + seconds (ttl_seconds cfg), fingerprint sha scope body,
            if ending = Cancelled then None else Some (kept_response (max_body_bytes cfg) sent))
         else None)"
proof -
  obtain s1 where s1: "ok s1" "entries s1 = (entries s)((caller_scope sha scope, key)
        \<mapsto> (now + seconds (ttl_seconds cfg), fingerprint sha scope body, None))"
    and call: "idempotency_call store app sha cfg i now scope rcv s w
        = Some (run_owned store app (max_body_bytes cfg) key (caller_scope sha scope) scope msgs s1 w)"
    using free_call [where app = app and i = i and w = w, OF assms(1-3)] by (elim exE conjE) (rule that)
  from s1(2) have "entries s1 (caller_scope sha scope, key)
      = Some (now + seconds (ttl_seconds cfg), fingerprint sha scope body, None)" by simp
  from run_owned_entries [where app = app and m = "max_body_bytes cfg", OF s1(1) this app]
  obtain s' where "run_owned store app (max_body_bytes cfg) key (caller_scope sha scope) scope msgs s1 w
        = ((sent, ending), s', w')" "ok s'"
    "entries s' = (if ending = Cancelled then entries s1 else (entries s1)((caller_scope sha scope, key) :=
        (if final (max_body_bytes cfg) sent ending then Some (now + seconds (ttl_seconds cfg),
           fingerprint sha scope body, Some (kept_response (max_body_bytes cfg) sent)) else None)))"
    by blast
  note run = this
  show ?thesis
  proof (rule exI [of _ s'], intro conjI)
    show "idempotency_call store app sha cfg i now scope rcv s w = Some ((sent, ending), s', w')"
      using call run(1) by simp
    show "\<forall>p. p \<noteq> (caller_scope sha scope, key) \<longrightarrow> entries s' p = entries s p"
      unfolding run(3) s1(2) by simp
    show "entries s' (caller_scope sha scope, key)
      = (if ending = Cancelled \<or> final (max_body_bytes cfg) sent ending
         then Some (now + seconds (ttl_seconds cfg), fingerprint sha scope body,
            if ending = Cancelled then None else Some (kept_response (max_body_bytes cfg) sent))
         else None)"
      unfolding run(3) s1(2) by simp
  qed (rule run(2))
qed

lemma claim_keeps:
  assumes "ok s" "entries s p = Some e" "(sc, k) \<noteq> p \<or> now < fst e"
  shows "ok (snd (p_claim store i now k sc h ttl s)) \<and> entries (snd (p_claim store i now k sc h ttl s)) p = Some e"
proof (cases "live now (entries s) (sc, k)")
  case True
  then obtain e' where "entries s (sc, k) = Some e'" "now < fst e'"
    by (auto simp: live_def split: option.splits prod.splits)
  then show ?thesis using claim_held [OF assms(1)] assms(1,2) by simp
next
  case False
  then have "(sc, k) \<noteq> p" using assms(2,3) by (auto simp: live_def)
  moreover obtain s' where "p_claim store i now k sc h ttl s = (\<lparr>cl_outcome = Owned, cl_cached = None\<rparr>, s')"
    "ok s'" "entries s' = (entries s)((sc, k) \<mapsto> (now + seconds ttl, h, None))"
    using claim_free [OF assms(1) False] by blast
  ultimately show ?thesis using assms(2) by simp
qed

lemma other_traffic_keeps:
  "other_traffic store p d s s' \<Longrightarrow> ok s \<Longrightarrow> entries s p = Some e \<Longrightarrow> fst e = d \<Longrightarrow> snd (snd e) \<noteq> None \<Longrightarrow>
    ok s' \<and> entries s' p = Some e"
proof (induction rule: other_traffic.induct)
  case (other_claim s s' sc k now i h ttl)
  then show ?case using claim_keeps by blast
next
  case (other_complete s s' sc k st hs b)
  then show ?case using complete_ok complete_entries by (auto split: option.splits)
next
  case (other_release s s' sc k)
  then show ?case using release_ok release_entries by (auto split: option.splits)
next
  case (other_purge s s' now)
  then show ?case using purge_ok purge_entries by (auto simp: live_def split: option.splits prod.splits)
qed simp

text \<open>The point of the middleware: a retry is answered from the store.\<close>

lemma retry_replays:
  assumes "ok s" "claims_key cfg scope rcv key body msgs"
    and free: "\<not> live now (entries s) (caller_scope sha scope, key)"
    and app: "app scope (replayer msgs) w = (sent, ending, w1)" "final (max_body_bytes cfg) sent ending"
    and first: "idempotency_call store app sha cfg i now scope rcv s w = Some (out, s1, w1')"
    and between: "other_traffic store (caller_scope sha scope, key) (now + seconds (ttl_seconds cfg)) s1 s2"
    and retry: "claims_key cfg scope' rcv' key body' msgs'" "caller_scope sha scope' = caller_scope sha scope"
      "fingerprint sha scope' body' = fingerprint sha scope body" "now' < now + seconds (ttl_seconds cfg)"
  shows "idempotency_call store app sha cfg i' now' scope' rcv' s2 w2
    = Some ((let r = kept_response (max_body_bytes cfg) sent
             in send_response (cr_status r) (cr_headers r) (cr_body r), Returned), s2, w2)"
proof -
  have ret: "ending \<noteq> Cancelled" using app(2) by (simp add: final_def)
  obtain s1' where "idempotency_call store app sha cfg i now scope rcv s w = Some ((sent, ending), s1', w1)"
    "ok s1'" "entries s1' (caller_scope sha scope, key)
      = Some (now + seconds (ttl_seconds cfg), fingerprint sha scope body, Some (kept_response (max_body_bytes cfg) sent))"
    using owned_call [where app = app and i = i, OF assms(1-3) app(1)] app(2) ret by auto
  then have "ok s1" "entries s1 (caller_scope sha scope, key)
      = Some (now + seconds (ttl_seconds cfg), fingerprint sha scope body, Some (kept_response (max_body_bytes cfg) sent))"
    using first by simp_all
  from other_traffic_keeps [OF between this]
  have s2: "ok s2" "entries s2 (caller_scope sha scope', key)
      = Some (now + seconds (ttl_seconds cfg), fingerprint sha scope body, Some (kept_response (max_body_bytes cfg) sent))"
    using retry(2) by simp_all
  show ?thesis
    using held_call [OF s2(1) retry(1) s2(2) retry(4)] retry(3) by (simp add: Let_def)
qed

end

end
