(* ===== verification/IdempotencyProps.thy ===== *)
theory IdempotencyProps imports IdempotencyMiddleware begin

text \<open>
  The properties of the idempotency middleware on the SQL store: a retry is answered without
  running the application, requests that conflict are refused, a failed request can be retried,
  an oversized body passes through unchanged, the fingerprint binds method, path and body. The
  last theorem shows what a request that finishes after its claim expired does.
\<close>

section \<open>UTF-8 and the fingerprint\<close>

lemma char_of_eqD:
  assumes "char_of (m :: nat) = (char_of n :: char)" "m < 256" "n < 256"
  shows "m = n"
proof -
  have "(of_char (char_of m :: char) :: nat) = of_char (char_of n :: char)" using assms(1) by simp
  then show ?thesis using assms(2,3) by (simp only: of_char_of) simp
qed

text \<open>The code of a character is not a proper prefix of another's.\<close>

lemma utf8_char_prefix:
  assumes "utf8_char c @ s = utf8_char d @ t"
  shows "c = d \<and> s = t"
proof -
  let ?m = "of_char c :: nat" and ?n = "of_char d :: nat"
  have bounds: "?m < 256" "?n < 256" by simp_all
  have lead: "192 + n div 64 < 256" "128 \<le> 192 + n div 64" "128 + n mod 64 < 256" if "n < 256" for n :: nat
    using that by linarith+
  consider "?m < 128" "?n < 128" | "?m < 128" "\<not> ?n < 128" | "\<not> ?m < 128" "?n < 128" | "\<not> ?m < 128" "\<not> ?n < 128"
    by blast
  then show ?thesis
  proof cases
    case 1
    then show ?thesis using assms by (simp add: utf8_char_def Let_def)
  next
    case 2
    then have "c = char_of (192 + ?n div 64)" using assms by (simp add: utf8_char_def Let_def)
    then have "?m = 192 + ?n div 64" using lead(1) [OF bounds(2)] by simp
    then show ?thesis using 2 by linarith
  next
    case 3
    then have "d = char_of (192 + ?m div 64)" using assms by (simp add: utf8_char_def Let_def)
    then have "?n = 192 + ?m div 64" using lead(1) [OF bounds(1)] by simp
    then show ?thesis using 3 by linarith
  next
    case 4
    then have eq: "char_of (192 + ?m div 64) = (char_of (192 + ?n div 64) :: char)"
      "char_of (128 + ?m mod 64) = (char_of (128 + ?n mod 64) :: char)" "s = t"
      using assms by (simp_all add: utf8_char_def Let_def)
    have "?m div 64 = ?n div 64" "?m mod 64 = ?n mod 64"
      using char_of_eqD [OF eq(1)] char_of_eqD [OF eq(2)] lead [OF bounds(1)] lead [OF bounds(2)] by simp_all
    then have "?m = ?n" by (metis div_mult_mod_eq)
    then show ?thesis using eq(3) by simp
  qed
qed

lemma utf8_inject: "utf8 s = utf8 t \<Longrightarrow> s = t"
proof (induction s arbitrary: t)
  case Nil
  then show ?case by (cases t) (auto simp: utf8_def utf8_char_def Let_def split: if_splits)
next
  case (Cons c s)
  show ?case
  proof (cases t)
    case Nil
    then show ?thesis using Cons by (auto simp: utf8_def utf8_char_def Let_def split: if_splits)
  next
    case (Cons d u)
    then have "utf8_char c @ utf8 s = utf8_char d @ utf8 u" using Cons.prems by (simp add: utf8_def)
    then have "c = d" "utf8 s = utf8 u" using utf8_char_prefix by blast+
    then show ?thesis using Cons Cons.IH by simp
  qed
qed

lemma high_byte_not_newline: "128 \<le> k \<Longrightarrow> k < 256 \<Longrightarrow> char_of (k :: nat) \<noteq> CHR 0x0A"
proof
  assume k: "128 \<le> k" "k < 256" and eq: "char_of k = CHR 0x0A"
  from eq have "(of_char (char_of k :: char) :: nat) = of_char (CHR 0x0A)" by (rule arg_cong)
  then have "k mod 256 = 10" by (simp only: of_char_of) simp
  then show False using k by (simp only: mod_less)
qed

lemma utf8_char_newline:
  assumes "c \<noteq> CHR 0x0A"
  shows "CHR 0x0A \<notin> set (utf8_char c)"
proof (cases "(of_char c :: nat) < 128")
  case True
  then show ?thesis using assms by (simp add: utf8_char_def)
next
  case False
  have "192 + (of_char c :: nat) div 64 < 256" "128 + (of_char c :: nat) mod 64 < 256"
    using nat_of_char_less_256 [of c] by linarith+
  then have "char_of (192 + (of_char c :: nat) div 64) \<noteq> CHR 0x0A" "char_of (128 + (of_char c :: nat) mod 64) \<noteq> CHR 0x0A"
    by (intro high_byte_not_newline; simp)+
  then show ?thesis using False by (auto simp: utf8_char_def Let_def)
qed

lemma utf8_newline: "CHR 0x0A \<notin> set s \<Longrightarrow> CHR 0x0A \<notin> set (utf8 s)"
proof (induction s)
  case (Cons c s)
  then have "CHR 0x0A \<notin> set (utf8_char c)" by (intro utf8_char_newline) auto
  then show ?case using Cons by (simp add: utf8_def)
qed (simp add: utf8_def)

lemma fingerprint_input_inject:
  assumes "fingerprint_input sc b = fingerprint_input sc' b'"
    "sc_method sc \<in> set MUTATING" "sc_method sc' \<in> set MUTATING"
    "CHR 0x0A \<notin> set (sc_path sc)" "CHR 0x0A \<notin> set (sc_path sc')"
  shows "sc_method sc = sc_method sc' \<and> sc_path sc = sc_path sc' \<and> b = b'"
proof -
  have blank: "CHR '' '' \<notin> set m" if "m \<in> set MUTATING" for m :: string
    using that by (auto simp: MUTATING_def)
  have eq: "sc_method sc @ CHR '' '' # utf8 (sc_path sc) @ CHR 0x0A # b
      = sc_method sc' @ CHR '' '' # utf8 (sc_path sc') @ CHR 0x0A # b'"
    using assms(1) by (simp add: fingerprint_input_def)
  note one = split_at_inject [OF blank [OF assms(2)] blank [OF assms(3)] eq]
  moreover have "utf8 (sc_path sc) = utf8 (sc_path sc') \<and> b = b'"
    using split_at_inject [OF utf8_newline [OF assms(4)] utf8_newline [OF assms(5)]] one by blast
  ultimately show ?thesis using utf8_inject by blast
qed

section \<open>Late completion, over any store\<close>

context idempotency_port
begin

lemma owned_entry:
  assumes "ok s" "p_claim store i now k sc h ttl s = (r, s')" "cl_outcome r = Owned"
  shows "ok s' \<and> entries s' (sc, k) = Some (now + seconds ttl, h, None)"
proof (cases "live now (entries s) (sc, k)")
  case True
  then obtain e where "entries s (sc, k) = Some e" "now < fst e"
    by (auto simp: live_def split: option.splits prod.splits)
  then have "r = answer h e" using claim_held [OF assms(1)] assms(2) by simp
  then show ?thesis using assms(3) by (auto simp: answer_def split: prod.splits if_splits option.splits)
next
  case False
  then show ?thesis using claim_free [OF assms(1) False, of i h ttl] assms(2) by auto
qed

lemma late_complete:
  assumes "ok s" "p_claim store i1 t1 k sc h1 ttl s = (r1, s1)" "cl_outcome r1 = Owned"
    "t1 + seconds ttl \<le> t2" "p_claim store i2 t2 k sc h2 ttl s1 = (r2, s2)" "t3 < t2 + seconds ttl"
  shows "cl_outcome r2 = Owned
    \<and> fst (p_claim store i3 t3 k sc h2 ttl (p_complete store k sc st hs b s2))
      = \<lparr>cl_outcome = Replay, cl_cached = Some \<lparr>cr_status = st, cr_headers = stored_headers hs, cr_body = b\<rparr>\<rparr>"
proof -
  have s1: "ok s1" "entries s1 (sc, k) = Some (t1 + seconds ttl, h1, None)"
    using owned_entry [OF assms(1-3)] by simp_all
  then have "\<not> live t2 (entries s1) (sc, k)" using assms(4) by (simp add: live_def)
  then have r2: "cl_outcome r2 = Owned" using claim_free [OF s1(1), of t2 sc k i2 h2 ttl] assms(5) by auto
  then have s2: "ok s2" "entries s2 (sc, k) = Some (t2 + seconds ttl, h2, None)"
    using owned_entry [OF s1(1) assms(5)] by simp_all
  let ?s3 = "p_complete store k sc st hs b s2"
  have "entries ?s3 (sc, k) = Some (t2 + seconds ttl, h2,
      Some \<lparr>cr_status = st, cr_headers = stored_headers hs, cr_body = b\<rparr>)"
    using complete_entries [OF s2(1)] s2(2) by simp
  from claim_held [OF complete_ok [OF s2(1)] this] show ?thesis
    using r2 assms(6) by (simp add: answer_def)
qed

end

section \<open>Properties\<close>

text \<open>C16. A retry is answered from the store. Once a request that was granted its key got a final answer, every request of
  the same caller with the same key and fingerprint that arrives before the claim expires gets that answer (less cookies and
  the headers of one connection, plus the replay mark), and the application and the store are left as they are. Between the two other
  requests may claim and release any key, this one too, complete any other, and the purge may run; only a run of an
  earlier claim on this key, expired since, must not complete late.\<close>

theorem retry_is_replayed:
  assumes "rows_ok s" "claims_key cfg scope rcv key body msgs"
    and "\<not> live now (row_entries s) (caller_scope sha scope, key)"
    and "app scope (replayer msgs) w = (sent, ending, w1)" "final (max_body_bytes cfg) sent ending"
    and "idempotency_call sql_store app sha cfg i now scope rcv s w = Some (out, s1, w1')"
    and "other_traffic sql_store (caller_scope sha scope, key) (now + seconds (ttl_seconds cfg)) s1 s2"
    and "claims_key cfg scope' rcv' key body' msgs'" "caller_scope sha scope' = caller_scope sha scope"
      "fingerprint sha scope' body' = fingerprint sha scope body" "now' < now + seconds (ttl_seconds cfg)"
  shows "idempotency_call sql_store app sha cfg i' now' scope' rcv' s2 w2
    = Some ((let c = capture (max_body_bytes cfg) sent
             in [response_start (rc_status c) (filter (\<lambda>(n, v). lower n \<notin> {''set-cookie'', ''connection'', ''keep-alive'',
                    ''transfer-encoding'', ''upgrade'', ''te'', ''trailers'', ''proxy-authenticate'', ''proxy-authorization''})
                    (rc_headers c) @ [(''idempotent-replayed'', ''true'')]),
                 response_body (rc_body c)], Returned), s2, w2)"
  unfolding sql.retry_replays [OF assms]
  by (simp add: kept_response_def Let_def send_response_def stored_headers_def EXCLUDED_HEADERS_def)

text \<open>The concrete setting of the witnesses: an application that counts its runs.\<close>

definition pay_request :: http_scope where
  "pay_request = \<lparr>sc_type = ''http'', sc_method = ''POST'', sc_path = ''/pay'',
    sc_headers = [(''idempotency-key'', ''k1''), (''authorization'', ''Bearer a'')], sc_client = None\<rparr>"

fun pay_body :: "nat \<Rightarrow> request_msg" where
  "pay_body i = (if i = 0 then http_request ''ab'' True else http_request ''cd'' False)"

definition counting_app :: "int \<Rightarrow> nat asgi_app" where
  "counting_app st scope rcv n =
    ([response_start st [(''set-cookie'', ''s''), (''etag'', ''x'')], response_body (nat_str n)], Returned, Suc n)"

definition small_cfg :: idem_config where
  "small_cfg = \<lparr>ttl_seconds = 60, max_body_bytes = 10\<rparr>"

lemma pay_claims: "claims_key small_cfg pay_request pay_body ''k1'' ''abcd''
    [http_request ''ab'' True, http_request ''cd'' False]"
  by (simp add: claims_key_def pay_request_def MUTATING_def header_value_def buffer_body_def small_cfg_def
      buffer_loop.simps)

lemma nat_str_0 [simp]: "nat_str 0 = ''0''"
  by (simp add: nat_str.simps digit_char_def)

lemma counting_final: "st < 500 \<Longrightarrow> final 10 [response_start st hs, response_body ''0''] Returned"
  by (simp add: final_def capture_def capture_init_def)

lemma retry_is_replayed_witness:
  "idempotency_call sql_store (counting_app 201) (\<lambda>b. b) small_cfg ''r2'' 5 pay_request pay_body
     (fst (snd (the (idempotency_call sql_store (counting_app 201) (\<lambda>b. b) small_cfg ''r1'' 0
        pay_request pay_body [] 0)))) 7
   = Some (([response_start 201 [(''etag'', ''x''), (''idempotent-replayed'', ''true'')], response_body ''0''], Returned),
       fst (snd (the (idempotency_call sql_store (counting_app 201) (\<lambda>b. b) small_cfg ''r1'' 0
        pay_request pay_body [] 0))), 7)"
proof -
  let ?app = "counting_app 201"
  have app: "?app pay_request rcv 0 = ([response_start 201 [(''set-cookie'', ''s''), (''etag'', ''x'')],
      response_body ''0''], Returned, Suc 0)" for rcv
    by (simp add: counting_app_def)
  have fin: "final (max_body_bytes small_cfg) [response_start 201 [(''set-cookie'', ''s''), (''etag'', ''x'')],
      response_body ''0''] Returned"
    using counting_final by (simp add: small_cfg_def)
  have empty: "rows_ok []" "\<not> live 0 (row_entries []) (caller_scope (\<lambda>b. b) pay_request, ''k1'')"
    by (simp_all add: rows_ok_def live_def row_entries_def)
  obtain s1 w1 out where first: "idempotency_call sql_store ?app (\<lambda>b. b) small_cfg ''r1'' 0 pay_request pay_body [] 0
      = Some (out, s1, w1)"
    using sql.owned_call [where app = ?app and i = "''r1''", OF empty(1) pay_claims empty(2) app]
    by (elim exE conjE) (rule that)
  have "idempotency_call sql_store ?app (\<lambda>b. b) small_cfg ''r2'' 5 pay_request pay_body s1 7
    = Some (([response_start 201 [(''etag'', ''x''), (''idempotent-replayed'', ''true'')], response_body ''0''], Returned), s1, 7)"
    using retry_is_replayed [OF empty(1) pay_claims empty(2) app fin first other_traffic.idle pay_claims, of 5 "''r2''" 7]
    by (simp add: small_cfg_def seconds_def capture_def capture_init_def lower_def lower_char_def)
  then show ?thesis using first by simp
qed

text \<open>C38. While a claim is live, a request with the same key and another fingerprint is answered 422,
  and one with the same fingerprint whose first run has not finished 409; neither runs the
  application or touches the store.\<close>

theorem conflicting_request_refused:
  assumes "rows_ok s" "claims_key cfg scope rcv key body msgs"
    "row_entries s (caller_scope sha scope, key) = Some (t, h, c)" "now < t"
    "h \<noteq> fingerprint sha scope body \<or> c = None"
  shows "idempotency_call sql_store app sha cfg i now scope rcv s w
    = Some ((if h \<noteq> fingerprint sha scope body then send_json 422 MISMATCH_DETAIL
             else send_json 409 IN_PROGRESS_DETAIL, Returned), s, w)"
  using sql.held_call [OF assms(1-4)] assms(5) by auto

definition running_row :: idem_row where
  "running_row = \<lparr>ik_id = ''r1'', ik_scope = ''Bearer a'', ik_key = ''k1'', ik_hash = ''h'', ik_status = IN_PROGRESS,
    ik_resp_status = None, ik_resp_headers = None, ik_resp_body = None, ik_expires = 60\<rparr>"

lemma pay_caller: "caller_scope (\<lambda>b. b) pay_request = ''Bearer a''"
  by (simp add: caller_scope_def caller_credential_def header_value_def pay_request_def or_str_def
      utf8_def utf8_char_def)

lemma conflicting_request_refused_witness:
  "idempotency_call sql_store (counting_app 201) (\<lambda>b. b) small_cfg ''r2'' 5 pay_request pay_body [running_row] 7
    = Some ((send_json 422 MISMATCH_DETAIL, Returned), [running_row], 7)"
proof -
  have "''h'' \<noteq> fingerprint (\<lambda>b. b) pay_request ''abcd''"
    by (simp add: fingerprint_def fingerprint_input_def pay_request_def)
  then show ?thesis
    using conflicting_request_refused [OF _ pay_claims, of "[running_row]" "\<lambda>b. b" 60 "''h''" None 5
        "counting_app 201" "''r2''" 7]
    by (simp add: pay_caller rows_ok_def running_row_def unique_on_def row_entries_def entry_of_def idem_key_def)
qed

text \<open>A request that fails can be retried at once: when the application raised, or answered 500 or
  above, or too much, nothing of the claim is left, no other claim has changed, and the next
  request with the key, whatever it carries, runs the application.\<close>

theorem failed_request_can_be_retried:
  assumes "rows_ok s" "claims_key cfg scope rcv key body msgs"
    and "\<not> live now (row_entries s) (caller_scope sha scope, key)"
    and app: "app scope (replayer msgs) w = (sent, ending, w1)" "\<not> final (max_body_bytes cfg) sent ending" "ending \<noteq> Cancelled"
    and first: "idempotency_call sql_store app sha cfg i now scope rcv s w = Some (out, s1, w')"
    and again: "claims_key cfg scope' rcv' key body' msgs'" "caller_scope sha scope' = caller_scope sha scope"
      "app scope' (replayer msgs') w2 = (sent', ending', w3)"
  shows "row_entries s1 = (row_entries s)((caller_scope sha scope, key) := None)
    \<and> (\<exists>s2. idempotency_call sql_store app sha cfg i' now' scope' rcv' s1 w2 = Some ((sent', ending'), s2, w3))"
proof -
  from sql.owned_call [where app = app and i = i, OF assms(1-3) app(1)] first app(2,3)
  have s1: "rows_ok s1" "\<forall>p. p \<noteq> (caller_scope sha scope, key) \<longrightarrow> row_entries s1 p = row_entries s p"
    "row_entries s1 (caller_scope sha scope, key) = None"
    by (auto split: if_splits)
  have "row_entries s1 = (row_entries s)((caller_scope sha scope, key) := None)"
    using s1(2,3) by (auto simp: fun_eq_iff)
  moreover have "\<not> live now' (row_entries s1) (caller_scope sha scope', key)"
    using s1(3) again(2) by (simp add: live_def)
  then have "\<exists>s2. idempotency_call sql_store app sha cfg i' now' scope' rcv' s1 w2 = Some ((sent', ending'), s2, w3)"
    using sql.owned_call [where app = app and i = i', OF s1(1) again(1) _ again(3)] by blast
  ultimately show ?thesis by blast
qed

lemma failed_request_can_be_retried_witness:
  "\<exists>s2. idempotency_call sql_store (counting_app 503) (\<lambda>b. b) small_cfg ''r2'' 1 pay_request pay_body
     (fst (snd (the (idempotency_call sql_store (counting_app 503) (\<lambda>b. b) small_cfg ''r1'' 0
        pay_request pay_body [] 0)))) 1
    = Some (([response_start 503 [(''set-cookie'', ''s''), (''etag'', ''x'')], response_body (nat_str 1)], Returned), s2, 2)"
proof -
  let ?app = "counting_app 503"
  have app: "?app pay_request rcv n = ([response_start 503 [(''set-cookie'', ''s''), (''etag'', ''x'')],
      response_body (nat_str n)], Returned, Suc n)" for rcv n
    by (simp add: counting_app_def)
  have empty: "rows_ok []" "\<not> live 0 (row_entries []) (caller_scope (\<lambda>b. b) pay_request, ''k1'')"
    by (simp_all add: rows_ok_def live_def row_entries_def)
  obtain s1 w1 out where first: "idempotency_call sql_store ?app (\<lambda>b. b) small_cfg ''r1'' 0 pay_request pay_body [] 0
      = Some (out, s1, w1)"
    using sql.owned_call [where app = ?app and i = "''r1''", OF empty(1) pay_claims empty(2) app [of _ 0]]
    by (elim exE conjE) (rule that)
  have "\<not> final (max_body_bytes small_cfg) [response_start 503 [(''set-cookie'', ''s''), (''etag'', ''x'')],
      response_body (nat_str 0)] Returned"
    by (simp add: final_def capture_def capture_init_def)
  from failed_request_can_be_retried [OF empty(1) pay_claims empty(2) app this _ first pay_claims refl app,
      of "''r2''" 1 1]
  show ?thesis using first by (simp add: numeral_2_eq_2)
qed

text \<open>A body over the cap passes through: the application gets exactly the messages the client
  sends, the buffered ones first, and neither a claim nor any other change is made.\<close>

theorem oversized_body_passes_through:
  assumes "buffer_body rcv (max_body_bytes cfg) = Some (body, msgs, True)"
  shows "idempotency_call store app sha cfg i now scope rcv s w
    = Some (case app scope rcv w of (sent, ending, w') \<Rightarrow> ((sent, ending), s, w'))"
proof -
  obtain n where "msgs = map rcv [0..<n]" using buffer_body_result [OF assms] by blast
  then have "chain_replayer msgs rcv = rcv" by (simp add: chain_replayer_same)
  then show ?thesis using assms by (simp add: idempotency_call_def Let_def split: option.split)
qed

lemma oversized_body_passes_through_witness:
  "idempotency_call sql_store (counting_app 201) (\<lambda>b. b) (small_cfg\<lparr>max_body_bytes := 3\<rparr>) ''r1'' 0 pay_request pay_body [] 4
    = Some (([response_start 201 [(''set-cookie'', ''s''), (''etag'', ''x'')], response_body (nat_str 4)], Returned), [], 5)"
  by (subst oversized_body_passes_through [of pay_body _ "''abcd''" "[http_request ''ab'' True, http_request ''cd'' False]"])
    (simp_all add: buffer_body_def buffer_loop.simps counting_app_def)

text \<open>Buffering ends, and returns the messages up to the one that ends the body or exceeds the cap,
  with their concatenated bodies, whenever the client ends its body or keeps sending bytes.\<close>

theorem request_is_buffered:
  assumes "last_msg (rcv k) \<or> (\<forall>j. part (rcv j) \<noteq> [])"
  shows "\<exists>n > 0. buffer_body rcv m = Some (concat (map (part \<circ> rcv) [0..<n]), map rcv [0..<n],
      m < length (concat (map (part \<circ> rcv) [0..<n])))"
proof -
  obtain r where "buffer_loop m rcv 0 [] [] = Some r"
    using assms buffer_loop_ends [of rcv 0 k m "[]" "[]"] buffer_loop_full [of rcv m 0 "[]" "[]"] by fastforce
  then show ?thesis using buffer_loop_result [of m rcv 0 "[]" "[]" r] by (auto simp: buffer_body_def)
qed

lemma request_is_buffered_witness:
  "\<exists>n > 0. buffer_body pay_body 10 = Some (concat (map (part \<circ> pay_body) [0..<n]), map pay_body [0..<n],
      10 < length (concat (map (part \<circ> pay_body) [0..<n])))"
  by (rule request_is_buffered [of _ 1]) simp

text \<open>The fingerprint binds the request: on the mutating methods and paths without a newline, two
  requests with one fingerprint have the same method, path and body, or SHA-256 has a collision.\<close>

theorem fingerprint_binds_request:
  assumes "fingerprint sha sc b = fingerprint sha sc' b'"
    "sc_method sc \<in> set MUTATING" "sc_method sc' \<in> set MUTATING"
    "CHR 0x0A \<notin> set (sc_path sc)" "CHR 0x0A \<notin> set (sc_path sc')"
  shows "sc_method sc = sc_method sc' \<and> sc_path sc = sc_path sc' \<and> b = b'
    \<or> (\<exists>x y. x \<noteq> y \<and> sha x = sha y)"
  using assms fingerprint_input_inject unfolding fingerprint_def by blast

lemma fingerprint_binds_request_witness:
  "\<exists>x y. x \<noteq> y \<and> (\<lambda>b. ''0'' :: string) x = (\<lambda>b. ''0'') (y :: bytes)"
  using fingerprint_binds_request [of "\<lambda>b. ''0''" pay_request "''a''" pay_request "''b''"]
  by (simp add: fingerprint_def pay_request_def MUTATING_def)

text \<open>A request that finishes after its claim expired answers for another: when the key was
  meanwhile claimed again for a different request, the late completion is stored on the new claim,
  and a retry of the new request gets the response of the old one.\<close>

theorem late_completion_answers_other_request:
  assumes "rows_ok s" "claim i1 t1 key scope h1 ttl s = (r1, s1)" "cl_outcome r1 = Owned"
    "t1 + seconds ttl \<le> t2" "claim i2 t2 key scope h2 ttl s1 = (r2, s2)" "t3 < t2 + seconds ttl"
  shows "cl_outcome r2 = Owned \<and> fst (claim i3 t3 key scope h2 ttl (complete key scope st hs body s2))
    = \<lparr>cl_outcome = Replay, cl_cached = Some \<lparr>cr_status = st, cr_headers = stored_headers hs, cr_body = body\<rparr>\<rparr>"
  using sql.late_complete [of s i1 t1 key scope h1 ttl r1 s1 t2 i2 h2 r2 s2 t3 i3 st hs body] assms
  by (simp add: sql_store_def)

lemma late_completion_answers_other_request_witness:
  "fst (claim ''c'' 61000000 ''k'' ''u'' ''h2'' 60 (complete ''k'' ''u'' 201 [] ''old''
      (snd (claim ''b'' 60000000 ''k'' ''u'' ''h2'' 60 (snd (claim ''a'' 0 ''k'' ''u'' ''h1'' 60 []))))))
    = \<lparr>cl_outcome = Replay, cl_cached = Some \<lparr>cr_status = 201, cr_headers = [], cr_body = ''old''\<rparr>\<rparr>"
proof -
  have "cl_outcome (fst (claim ''a'' 0 ''k'' ''u'' ''h1'' 60 [])) = Owned"
    by (simp add: claim_def claim_insert_def insert_unique_def)
  from late_completion_answers_other_request [OF _ prod.collapse [symmetric] this _ prod.collapse [symmetric],
      of 60000000 61000000 "''b''" "''h2''" "''c''" 201 "[]" "''old''"]
  show ?thesis by (simp add: rows_ok_def seconds_def stored_headers_def)
qed

end
