(* ===== verification/IdempotencyConc.thy ===== *)
theory IdempotencyConc imports Idempotency begin

text \<open>
  Concurrent requests on one idempotency store. Each statement of the store is a step: the INSERT of
  a claim, the inspection of the row that beat it, the completion, the release, the purge; any
  number of requests take them in any order, with clock readings that may be old by the time they
  are used. The hypothesis on time is that a request finishes before its claim expires: the clock
  moves only to instants before the expiry of every running request.
\<close>

record handler =
  h_scope :: string
  h_key :: string
  h_expires :: datetime

record idem_world =
  clock :: datetime
  idem_rows :: "idem_row list"
  running :: "handler list"

definition handler_key :: "handler \<Rightarrow> string \<times> string" where
  "handler_key r = (h_scope r, h_key r)"

inductive idem_step :: "idem_world \<Rightarrow> idem_world \<Rightarrow> bool" where
  tick: "clock w \<le> t \<Longrightarrow> (\<forall>r \<in> set (running w). t < h_expires r) \<Longrightarrow> idem_step w (w\<lparr>clock := t\<rparr>)"
| won: "now \<le> clock w \<Longrightarrow> clock w < now + seconds ttl \<Longrightarrow>
    claim_insert i now k sc h ttl (idem_rows w) = Some rows' \<Longrightarrow>
    idem_step w (w\<lparr>idem_rows := rows', running := \<lparr>h_scope = sc, h_key = k, h_expires = now + seconds ttl\<rparr> # running w\<rparr>)"
| lost: "now \<le> clock w \<Longrightarrow> clock w < now + seconds ttl \<Longrightarrow>
    claim_inspect now k sc h ttl (idem_rows w) = (res, rows') \<Longrightarrow>
    idem_step w (w\<lparr>idem_rows := rows', running := (if cl_outcome res = Owned
       then \<lparr>h_scope = sc, h_key = k, h_expires = now + seconds ttl\<rparr> # running w else running w)\<rparr>)"
| completed: "running w = xs @ r # ys \<Longrightarrow>
    idem_step w (w\<lparr>idem_rows := complete (h_key r) (h_scope r) st hs b (idem_rows w), running := xs @ ys\<rparr>)"
| released: "running w = xs @ r # ys \<Longrightarrow>
    idem_step w (w\<lparr>idem_rows := release (h_key r) (h_scope r) (idem_rows w), running := xs @ ys\<rparr>)"
| cancelled: "running w = xs @ r # ys \<Longrightarrow> idem_step w (w\<lparr>running := xs @ ys\<rparr>)"
| purged: "now \<le> clock w \<Longrightarrow> idem_step w (w\<lparr>idem_rows := snd (purge_expired now (idem_rows w))\<rparr>)"

inductive idem_reachable :: "idem_world \<Rightarrow> bool" where
  initial: "idem_reachable \<lparr>clock = t, idem_rows = [], running = []\<rparr>"
| stepped: "idem_reachable w \<Longrightarrow> idem_step w w' \<Longrightarrow> idem_reachable w'"

definition world_ok :: "idem_world \<Rightarrow> bool" where
  "world_ok w \<longleftrightarrow> rows_ok (idem_rows w) \<and> distinct (map handler_key (running w))
     \<and> (\<forall>r \<in> set (running w). clock w < h_expires r
          \<and> (\<exists>h. row_entries (idem_rows w) (handler_key r) = Some (h_expires r, h, None)))"

text \<open>Either way of being granted a claim: the key was not live, and now it is claimed.\<close>

lemma insert_grants:
  assumes "rows_ok rows" "claim_insert i now k sc h ttl rows = Some rows'"
  shows "rows_ok rows' \<and> row_entries rows (sc, k) = None
    \<and> row_entries rows' = (row_entries rows)((sc, k) \<mapsto> (now + seconds ttl, h, None))"
proof -
  have "lookup_by idem_key (sc, k) rows = None"
    using assms(2) by (simp add: claim_insert_def insert_unique_Some lookup_by_None idem_key_def)
  with claim_inserts [OF assms(1) this, of i now h ttl] assms(2) show ?thesis
    by (auto simp: claim_def row_entries_def)
qed

lemma inspect_grants:
  assumes "rows_ok rows" "claim_inspect now k sc h ttl rows = (res, rows')" "cl_outcome res = Owned"
  shows "rows_ok rows' \<and> (\<exists>e. row_entries rows (sc, k) = Some e \<and> fst e \<le> now)
    \<and> row_entries rows' = (row_entries rows)((sc, k) \<mapsto> (now + seconds ttl, h, None))"
proof (cases "lookup_by idem_key (sc, k) rows")
  case None
  then show ?thesis using assms(2,3) by (auto simp: claim_inspect_def)
next
  case (Some r)
  then have expired: "ik_expires r \<le> now"
    using assms(2,3) by (auto simp: claim_inspect_def split: if_splits)
  obtain rows'' where "claim [] now k sc h ttl rows = (\<lparr>cl_outcome = Owned, cl_cached = None\<rparr>, rows'')" "rows_ok rows''"
    "row_entries rows'' = (row_entries rows)((sc, k) \<mapsto> (now + seconds ttl, h, None))"
    using claim_reclaims [OF assms(1) Some expired] by blast
  moreover have "claim [] now k sc h ttl rows = (res, rows')" using claim_inspects [OF Some] assms(2) by simp
  ultimately show ?thesis using Some expired by (auto simp: row_entries_def entry_of_def)
qed

lemma inspect_other:
  "claim_inspect now k sc h ttl rows = (res, rows') \<Longrightarrow> cl_outcome res \<noteq> Owned \<Longrightarrow> rows' = rows"
  by (auto simp: claim_inspect_def split: option.splits if_splits)

text \<open>A grant for a key that no running request holds.\<close>

lemma grant_ok:
  assumes ok: "world_ok w" and t: "clock w < t" and rows: "rows_ok rows'"
    and free: "\<And>e. row_entries (idem_rows w) (sc, k) = Some e \<Longrightarrow> fst e \<le> clock w"
    and upd: "row_entries rows' = (row_entries (idem_rows w))((sc, k) \<mapsto> (t, h, None))"
  shows "world_ok (w\<lparr>idem_rows := rows', running := \<lparr>h_scope = sc, h_key = k, h_expires = t\<rparr> # running w\<rparr>)"
proof -
  have new: "handler_key r \<noteq> (sc, k)" if r: "r \<in> set (running w)" for r
  proof
    assume "handler_key r = (sc, k)"
    moreover obtain h where "clock w < h_expires r" "row_entries (idem_rows w) (handler_key r) = Some (h_expires r, h, None)"
      using ok r by (auto simp: world_ok_def)
    ultimately show False using free by fastforce
  qed
  have "row_entries rows' (handler_key r) = row_entries (idem_rows w) (handler_key r)"
    if "r \<in> set (running w)" for r
    using new [OF that] upd by simp
  then have old: "clock w < h_expires r \<and> (\<exists>h. row_entries rows' (handler_key r) = Some (h_expires r, h, None))"
    if "r \<in> set (running w)" for r
    using ok that by (simp add: world_ok_def)
  have key: "handler_key \<lparr>h_scope = sc, h_key = k, h_expires = t\<rparr> = (sc, k)" by (simp add: handler_key_def)
  have "distinct (map handler_key (\<lparr>h_scope = sc, h_key = k, h_expires = t\<rparr> # running w))"
    using ok new key by (simp add: world_ok_def) (metis imageE)
  then show ?thesis using t rows old upd key by (simp add: world_ok_def)
qed

text \<open>A running request that ends only touches its own key.\<close>

lemma finish_ok:
  assumes ok: "world_ok w" and run: "running w = xs @ r # ys" and rows: "rows_ok rows'"
    and same: "\<And>p. p \<noteq> handler_key r \<Longrightarrow> row_entries rows' p = row_entries (idem_rows w) p"
  shows "world_ok (w\<lparr>idem_rows := rows', running := xs @ ys\<rparr>)"
proof -
  have other: "handler_key x \<noteq> handler_key r" if "x \<in> set (xs @ ys)" for x
  proof -
    have "handler_key r \<notin> handler_key ` set (xs @ ys)" using ok run by (simp add: world_ok_def image_Un)
    then show ?thesis using that by (metis image_eqI)
  qed
  have "clock w < h_expires x \<and> (\<exists>h. row_entries rows' (handler_key x) = Some (h_expires x, h, None))"
    if x: "x \<in> set (xs @ ys)" for x
  proof -
    have "x \<in> set (running w)" using x run by auto
    then show ?thesis using ok same [OF other [OF x]] by (simp add: world_ok_def)
  qed
  moreover have "distinct (map handler_key (xs @ ys))" using ok run by (simp add: world_ok_def)
  ultimately show ?thesis using rows by (simp add: world_ok_def)
qed

lemma idem_step_ok: "idem_step w w' \<Longrightarrow> world_ok w \<Longrightarrow> world_ok w'"
proof (induction rule: idem_step.induct)
  case (tick w t)
  then show ?case by (simp add: world_ok_def)
next
  case (won now w ttl i k sc h rows')
  then have "rows_ok (idem_rows w)" by (simp add: world_ok_def)
  then show ?case using insert_grants [of "idem_rows w" i now k sc h ttl rows'] won
    by (intro grant_ok) auto
next
  case (lost now w ttl k sc h res rows')
  then have rows: "rows_ok (idem_rows w)" by (simp add: world_ok_def)
  show ?case
  proof (cases "cl_outcome res = Owned")
    case True
    then show ?thesis using inspect_grants [OF rows lost(3)] lost by (auto intro: grant_ok)
  next
    case False
    then show ?thesis using inspect_other [OF lost(3)] lost(4) by simp
  qed
next
  case (completed w xs r ys st hs b)
  then have "rows_ok (idem_rows w)" by (simp add: world_ok_def)
  from complete_rows [OF this, of "h_key r" "h_scope r" st hs b] completed show ?case
    by (intro finish_ok) (auto simp: handler_key_def split: option.splits)
next
  case (released w xs r ys)
  then have "rows_ok (idem_rows w)" by (simp add: world_ok_def)
  from release_rows [OF this, of "h_key r" "h_scope r"] released show ?case
    by (intro finish_ok) (auto simp: handler_key_def split: option.splits)
next
  case (cancelled w xs r ys)
  then have "world_ok (w\<lparr>idem_rows := idem_rows w, running := xs @ ys\<rparr>)"
    by (intro finish_ok) (auto simp: world_ok_def)
  then show ?case by simp
next
  case (purged now w)
  then have "rows_ok (idem_rows w)" by (simp add: world_ok_def)
  then have "row_entries (snd (purge_expired now (idem_rows w)))
      = (\<lambda>p. if live now (row_entries (idem_rows w)) p then row_entries (idem_rows w) p else None)"
    "rows_ok (snd (purge_expired now (idem_rows w)))"
    by (simp_all add: purge_rows) (simp add: purge_expired_def rows_ok_delete)
  then show ?case using purged by (fastforce simp: world_ok_def live_def)
qed

text \<open>C3. At most one request runs per key: whatever statements concurrent requests interleave, no two
  running requests hold the same caller scope and key, as long as each finishes before its claim
  expires.\<close>

theorem one_request_per_key:
  assumes "idem_reachable w"
  shows "distinct (map handler_key (running w))"
proof -
  have "world_ok w"
    using assms
  proof (induction rule: idem_reachable.induct)
    case (initial t)
    then show ?case by (simp add: world_ok_def rows_ok_def)
  next
    case (stepped w w')
    then show ?case by (blast intro: idem_step_ok)
  qed
  then show ?thesis by (simp add: world_ok_def)
qed

text \<open>Two keys claimed at once, on a clock that stands.\<close>

lemma one_request_per_key_witness:
  "distinct (map handler_key [\<lparr>h_scope = ''u'', h_key = ''k2'', h_expires = 60000000\<rparr>,
      \<lparr>h_scope = ''u'', h_key = ''k1'', h_expires = 60000000\<rparr>])"
proof -
  let ?r = "\<lambda>i k. \<lparr>ik_id = i, ik_scope = ''u'', ik_key = k, ik_hash = ''h'', ik_status = IN_PROGRESS,
       ik_resp_status = None, ik_resp_headers = None, ik_resp_body = None, ik_expires = 60000000\<rparr>"
  let ?h = "\<lambda>k. \<lparr>h_scope = ''u'', h_key = k, h_expires = 60000000\<rparr>"
  have "idem_reachable \<lparr>clock = 0, idem_rows = [], running = []\<rparr>" by (rule initial)
  from stepped [OF this won [where now = 0 and ttl = 60 and i = "''1''" and k = "''k1''" and sc = "''u''" and h = "''h''"]]
  have "idem_reachable \<lparr>clock = 0, idem_rows = [?r ''1'' ''k1''], running = [?h ''k1'']\<rparr>"
    by (simp add: claim_insert_def insert_unique_def seconds_def)
  from stepped [OF this won [where now = 0 and ttl = 60 and i = "''2''" and k = "''k2''" and sc = "''u''" and h = "''h''"]]
  have "idem_reachable \<lparr>clock = 0, idem_rows = [?r ''1'' ''k1'', ?r ''2'' ''k2''], running = [?h ''k2'', ?h ''k1'']\<rparr>"
    by (simp add: claim_insert_def insert_unique_def seconds_def idem_key_def)
  from one_request_per_key [OF this] show ?thesis by simp
qed

end
