(* ===== verification/IdempotencyRefine.thy ===== *)
theory IdempotencyRefine imports Idempotency begin

text \<open>
  The idempotency store as an abstract machine: a map from scope and key to a claim, operated on in one step
  each. Any store with the laws of \<open>idempotency_port\<close> answers a sequence of operations as the machine does, and
  the SQL store is one.
\<close>

datatype idem_op =
    Claim uuid datetime string string string int
  | Complete string string int header_list bytes
  | Release string string
  | Purge datetime

fun machine_step :: "idem_op \<Rightarrow> claim_map \<Rightarrow> claim_result option \<times> claim_map" where
  "machine_step (Claim i now k sc h ttl) m =
    (case m (sc, k) of
       Some e \<Rightarrow> if now < fst e then (Some (answer h e), m)
                 else (Some \<lparr>cl_outcome = Owned, cl_cached = None\<rparr>, m((sc, k) \<mapsto> (now + seconds ttl, h, None)))
     | None \<Rightarrow> (Some \<lparr>cl_outcome = Owned, cl_cached = None\<rparr>, m((sc, k) \<mapsto> (now + seconds ttl, h, None))))"
| "machine_step (Complete k sc st hs b) m =
    (None, case m (sc, k) of None \<Rightarrow> m
       | Some (t, h, c) \<Rightarrow> m((sc, k) \<mapsto> (t, h, Some \<lparr>cr_status = st, cr_headers = stored_headers hs, cr_body = b\<rparr>)))"
| "machine_step (Release k sc) m =
    (None, case m (sc, k) of Some (t, h, None) \<Rightarrow> m((sc, k) := None) | _ \<Rightarrow> m)"
| "machine_step (Purge now) m = (None, \<lambda>p. if live now m p then m p else None)"

fun machine_run :: "idem_op list \<Rightarrow> claim_map \<Rightarrow> claim_result option list \<times> claim_map" where
  "machine_run [] m = ([], m)"
| "machine_run (x # xs) m =
    (case machine_step x m of (a, m1) \<Rightarrow> (case machine_run xs m1 of (as, m2) \<Rightarrow> (a # as, m2)))"

fun store_step :: "'s idem_port \<Rightarrow> idem_op \<Rightarrow> 's \<Rightarrow> claim_result option \<times> 's" where
  "store_step store (Claim i now k sc h ttl) s = (case p_claim store i now k sc h ttl s of (r, s') \<Rightarrow> (Some r, s'))"
| "store_step store (Complete k sc st hs b) s = (None, p_complete store k sc st hs b s)"
| "store_step store (Release k sc) s = (None, p_release store k sc s)"
| "store_step store (Purge now) s = (None, snd (p_purge store now s))"

fun store_run :: "'s idem_port \<Rightarrow> idem_op list \<Rightarrow> 's \<Rightarrow> claim_result option list \<times> 's" where
  "store_run store [] s = ([], s)"
| "store_run store (x # xs) s =
    (case store_step store x s of (a, s1) \<Rightarrow> (case store_run store xs s1 of (as, s2) \<Rightarrow> (a # as, s2)))"

context idempotency_port begin

lemma step_refines:
  assumes "ok s" "store_step store x s = (a, s')"
  shows "ok s' \<and> machine_step x (entries s) = (a, entries s')"
proof (cases x)
  case (Claim i now k sc h ttl)
  show ?thesis
  proof (cases "live now (entries s) (sc, k)")
    case True
    then obtain e where e: "entries s (sc, k) = Some e" "now < fst e" by (auto simp: live_def split: option.splits)
    then show ?thesis using assms claim_held [OF assms(1) e] Claim by simp
  next
    case False
    from claim_free [OF assms(1) False, of i h ttl] obtain s1 where
      s1: "p_claim store i now k sc h ttl s = (\<lparr>cl_outcome = Owned, cl_cached = None\<rparr>, s1)" "ok s1"
        "entries s1 = (entries s)((sc, k) \<mapsto> (now + seconds ttl, h, None))" by blast
    then have "a = Some \<lparr>cl_outcome = Owned, cl_cached = None\<rparr>" "s' = s1" using assms(2) Claim by simp_all
    then show ?thesis using s1(2,3) False Claim by (auto simp: live_def split: option.split)
  qed
next
  case Complete
  then show ?thesis using assms complete_ok complete_entries by auto
next
  case Release
  then show ?thesis using assms release_ok release_entries by auto
next
  case Purge
  then show ?thesis using assms purge_ok purge_entries by auto
qed

lemma run_refines:
  "ok s \<Longrightarrow> store_run store xs s = (as, s') \<Longrightarrow> ok s' \<and> machine_run xs (entries s) = (as, entries s')"
proof (induction xs arbitrary: s as s')
  case Nil
  then show ?case by simp
next
  case (Cons x xs)
  obtain a s1 where x: "store_step store x s = (a, s1)" by (cases "store_step store x s")
  obtain bs s2 where xs: "store_run store xs s1 = (bs, s2)" by (cases "store_run store xs s1")
  have "as = a # bs" "s' = s2" using Cons.prems(2) x xs by simp_all
  then show ?case using step_refines [OF Cons.prems(1) x] Cons.IH [OF _ xs] by simp
qed

end

text \<open>C28. The SQL store refines the abstract machine: on any sequence of claims, completions, releases and purges it gives
  the machine's answers, and its rows go on representing the machine's map.\<close>

theorem sql_store_refines_machine:
  assumes "rows_ok rows" "store_run sql_store xs rows = (as, rows')"
  shows "rows_ok rows' \<and> machine_run xs (row_entries rows) = (as, row_entries rows')"
  using sql.run_refines [OF assms] .

lemma sql_store_refines_machine_witness:
  "fst (machine_run [Claim ''a'' 0 ''k'' ''u'' ''h'' 60, Complete ''k'' ''u'' 201 [] ''x'', Claim ''b'' 1 ''k'' ''u'' ''h'' 60]
      (row_entries [])) =
    [Some \<lparr>cl_outcome = Owned, cl_cached = None\<rparr>, None,
     Some \<lparr>cl_outcome = Replay, cl_cached = Some \<lparr>cr_status = 201, cr_headers = [], cr_body = ''x''\<rparr>\<rparr>]"
proof -
  let ?xs = "[Claim ''a'' 0 ''k'' ''u'' ''h'' 60, Complete ''k'' ''u'' 201 [] ''x'', Claim ''b'' 1 ''k'' ''u'' ''h'' 60]"
  have "fst (store_run sql_store ?xs []) =
    [Some \<lparr>cl_outcome = Owned, cl_cached = None\<rparr>, None,
     Some \<lparr>cl_outcome = Replay, cl_cached = Some \<lparr>cr_status = 201, cr_headers = [], cr_body = ''x''\<rparr>\<rparr>]"
    by (simp add: sql_store_def claim_def claim_insert_def claim_inspect_def insert_unique_def complete_def idem_key_def
        seconds_def stored_headers_def cached_of_def)
  moreover have ok: "rows_ok []" by (simp add: rows_ok_def)
  have "machine_run ?xs (row_entries []) = (fst (store_run sql_store ?xs []), row_entries (snd (store_run sql_store ?xs [])))"
    using sql_store_refines_machine [OF ok prod.collapse [symmetric], of ?xs] by (rule conjunct2)
  ultimately show ?thesis by (simp only: fst_conv)
qed

end
