(* ===== verification/RateLimit.thy ===== *)
theory RateLimit imports Complex_Main Prelude begin

text \<open>
  The rate limiter (\<open>app/ratelimit/limiter.py\<close>) and its tiers (\<open>app/ratelimit/tiers.py\<close>): the token
  bucket the Lua script keeps in Redis and the failure counters behind the login lockout. Redis is
  a pair of maps whose entries carry their expiry; its clock is an argument, in seconds. Lua's
  floating point numbers are rationals here. A key whose time is up is absent.
\<close>

section \<open>Tiers\<close>

record rate_tier =
  tier_limit :: int
  window_seconds :: int

definition PLAN_TIERS :: "(string \<times> rate_tier) list" where
  "PLAN_TIERS = [(''free'', \<lparr>tier_limit = 60, window_seconds = 60\<rparr>),
    (''pro'', \<lparr>tier_limit = 600, window_seconds = 60\<rparr>),
    (''enterprise'', \<lparr>tier_limit = 6000, window_seconds = 60\<rparr>)]"

record ratelimit_settings =
  ratelimit_enabled :: bool
  ratelimit_default_limit :: int
  ratelimit_default_window_seconds :: int
  ratelimit_auth_limit :: int
  ratelimit_auth_window_seconds :: int
  ratelimit_lockout_threshold :: int
  ratelimit_lockout_window_seconds :: int
  ratelimit_plan_cache_seconds :: int

definition default_tier :: "ratelimit_settings \<Rightarrow> rate_tier" where
  "default_tier st = \<lparr>tier_limit = ratelimit_default_limit st, window_seconds = ratelimit_default_window_seconds st\<rparr>"

definition auth_tier :: "ratelimit_settings \<Rightarrow> rate_tier" where
  "auth_tier st = \<lparr>tier_limit = ratelimit_auth_limit st, window_seconds = ratelimit_auth_window_seconds st\<rparr>"

definition tier_for_plan :: "ratelimit_settings \<Rightarrow> string option \<Rightarrow> rate_tier" where
  "tier_for_plan st plan = (case plan of None \<Rightarrow> default_tier st
     | Some p \<Rightarrow> (case map_of PLAN_TIERS p of None \<Rightarrow> default_tier st | Some t \<Rightarrow> t))"

section \<open>Redis\<close>

record bucket =
  tokens :: rat
  ts :: rat

record redis_db =
  buckets :: "string \<rightharpoonup> bucket \<times> rat"
  counters :: "string \<rightharpoonup> int \<times> rat"

definition get_live :: "rat \<Rightarrow> (string \<rightharpoonup> 'a \<times> rat) \<Rightarrow> string \<Rightarrow> 'a option" where
  "get_live now m k = (case m k of None \<Rightarrow> None | Some (x, e) \<Rightarrow> if now < e then Some x else None)"

text \<open>\<open>EXPIRE key ttl\<close> after a write: a time to live that is not positive deletes the key.\<close>

definition set_expiring :: "rat \<Rightarrow> rat \<Rightarrow> string \<Rightarrow> 'a \<Rightarrow> (string \<rightharpoonup> 'a \<times> rat) \<Rightarrow> (string \<rightharpoonup> 'a \<times> rat)" where
  "set_expiring now ttl k x m = (if ttl \<le> 0 then m(k := None) else m(k \<mapsto> (x, now + ttl)))"

text \<open>The token bucket script: one atomic decision.\<close>

definition bucket_script :: "rat \<Rightarrow> rat \<Rightarrow> rat \<Rightarrow> rat \<Rightarrow> string \<Rightarrow> redis_db \<Rightarrow> bool \<times> redis_db" where
  "bucket_script rate burst ttl now k db =
    (let b = (case get_live now (buckets db) k of
                None \<Rightarrow> \<lparr>tokens = burst, ts = now\<rparr> | Some b \<Rightarrow> b);
         refilled = min burst (tokens b + max 0 (now - ts b) * rate);
         allowed = (1 \<le> refilled);
         left = (if allowed then refilled - 1 else refilled)
     in (allowed, db\<lparr>buckets := set_expiring now ttl k \<lparr>tokens = left, ts = now\<rparr> (buckets db)\<rparr>))"

text \<open>The counter script: the time to live is set by the first failure and not renewed.\<close>

definition incr_script :: "rat \<Rightarrow> rat \<Rightarrow> string \<Rightarrow> redis_db \<Rightarrow> int \<times> redis_db" where
  "incr_script ttl now k db =
    (case counters db k of
       Some (c, e) \<Rightarrow>
         if now < e then (c + 1, db\<lparr>counters := (counters db)(k \<mapsto> (c + 1, e))\<rparr>)
         else (1, db\<lparr>counters := set_expiring now ttl k 1 (counters db)\<rparr>)
     | None \<Rightarrow> (1, db\<lparr>counters := set_expiring now ttl k 1 (counters db)\<rparr>))"

lemma set_expiring_other [simp]: "k' \<noteq> k \<Longrightarrow> set_expiring now ttl k x m k' = m k'"
  by (simp add: set_expiring_def)

section \<open>The limiter\<close>

text \<open>
  How a call finds Redis: no client (the extra is absent or \<open>REDIS_URL\<close> unset), an error, after which
  the server may or may not have run the command, or working.
\<close>

datatype redis_mode = NoClient | Failing bool | Working

definition via :: "redis_mode \<Rightarrow> 'a \<Rightarrow> (redis_db \<Rightarrow> 'a \<times> redis_db) \<Rightarrow> redis_db \<Rightarrow> 'a \<times> redis_db" where
  "via mode fallback cmd db = (case mode of
     NoClient \<Rightarrow> (fallback, db)
   | Failing executed \<Rightarrow> (fallback, if executed then snd (cmd db) else db)
   | Working \<Rightarrow> cmd db)"

text \<open>A window of zero seconds raises \<open>ZeroDivisionError\<close> inside the \<open>try\<close>: allowed.\<close>

definition hit :: "redis_mode \<Rightarrow> rat \<Rightarrow> string \<Rightarrow> int \<Rightarrow> int \<Rightarrow> redis_db \<Rightarrow> bool \<times> redis_db" where
  "hit mode now k limit window db =
    (if window = 0 then (True, db)
     else via mode True
       (bucket_script (of_int limit / of_int window) (of_int limit) (of_int (window * 2)) now (''ratelimit:'' @ k)) db)"

definition incr_with_ttl :: "redis_mode \<Rightarrow> rat \<Rightarrow> string \<Rightarrow> int \<Rightarrow> redis_db \<Rightarrow> int option \<times> redis_db" where
  "incr_with_ttl mode now full_key window db =
    via mode None (\<lambda>db. case incr_script (of_int window) now full_key db of (c, db') \<Rightarrow> (Some c, db')) db"

definition count_failure :: "redis_mode \<Rightarrow> rat \<Rightarrow> string \<Rightarrow> int \<Rightarrow> redis_db \<Rightarrow> int \<times> redis_db" where
  "count_failure mode now k window db =
    (case incr_with_ttl mode now (''ratelimit:fail:'' @ k) window db of
       (count, db') \<Rightarrow> (case count of Some c \<Rightarrow> c | None \<Rightarrow> 0, db'))"

definition failure_count :: "redis_mode \<Rightarrow> rat \<Rightarrow> string \<Rightarrow> redis_db \<Rightarrow> int" where
  "failure_count mode now k db =
    fst (via mode 0 (\<lambda>db. (case get_live now (counters db) (''ratelimit:fail:'' @ k) of
        None \<Rightarrow> 0 | Some c \<Rightarrow> c, db)) db)"

definition clear_failures :: "redis_mode \<Rightarrow> string \<Rightarrow> redis_db \<Rightarrow> redis_db" where
  "clear_failures mode k db =
    snd (via mode () (\<lambda>db. ((), db\<lparr>counters := (counters db)(''ratelimit:fail:'' @ k := None)\<rparr>)) db)"

section \<open>The bucket\<close>

text \<open>What a bucket would hold at \<open>now\<close> if it never expired; an absent one is full.\<close>

definition level :: "rat \<Rightarrow> rat \<Rightarrow> rat \<Rightarrow> string \<Rightarrow> redis_db \<Rightarrow> rat" where
  "level rate burst now k db = (case buckets db k of None \<Rightarrow> burst
     | Some (b, e) \<Rightarrow> min burst (tokens b + max 0 (now - ts b) * rate))"

text \<open>
  A bucket of this rate and size, last written at or before \<open>now\<close>: its level is between zero and the
  size, and its expiry is so late that it would be full by then.
\<close>

definition bucket_ok :: "rat \<Rightarrow> rat \<Rightarrow> rat \<Rightarrow> string \<Rightarrow> redis_db \<Rightarrow> bool" where
  "bucket_ok rate burst now k db = (case buckets db k of None \<Rightarrow> True
     | Some (b, e) \<Rightarrow> 0 \<le> tokens b \<and> tokens b \<le> burst \<and> ts b \<le> now \<and> burst \<le> (e - ts b) * rate)"

lemma level_bounds: "0 \<le> burst \<Longrightarrow> 0 \<le> rate \<Longrightarrow> bucket_ok rate burst now k db \<Longrightarrow>
    0 \<le> level rate burst now k db \<and> level rate burst now k db \<le> burst"
  by (auto simp: level_def bucket_ok_def split: option.splits)

text \<open>The expiry cannot be observed: the script decides on the level.\<close>

lemma script_level:
  assumes ok: "bucket_ok rate burst now k db" and pos: "0 \<le> rate" "0 \<le> burst"
  shows "bucket_script rate burst ttl now k db =
    (let l = level rate burst now k db in
     (1 \<le> l, db\<lparr>buckets := set_expiring now ttl k
        \<lparr>tokens = (if 1 \<le> l then l - 1 else l), ts = now\<rparr> (buckets db)\<rparr>))"
proof (cases "buckets db k")
  case None
  then show ?thesis by (simp add: bucket_script_def level_def get_live_def Let_def)
next
  case (Some p)
  obtain b e where p: "p = (b, e)" by (cases p)
  show ?thesis
  proof (cases "now < e")
    case True
    then show ?thesis using Some p by (simp add: bucket_script_def level_def get_live_def Let_def)
  next
    case False
    have "(e - ts b) * rate \<le> (now - ts b) * rate" using False pos by (intro mult_right_mono) auto
    moreover have "burst \<le> (e - ts b) * rate" "0 \<le> tokens b" "ts b \<le> now"
      using ok Some p by (auto simp: bucket_ok_def)
    ultimately have "burst \<le> tokens b + max 0 (now - ts b) * rate" by simp
    then show ?thesis using Some p False by (simp add: bucket_script_def level_def get_live_def Let_def)
  qed
qed

lemma level_later:
  assumes "bucket_ok rate burst t k db" "t \<le> t'" "0 \<le> rate"
  shows "level rate burst t' k db \<le> level rate burst t k db + (t' - t) * rate"
proof -
  have pos: "0 \<le> (t' - t) * rate" using assms(2,3) by simp
  show ?thesis
  proof (cases "buckets db k")
    case None
    then show ?thesis using pos by (simp add: level_def)
  next
    case (Some p)
    obtain b e where p: "p = (b, e)" by (cases p)
    have "ts b \<le> t" using assms(1) Some p by (simp add: bucket_ok_def)
    then have "level rate burst t' k db = min burst (tokens b + (t' - ts b) * rate)"
      "level rate burst t k db = min burst (tokens b + (t - ts b) * rate)"
      using Some p assms(2) by (simp_all add: level_def)
    moreover have "(t' - ts b) * rate = (t - ts b) * rate + (t' - t) * rate"
      by (simp add: algebra_simps)
    ultimately show ?thesis using pos by (simp add: min_def)
  qed
qed

lemma bucket_ok_later: "bucket_ok rate burst t k db \<Longrightarrow> t \<le> t' \<Longrightarrow> bucket_ok rate burst t' k db"
  by (auto simp: bucket_ok_def split: option.splits)

text \<open>After a decision the level is what is left, and the bucket is well-formed.\<close>

lemma script_after:
  assumes ok: "bucket_ok rate burst now k db" and pos: "0 \<le> rate" "0 \<le> burst" and ttl: "burst \<le> ttl * rate" "0 < ttl"
    and script: "bucket_script rate burst ttl now k db = (allowed, db')"
  shows "allowed = (1 \<le> level rate burst now k db)
    \<and> level rate burst now k db' = level rate burst now k db - (if allowed then 1 else 0)
    \<and> bucket_ok rate burst now k db'"
  using script level_bounds [OF pos(2,1) ok] ttl unfolding script_level [OF ok pos]
  by (auto simp: Let_def set_expiring_def level_def [of _ _ _ _ "db\<lparr>buckets := _\<rparr>"] bucket_ok_def)

lemma script_other:
  "bucket_script rate burst ttl now k db = (allowed, db') \<Longrightarrow> k' \<noteq> k \<Longrightarrow> buckets db' k' = buckets db k'"
  by (auto simp: bucket_script_def Let_def)

section \<open>Runs of hits\<close>

text \<open>A hit: its key, limit and window, and the clock.\<close>

type_synonym hit_event = "string \<times> int \<times> int \<times> rat"

fun hits_db :: "hit_event list \<Rightarrow> redis_db \<Rightarrow> redis_db" where
  "hits_db [] db = db"
| "hits_db ((k, l, w, t) # es) db = hits_db es (snd (hit Working t k l w db))"

text \<open>How many hits on a key a run allows.\<close>

fun allowed_hits :: "string \<Rightarrow> hit_event list \<Rightarrow> redis_db \<Rightarrow> int" where
  "allowed_hits k [] db = 0"
| "allowed_hits k ((k', l, w, t) # es) db =
    (if k' = k \<and> fst (hit Working t k' l w db) then 1 else 0) + allowed_hits k es (snd (hit Working t k' l w db))"

definition times_from :: "rat \<Rightarrow> hit_event list \<Rightarrow> bool" where
  "times_from t es = sorted (t # map (\<lambda>(k, l, w, t). t) es)"

definition same_budget :: "string \<Rightarrow> int \<Rightarrow> int \<Rightarrow> hit_event list \<Rightarrow> bool" where
  "same_budget k l w es = list_all (\<lambda>(k', l', w', t). k' = k \<longrightarrow> l' = l \<and> w' = w) es"

lemma times_from_Cons [simp]: "times_from t ((k, l, w, t') # es) \<longleftrightarrow> t \<le> t' \<and> times_from t' es"
  by (auto simp: times_from_def)

lemma same_budget_Cons [simp]:
  "same_budget k l w ((k', l', w', t) # es) \<longleftrightarrow> (k' = k \<longrightarrow> l' = l \<and> w' = w) \<and> same_budget k l w es"
  by (simp add: same_budget_def)

abbreviation bucket_key :: "string \<Rightarrow> string" where
  "bucket_key k \<equiv> ''ratelimit:'' @ k"

definition key_ok :: "int \<Rightarrow> int \<Rightarrow> rat \<Rightarrow> string \<Rightarrow> redis_db \<Rightarrow> bool" where
  "key_ok l w t k db = bucket_ok (of_int l / of_int w) (of_int l) t (bucket_key k) db"

definition key_level :: "int \<Rightarrow> int \<Rightarrow> rat \<Rightarrow> string \<Rightarrow> redis_db \<Rightarrow> rat" where
  "key_level l w t k db = level (of_int l / of_int w) (of_int l) t (bucket_key k) db"

lemma hit_same:
  assumes "key_ok l w t k db" "0 \<le> l" "0 < w" "t \<le> t'"
  shows "fst (hit Working t' k l w db) = (1 \<le> key_level l w t' k db)
    \<and> key_level l w t' k (snd (hit Working t' k l w db))
        = key_level l w t' k db - (if fst (hit Working t' k l w db) then 1 else 0)
    \<and> key_ok l w t' k (snd (hit Working t' k l w db))"
proof -
  let ?rate = "of_int l / of_int w :: rat"
  have r: "0 \<le> ?rate" "0 \<le> (of_int l :: rat)" "0 < (of_int (w * 2) :: rat)"
    "(of_int l :: rat) \<le> of_int (w * 2) * ?rate"
    using assms(2,3) by simp_all
  obtain a db' where h: "bucket_script ?rate (of_int l) (of_int (w * 2)) t' (bucket_key k) db = (a, db')"
    by fastforce
  then have "hit Working t' k l w db = (a, db')" using assms(3) by (simp add: hit_def via_def)
  moreover have "bucket_ok ?rate (of_int l) t' (bucket_key k) db"
    using assms(1,4) bucket_ok_later by (auto simp: key_ok_def)
  from script_after [OF this r(1,2,4,3) h] have "a = (1 \<le> key_level l w t' k db)
    \<and> key_level l w t' k db' = key_level l w t' k db - (if a then 1 else 0) \<and> key_ok l w t' k db'"
    by (simp only: key_level_def key_ok_def)
  ultimately show ?thesis by simp
qed

lemma hit_other: "k' \<noteq> k \<Longrightarrow> buckets (snd (hit m t k' l w db)) (bucket_key k) = buckets db (bucket_key k)"
  by (cases m) (auto simp: hit_def via_def bucket_script_def Let_def)

lemma hit_other_ok:
  "k' \<noteq> k \<Longrightarrow> key_ok l w t k (snd (hit m t' k' l' w' db)) = key_ok l w t k db
    \<and> key_level l w t k (snd (hit m t' k' l' w' db)) = key_level l w t k db"
  using hit_other by (simp add: key_ok_def key_level_def bucket_ok_def level_def)

lemma key_ok_later: "key_ok l w t k db \<Longrightarrow> t \<le> t' \<Longrightarrow> key_ok l w t' k db"
  by (simp add: key_ok_def bucket_ok_later)

lemma hits_db_ok:
  "key_ok l w t k db \<Longrightarrow> 0 \<le> l \<Longrightarrow> 0 < w \<Longrightarrow> times_from t es \<Longrightarrow> same_budget k l w es \<Longrightarrow>
    t \<le> t' \<Longrightarrow> list_all (\<lambda>(_, _, _, u). u \<le> t') es \<Longrightarrow> key_ok l w t' k (hits_db es db)"
proof (induction es db arbitrary: t rule: hits_db.induct)
  case (1 db)
  then show ?case using key_ok_later by simp
next
  case (2 k' l' w' u es db)
  have "key_ok l w u k (snd (hit Working u k' l' w' db))"
  proof (cases "k' = k")
    case True
    then show ?thesis using hit_same [of l w t k db u] 2 by simp
  next
    case False
    then show ?thesis using hit_other_ok [OF False] key_ok_later 2 by auto
  qed
  then show ?case using 2 by simp
qed

lemma key_level_later:
  "key_ok l w t k db \<Longrightarrow> t \<le> u \<Longrightarrow> 0 \<le> l \<Longrightarrow> 0 < w \<Longrightarrow>
    key_level l w u k db \<le> key_level l w t k db + (u - t) * (of_int l / of_int w)"
  unfolding key_level_def by (rule level_later) (simp_all add: key_ok_def)

text \<open>The potential argument: what is allowed is paid for by the level and the refill.\<close>

lemma allowed_hits_bound:
  assumes "0 \<le> l" "0 < w"
  shows "key_ok l w t k db \<Longrightarrow> times_from t es \<Longrightarrow> same_budget k l w es \<Longrightarrow> t \<le> t' \<Longrightarrow>
    list_all (\<lambda>(_, _, _, u). u \<le> t') es \<Longrightarrow>
    of_int (allowed_hits k es db) \<le> key_level l w t k db + (t' - t) * (of_int l / of_int w)"
proof (induction es arbitrary: t db)
  case Nil
  have "0 \<le> (t' - t) * (of_int l / of_int w)" using Nil assms by simp
  moreover have "0 \<le> key_level l w t k db"
    using level_bounds Nil assms by (simp add: key_ok_def key_level_def)
  ultimately show ?case by simp
next
  case (Cons e es)
  obtain k' l' w' u where e: "e = (k', l', w', u)" by (cases e)
  let ?db = "snd (hit Working u k' l' w' db)"
  let ?r = "of_int l / of_int w :: rat"
  have tu: "t \<le> u" "u \<le> t'" using Cons.prems e by auto
  have later: "key_level l w u k db \<le> key_level l w t k db + (u - t) * ?r"
    using key_level_later [OF Cons.prems(1) tu(1) assms] .
  have okdb: "key_ok l w u k ?db" and paid: "key_level l w u k ?db
      \<le> key_level l w u k db - (if k' = k \<and> fst (hit Working u k' l' w' db) then 1 else 0)"
  proof -
    show "key_ok l w u k ?db"
      using hits_db_ok [of l w t k db "[e]" u] Cons.prems assms e tu by (simp add: times_from_def same_budget_def)
    show "key_level l w u k ?db
      \<le> key_level l w u k db - (if k' = k \<and> fst (hit Working u k' l' w' db) then 1 else 0)"
    proof (cases "k' = k")
      case True
      then show ?thesis using hit_same [OF Cons.prems(1) assms tu(1)] Cons.prems(3) e by simp
    next
      case False
      then show ?thesis using hit_other_ok [OF False, of l w u Working u l' w' db] by simp
    qed
  qed
  define m :: int where "m = (if k' = k \<and> fst (hit Working u k' l' w' db) then 1 else 0)"
  have "allowed_hits k (e # es) db = m + allowed_hits k es ?db"
    unfolding e allowed_hits.simps m_def ..
  moreover have "key_level l w u k ?db \<le> key_level l w u k db - of_int m"
    using paid unfolding m_def if_distrib [of "of_int :: int \<Rightarrow> rat"] of_int_1 of_int_0 .
  moreover have "of_int (allowed_hits k es ?db) \<le> key_level l w u k ?db + (t' - u) * ?r"
    using Cons.IH [OF okdb] Cons.prems e tu by simp
  ultimately have "of_int (allowed_hits k (e # es) db) \<le> key_level l w u k db + (t' - u) * ?r"
    by simp
  also have "\<dots> \<le> key_level l w t k db + (u - t) * ?r + (t' - u) * ?r" using later by simp
  also have "\<dots> = key_level l w t k db + (t' - t) * ?r" by (simp only: distrib_right [symmetric] add.assoc) simp
  finally show ?case .
qed

section \<open>The interface\<close>

record 's rate_port =
  p_hit :: "rat \<Rightarrow> string \<Rightarrow> int \<Rightarrow> int \<Rightarrow> 's \<Rightarrow> bool \<times> 's"
  p_count_failure :: "rat \<Rightarrow> string \<Rightarrow> int \<Rightarrow> 's \<Rightarrow> int \<times> 's"
  p_failure_count :: "rat \<Rightarrow> string \<Rightarrow> 's \<Rightarrow> int"
  p_clear_failures :: "string \<Rightarrow> 's \<Rightarrow> 's"

definition redis_limiter :: "redis_mode \<Rightarrow> redis_db rate_port" where
  "redis_limiter mode = \<lparr>p_hit = hit mode, p_count_failure = count_failure mode,
     p_failure_count = failure_count mode, p_clear_failures = clear_failures mode\<rparr>"

text \<open>
  What the dependencies rely on for the lockout: a store that works holds, per identity, a count and
  the instant at which it is forgotten, set by its first failure; requests do not touch it.
\<close>

definition live_count :: "rat \<Rightarrow> (int \<times> rat) option \<Rightarrow> int" where
  "live_count now c = (case c of None \<Rightarrow> 0 | Some (n, e) \<Rightarrow> if now < e then n else 0)"

locale rate_limit_port =
  fixes port :: "'s rate_port"
    and failures :: "'s \<Rightarrow> string \<Rightarrow> (int \<times> rat) option"
  assumes hit_failures: "failures (snd (p_hit port now k l w s)) = failures s"
    and count_read: "p_failure_count port now k s = live_count now (failures s k)"
    and count_first: "0 < window \<Longrightarrow> (\<forall>n e. failures s k = Some (n, e) \<longrightarrow> e \<le> now) \<Longrightarrow>
      failures (snd (p_count_failure port now k window s)) = (failures s)(k \<mapsto> (1, now + of_int window))"
    and count_next: "failures s k = Some (n, e) \<Longrightarrow> now < e \<Longrightarrow>
      failures (snd (p_count_failure port now k window s)) = (failures s)(k \<mapsto> (n + 1, e))"
    and clear_count: "failures (p_clear_failures port k s) = (failures s)(k := None)"

abbreviation fail_key :: "string \<Rightarrow> string" where
  "fail_key k \<equiv> ''ratelimit:fail:'' @ k"

definition redis_failures :: "redis_db \<Rightarrow> string \<Rightarrow> (int \<times> rat) option" where
  "redis_failures db k = counters db (fail_key k)"

lemma script_counters: "counters (snd (bucket_script rate burst ttl now k db)) = counters db"
  by (simp add: bucket_script_def Let_def)

interpretation redis: rate_limit_port "redis_limiter Working" redis_failures
proof
  fix now k l w s
  show "redis_failures (snd (p_hit (redis_limiter Working) now k l w s)) = redis_failures s"
    by (simp add: redis_limiter_def hit_def via_def script_counters redis_failures_def fun_eq_iff)
next
  fix now k s
  show "p_failure_count (redis_limiter Working) now k s = live_count now (redis_failures s k)"
    by (simp add: redis_limiter_def failure_count_def via_def get_live_def redis_failures_def live_count_def
        split: option.splits prod.splits)
next
  fix window :: int and s k and now :: rat
  assume "0 < window" "\<forall>n e. redis_failures s k = Some (n, e) \<longrightarrow> e \<le> now"
  then have "incr_script (of_int window) now (fail_key k) s
      = (1, s\<lparr>counters := (counters s)(fail_key k \<mapsto> (1, now + of_int window))\<rparr>)"
    by (auto simp: incr_script_def set_expiring_def redis_failures_def split: option.splits)
  then show "redis_failures (snd (p_count_failure (redis_limiter Working) now k window s))
      = (redis_failures s)(k \<mapsto> (1, now + of_int window))"
    by (simp add: redis_limiter_def count_failure_def incr_with_ttl_def via_def redis_failures_def fun_eq_iff)
next
  fix s k n e window and now :: rat
  assume "redis_failures s k = Some (n, e)" "now < e"
  then have "incr_script (of_int window) now (fail_key k) s
      = (n + 1, s\<lparr>counters := (counters s)(fail_key k \<mapsto> (n + 1, e))\<rparr>)"
    by (simp add: incr_script_def redis_failures_def)
  then show "redis_failures (snd (p_count_failure (redis_limiter Working) now k window s))
      = (redis_failures s)(k \<mapsto> (n + 1, e))"
    by (simp add: redis_limiter_def count_failure_def incr_with_ttl_def via_def redis_failures_def fun_eq_iff)
next
  fix k s
  show "redis_failures (p_clear_failures (redis_limiter Working) k s) = (redis_failures s)(k := None)"
    by (simp add: redis_limiter_def clear_failures_def via_def redis_failures_def fun_eq_iff)
qed

end
