(* ===== verification/Tenancy.thy ===== *)
theory Tenancy imports Prelude begin

text \<open>
  Organizations and memberships (\<open>app/tenancy/models.py.jinja\<close>, \<open>dependencies.py\<close>, \<open>router.py.jinja\<close>
  with RBAC on, without the audit and webhook add-ons) and the role hierarchy
  (\<open>app/rbac/permissions.py\<close>). Every handler takes the id of the authenticated user.
\<close>

section \<open>Tables\<close>

abbreviation "OWNER \<equiv> ''owner''"
abbreviation "ADMIN \<equiv> ''admin''"
abbreviation "MEMBER \<equiv> ''member''"

record organization =
  org_id :: uuid
  org_name :: string
  org_slug :: string
  payments_customer_id :: "string option"

record membership =
  mb_id :: uuid
  mb_org :: uuid
  mb_user :: uuid
  mb_role :: string

text \<open>The tables, and the user ids the foreign key refers to.\<close>

record tenancy_db =
  users :: "uuid list"
  organizations :: "organization list"
  memberships :: "membership list"

definition member_key :: "membership \<Rightarrow> uuid \<times> uuid" where
  "member_key m = (mb_org m, mb_user m)"

section \<open>Roles and scopes\<close>

definition ROLE_RANK :: "(string \<times> int) list" where
  "ROLE_RANK = [(MEMBER, 1), (ADMIN, 2), (OWNER, 3)]"

definition SCOPES_BY_ROLE :: "(string \<times> string list) list" where
  "SCOPES_BY_ROLE =
    [(MEMBER, [''org:read'']),
     (ADMIN, [''org:read'', ''members:write'']),
     (OWNER, [''org:read'', ''members:write'', ''org:admin''])]"

definition role_rank :: "string \<Rightarrow> int" where
  "role_rank r = (case map_of ROLE_RANK r of Some n \<Rightarrow> n | None \<Rightarrow> 0)"

definition has_role :: "membership \<Rightarrow> string \<Rightarrow> bool" where
  "has_role m minimum = (role_rank minimum \<le> role_rank (mb_role m))"

definition role_grants_scope :: "string \<Rightarrow> string \<Rightarrow> bool" where
  "role_grants_scope role scope = (case map_of SCOPES_BY_ROLE role of
     None \<Rightarrow> False | Some ss \<Rightarrow> scope \<in> set ss)"

section \<open>Dependencies\<close>

definition get_current_membership :: "uuid \<Rightarrow> uuid \<Rightarrow> tenancy_db \<Rightarrow> exn + membership" where
  "get_current_membership org user db =
    (case lookup_by member_key (org, user) (memberships db) of
       None \<Rightarrow> Inl (HTTPException 404 ''Organization not found'' [])
     | Some m \<Rightarrow> Inr m)"

definition require_role :: "string \<Rightarrow> uuid \<Rightarrow> uuid \<Rightarrow> tenancy_db \<Rightarrow> exn + membership" where
  "require_role minimum org user db =
    and_then (get_current_membership org user db) (\<lambda>m.
      if \<not> has_role m minimum
      then Inl (HTTPException 403 (''Requires the '' @ [CHR 0x27] @ minimum @ [CHR 0x27] @ '' role or higher'') [])
      else Inr m)"

definition require_scope :: "string \<Rightarrow> uuid \<Rightarrow> uuid \<Rightarrow> tenancy_db \<Rightarrow> exn + membership" where
  "require_scope scope org user db =
    and_then (get_current_membership org user db) (\<lambda>m.
      if \<not> role_grants_scope (mb_role m) scope
      then Inl (HTTPException 403 (''Requires the '' @ [CHR 0x27] @ scope @ [CHR 0x27] @ '' permission'') [])
      else Inr m)"

section \<open>Handlers\<close>

definition create_organization ::
  "uuid \<Rightarrow> uuid \<Rightarrow> string \<Rightarrow> string \<Rightarrow> uuid \<Rightarrow> tenancy_db \<Rightarrow> (exn + organization) \<times> tenancy_db" where
  "create_organization new_org new_mb name slug user db =
    (let o' = \<lparr>org_id = new_org, org_name = name, org_slug = slug, payments_customer_id = None\<rparr>;
         m = \<lparr>mb_id = new_mb, mb_org = new_org, mb_user = user, mb_role = OWNER\<rparr>;
         committed = (if user \<in> set (users db)
           then (case insert_unique org_slug o' (organizations db) of
                   None \<Rightarrow> None
                 | Some os \<Rightarrow> map_option (\<lambda>ms. (os, ms)) (insert_unique member_key m (memberships db)))
           else None)
     in case committed of
          None \<Rightarrow> (Inl (HTTPException 409 ''Organization slug already taken'' []), db)
        | Some (os, ms) \<Rightarrow> (Inr o', db\<lparr>organizations := os, memberships := ms\<rparr>))"

definition list_my_organizations :: "uuid \<Rightarrow> tenancy_db \<Rightarrow> organization list" where
  "list_my_organizations user db =
    filter (\<lambda>o'. (org_id o', user) \<in> member_key ` set (memberships db)) (organizations db)"

definition list_members :: "uuid \<Rightarrow> uuid \<Rightarrow> tenancy_db \<Rightarrow> exn + membership list" where
  "list_members org user db =
    and_then (get_current_membership org user db) (\<lambda>_. Inr (filter (\<lambda>m. mb_org m = org) (memberships db)))"

definition add_member ::
  "uuid \<Rightarrow> uuid \<Rightarrow> uuid \<Rightarrow> string \<Rightarrow> uuid \<Rightarrow> tenancy_db \<Rightarrow> (exn + membership) \<times> tenancy_db" where
  "add_member new_mb org target role caller db =
    (case require_role ADMIN org caller db of
       Inl e \<Rightarrow> (Inl e, db)
     | Inr _ \<Rightarrow>
         (let m = \<lparr>mb_id = new_mb, mb_org = org, mb_user = target, mb_role = role\<rparr>;
              committed = (if target \<in> set (users db) \<and> org \<in> org_id ` set (organizations db)
                then insert_unique member_key m (memberships db) else None)
          in case committed of
               None \<Rightarrow> (Inl (HTTPException 409 ''User is already a member of this organization'' []), db)
             | Some ms \<Rightarrow> (Inr m, db\<lparr>memberships := ms\<rparr>)))"

definition remove_member :: "uuid \<Rightarrow> uuid \<Rightarrow> uuid \<Rightarrow> tenancy_db \<Rightarrow> (exn + unit) \<times> tenancy_db" where
  "remove_member org target caller db =
    (case require_scope ''members:write'' org caller db of
       Inl e \<Rightarrow> (Inl e, db)
     | Inr _ \<Rightarrow>
         (case lookup_by member_key (org, target) (memberships db) of
            None \<Rightarrow> (Inl (HTTPException 404 ''Member not found'' []), db)
          | Some t \<Rightarrow> (Inr (), db\<lparr>memberships := delete_where (\<lambda>m. member_key m = (org, target)) (memberships db)\<rparr>)))"

section \<open>Lemmas\<close>

definition tenancy_ok :: "tenancy_db \<Rightarrow> bool" where
  "tenancy_ok db \<longleftrightarrow> unique_on org_slug (organizations db) \<and> unique_on member_key (memberships db)
     \<and> (\<forall>m \<in> set (memberships db). mb_org m \<in> org_id ` set (organizations db) \<and> mb_user m \<in> set (users db))"

lemma role_rank_cases:
  "role_rank r = (if r = MEMBER then 1 else if r = ADMIN then 2 else if r = OWNER then 3 else 0)"
  by (simp add: role_rank_def ROLE_RANK_def)

lemma role_grants_cases:
  "role_grants_scope r s \<longleftrightarrow> (r = MEMBER \<and> s = ''org:read'')
     \<or> (r = ADMIN \<and> s \<in> {''org:read'', ''members:write''})
     \<or> (r = OWNER \<and> s \<in> {''org:read'', ''members:write'', ''org:admin''})"
  by (auto simp: role_grants_scope_def SCOPES_BY_ROLE_def)

lemma get_membership_Inr:
  "get_current_membership org user db = Inr m \<Longrightarrow> m \<in> set (memberships db) \<and> mb_org m = org \<and> mb_user m = user"
  by (auto simp: get_current_membership_def member_key_def split: option.splits dest: lookup_by_SomeD)

lemma require_role_Inr:
  "require_role minimum org user db = Inr m \<longleftrightarrow> get_current_membership org user db = Inr m \<and> has_role m minimum"
  by (auto simp: require_role_def and_then_Inr split: if_splits)

lemma require_scope_Inr:
  "require_scope sc org user db = Inr m \<longleftrightarrow> get_current_membership org user db = Inr m \<and> role_grants_scope (mb_role m) sc"
  by (auto simp: require_scope_def and_then_Inr split: if_splits)

text \<open>Administrators and owners, in either of the two ways the routes ask.\<close>

definition manager :: "uuid \<Rightarrow> uuid \<Rightarrow> tenancy_db \<Rightarrow> bool" where
  "manager org user db \<longleftrightarrow> (\<exists>m \<in> set (memberships db). mb_org m = org \<and> mb_user m = user \<and> mb_role m \<in> {ADMIN, OWNER})"

lemma require_admin_manager: "require_role ADMIN org user db = Inr m \<Longrightarrow> manager org user db"
  by (auto simp: require_role_Inr manager_def has_role_def role_rank_cases split: if_splits
      dest!: get_membership_Inr)

lemma require_write_manager: "require_scope ''members:write'' org user db = Inr m \<Longrightarrow> manager org user db"
  by (auto simp: require_scope_Inr manager_def role_grants_cases dest!: get_membership_Inr)

lemma create_organization_cases:
  "create_organization no nm name slug user db = (res, db') \<Longrightarrow>
    (\<exists>e. res = Inl e \<and> db' = db) \<or>
    (\<exists>o'. res = Inr o' \<and> org_slug o' = slug \<and> org_id o' = no \<and> user \<in> set (users db)
      \<and> insert_unique org_slug o' (organizations db) = Some (organizations db')
      \<and> insert_unique member_key \<lparr>mb_id = nm, mb_org = no, mb_user = user, mb_role = OWNER\<rparr> (memberships db)
          = Some (memberships db') \<and> users db' = users db)"
  by (auto simp: create_organization_def Let_def split: if_splits option.splits)

lemma create_organization_ok:
  "tenancy_ok db \<Longrightarrow> tenancy_ok (snd (create_organization no nm name slug user db))"
  using create_organization_cases [of no nm name slug user db "fst (create_organization no nm name slug user db)"
      "snd (create_organization no nm name slug user db)"]
  by (auto simp: tenancy_ok_def insert_unique_Some unique_on_def image_iff)

lemma add_member_ok: "tenancy_ok db \<Longrightarrow> tenancy_ok (snd (add_member nm org target role caller db))"
  by (auto simp: add_member_def Let_def tenancy_ok_def insert_unique_Some unique_on_def
      split: sum.splits option.splits if_splits)

lemma remove_member_ok: "tenancy_ok db \<Longrightarrow> tenancy_ok (snd (remove_member org target caller db))"
  by (auto simp: remove_member_def tenancy_ok_def intro: unique_on_delete split: sum.splits option.splits)

text \<open>What users can do to the tables.\<close>

inductive tenancy_step :: "tenancy_db \<Rightarrow> tenancy_db \<Rightarrow> bool" where
  created: "no \<notin> org_id ` set (organizations db) \<Longrightarrow>
    tenancy_step db (snd (create_organization no nm name slug user db))"
| added: "tenancy_step db (snd (add_member nm org target role caller db))"
| removed: "tenancy_step db (snd (remove_member org target caller db))"

inductive tenancy_run :: "tenancy_db \<Rightarrow> tenancy_db \<Rightarrow> bool" where
  nothing: "tenancy_run db db"
| further: "tenancy_run db db' \<Longrightarrow> tenancy_step db' db'' \<Longrightarrow> tenancy_run db db''"

lemma tenancy_run_ok: "tenancy_run db db' \<Longrightarrow> tenancy_ok db \<Longrightarrow> tenancy_ok db'"
proof (induction rule: tenancy_run.induct)
  case (further db db' db'')
  from further(2) show ?case
    by (cases rule: tenancy_step.cases) (use further in \<open>auto intro: create_organization_ok add_member_ok remove_member_ok\<close>)
qed

section \<open>Properties\<close>

text \<open>The roles form a hierarchy: whoever passes the check for a known role has every scope that
  role is granted.\<close>

theorem higher_roles_keep_scopes:
  assumes "has_role m minimum" "minimum \<in> fst ` set ROLE_RANK" "role_grants_scope minimum scope"
  shows "role_grants_scope (mb_role m) scope"
  using assms by (auto simp: has_role_def role_rank_cases role_grants_cases ROLE_RANK_def split: if_splits)

lemma higher_roles_keep_scopes_witness: "role_grants_scope OWNER ''members:write''"
  using higher_roles_keep_scopes [of "\<lparr>mb_id = ''1'', mb_org = ''o'', mb_user = ''u'', mb_role = OWNER\<rparr>" ADMIN]
  by (simp add: has_role_def role_rank_cases ROLE_RANK_def role_grants_cases)

text \<open>Memberships of an organization change only at the hand of its administrators and owners, or
  by its creation; a change through one organization leaves every other organization's as they are.\<close>

theorem only_managers_change_members:
  assumes "m \<in> set (memberships db) \<longleftrightarrow> m \<notin> set (memberships db')"
    and "db' = snd (add_member nm org target role caller db) \<or> db' = snd (remove_member org target caller db)"
  shows "manager org caller db \<and> mb_org m = org \<and> mb_user m = target"
  using assms(2)
proof (elim disjE)
  assume db': "db' = snd (add_member nm org target role caller db)"
  show ?thesis
    using assms(1) unfolding db'
    by (auto simp: add_member_def Let_def insert_unique_Some split: sum.splits option.splits if_splits
        dest!: require_admin_manager)
next
  assume db': "db' = snd (remove_member org target caller db)"
  show ?thesis
    using assms(1) unfolding db'
    by (auto simp: remove_member_def member_key_def split: sum.splits option.splits dest!: require_write_manager)
qed

definition acme_db :: tenancy_db where
  "acme_db = \<lparr>users = [''ann'', ''bob'', ''eve''],
    organizations = [\<lparr>org_id = ''o1'', org_name = ''Acme'', org_slug = ''acme'', payments_customer_id = None\<rparr>],
    memberships = [\<lparr>mb_id = ''m1'', mb_org = ''o1'', mb_user = ''ann'', mb_role = OWNER\<rparr>,
      \<lparr>mb_id = ''m2'', mb_org = ''o1'', mb_user = ''bob'', mb_role = ADMIN\<rparr>]\<rparr>"

lemmas tenancy_eval = acme_db_def add_member_def remove_member_def require_role_def require_scope_def
  get_current_membership_def member_key_def has_role_def role_rank_cases role_grants_cases insert_unique_def
  delete_where_def Let_def

lemma only_managers_change_members_witness: "manager ''o1'' ''bob'' acme_db"
proof -
  let ?m = "\<lparr>mb_id = ''m3'', mb_org = ''o1'', mb_user = ''eve'', mb_role = MEMBER\<rparr>"
  have "?m \<in> set (memberships acme_db) \<longleftrightarrow> ?m \<notin> set (memberships (snd (add_member ''m3'' ''o1'' ''eve'' MEMBER ''bob'' acme_db)))"
    by (simp add: tenancy_eval)
  from only_managers_change_members [OF this disjI1 [OF refl]] show ?thesis by blast
qed

text \<open>A user sees exactly the organizations of their memberships, and the members of none other:
  listing the members of an organization one does not belong to is answered 404.\<close>

theorem members_see_their_organizations:
  assumes "tenancy_ok db"
  shows "if \<exists>o' \<in> set (list_my_organizations user db). org_id o' = org
      then list_members org user db = Inr (filter (\<lambda>m. mb_org m = org) (memberships db))
      else list_members org user db = Inl (HTTPException 404 ''Organization not found'' [])"
proof -
  have "(\<exists>o' \<in> set (list_my_organizations user db). org_id o' = org)
      \<longleftrightarrow> (org, user) \<in> member_key ` set (memberships db)"
    using assms by (force simp: list_my_organizations_def tenancy_ok_def member_key_def)
  moreover have "get_current_membership org user db = Inl (HTTPException 404 ''Organization not found'' [])"
    if "(org, user) \<notin> member_key ` set (memberships db)"
    using that by (simp add: get_current_membership_def lookup_by_None [symmetric])
  moreover have "\<exists>m. get_current_membership org user db = Inr m"
    if "(org, user) \<in> member_key ` set (memberships db)"
    using that lookup_by_None [of member_key "(org, user)" "memberships db"]
    by (auto simp: get_current_membership_def split: option.split)
  ultimately show ?thesis by (auto simp: list_members_def)
qed

lemma members_see_their_organizations_witness:
  "list_members ''o1'' ''eve'' acme_db = Inl (HTTPException 404 ''Organization not found'' [])"
  using members_see_their_organizations [of acme_db "''eve''" "''o1''"]
  by (simp add: tenancy_ok_def acme_db_def unique_on_def member_key_def list_my_organizations_def)

text \<open>Nothing guards the last owner: an administrator who is not an owner can remove the only owner
  of an organization, and is then free to make anybody an owner.\<close>

theorem last_owner_can_be_removed:
  assumes ok: "tenancy_ok db"
    and adm: "\<lparr>mb_id = i, mb_org = org, mb_user = admin, mb_role = ADMIN\<rparr> \<in> set (memberships db)"
    and sole: "\<forall>m \<in> set (memberships db). mb_org m = org \<and> mb_role m = OWNER \<longrightarrow> mb_user m = owner"
    and tgt: "(org, owner) \<in> member_key ` set (memberships db)" "owner \<noteq> admin"
  shows "fst (remove_member org owner admin db) = Inr ()
    \<and> (\<forall>m \<in> set (memberships (snd (remove_member org owner admin db))). mb_org m = org \<longrightarrow> mb_role m \<noteq> OWNER)
    \<and> (\<exists>m. fst (add_member nm org owner OWNER admin (snd (remove_member org owner admin db))) = Inr m)"
proof -
  let ?a = "\<lparr>mb_id = i, mb_org = org, mb_user = admin, mb_role = ADMIN\<rparr>"
  let ?db = "snd (remove_member org owner admin db)"
  have uniq: "unique_on member_key (memberships db)" using ok by (simp add: tenancy_ok_def)
  have key: "member_key ?a = (org, admin)" by (simp add: member_key_def)
  have "get_current_membership org admin db = Inr ?a"
    using lookup_by_unique [OF uniq adm] key by (simp add: get_current_membership_def)
  then have may: "require_scope ''members:write'' org admin db = Inr ?a"
    by (simp add: require_scope_Inr role_grants_cases)
  obtain t where t: "lookup_by member_key (org, owner) (memberships db) = Some t"
    using tgt(1) lookup_by_None [of member_key "(org, owner)" "memberships db"] by fastforce
  have gone: "memberships ?db = delete_where (\<lambda>m. member_key m = (org, owner)) (memberships db)"
    "fst (remove_member org owner admin db) = Inr ()" "users ?db = users db" "organizations ?db = organizations db"
    using may t by (simp_all add: remove_member_def)
  have still: "?a \<in> set (memberships ?db)" using adm tgt(2) key gone(1) by simp
  have uniq': "unique_on member_key (memberships ?db)" using uniq gone(1) by (simp add: unique_on_delete)
  have "get_current_membership org admin ?db = Inr ?a"
    using lookup_by_unique [OF uniq' still] key by (simp add: get_current_membership_def)
  then have admin': "require_role ADMIN org admin ?db = Inr ?a"
    by (simp add: require_role_Inr has_role_def)
  have "(org, owner) \<notin> member_key ` set (memberships ?db)" using gone(1) by auto
  moreover have "owner \<in> set (users ?db)" "org \<in> org_id ` set (organizations ?db)"
    using ok tgt(1) gone(3,4) by (auto simp: tenancy_ok_def member_key_def)
  ultimately have "\<exists>m. fst (add_member nm org owner OWNER admin ?db) = Inr m"
    using admin' by (simp add: add_member_def Let_def insert_unique_def member_key_def)
  moreover have "\<forall>m \<in> set (memberships ?db). mb_org m = org \<longrightarrow> mb_role m \<noteq> OWNER"
    using sole gone(1) by (auto simp: member_key_def)
  ultimately show ?thesis using gone(2) by blast
qed

lemma last_owner_can_be_removed_witness:
  "list_all (\<lambda>m. mb_role m \<noteq> OWNER) (memberships (snd (remove_member ''o1'' ''ann'' ''bob'' acme_db)))"
  using last_owner_can_be_removed [of acme_db "''m2''" "''o1''" "''bob''" "''ann''"]
  by (simp add: tenancy_eval tenancy_ok_def unique_on_def)

end
