(* ===== verification/Billing.thy ===== *)
theory Billing imports Tenancy begin

text \<open>
  Billing: the entitlements (\<open>app/billing/entitlements.py\<close>, \<open>dependencies.py\<close>), the payments port and
  its two adapters (\<open>ports.py\<close>, \<open>adapters/stripe.py\<close>, \<open>adapters/razorpay.py\<close>, \<open>provider.py\<close>) and the
  routes with the webhook (\<open>models.py\<close>, \<open>router.py.jinja\<close>). The SDKs of the providers are parameters:
  records of functions on the provider's world.
\<close>

section \<open>Entitlements\<close>

abbreviation "FREE_PLAN \<equiv> ''free''"
abbreviation "PRO_PLAN \<equiv> ''pro''"
abbreviation "ENTERPRISE_PLAN \<equiv> ''enterprise''"

definition ACTIVE_STATUSES :: "string list" where
  "ACTIVE_STATUSES = [''active'', ''trialing'']"

definition FEATURES_BY_PLAN :: "(string \<times> string list) list" where
  "FEATURES_BY_PLAN =
    [(FREE_PLAN, [''core'']),
     (PRO_PLAN, [''core'', ''advanced_analytics'']),
     (ENTERPRISE_PLAN, [''core'', ''advanced_analytics'', ''priority_support'', ''sso''])]"

definition or_else :: "string option \<Rightarrow> string \<Rightarrow> string" where
  "or_else s d = (case s of None \<Rightarrow> d | Some t \<Rightarrow> if t = [] then d else t)"

definition features_for_plan :: "string option \<Rightarrow> string list" where
  "features_for_plan plan = (case map_of FEATURES_BY_PLAN (or_else plan FREE_PLAN) of
     Some fs \<Rightarrow> fs | None \<Rightarrow> [''core''])"

definition plan_has_feature :: "string option \<Rightarrow> string \<Rightarrow> bool" where
  "plan_has_feature plan feature = (feature \<in> set (features_for_plan plan))"

section \<open>The port\<close>

abbreviation "EVENT_SUBSCRIPTION_CREATED \<equiv> ''subscription.created''"
abbreviation "EVENT_SUBSCRIPTION_UPDATED \<equiv> ''subscription.updated''"
abbreviation "EVENT_SUBSCRIPTION_DELETED \<equiv> ''subscription.deleted''"
abbreviation "EVENT_IGNORED \<equiv> ''ignored''"

definition SUBSCRIPTION_EVENTS :: "string list" where
  "SUBSCRIPTION_EVENTS = [EVENT_SUBSCRIPTION_CREATED, EVENT_SUBSCRIPTION_UPDATED, EVENT_SUBSCRIPTION_DELETED]"

definition to_naive_utc :: "int option \<Rightarrow> datetime option" where
  "to_naive_utc ts = map_option seconds ts"

record payment_event =
  pe_event_id :: string
  pe_event_type :: string
  pe_subscription_id :: "string option"
  pe_status :: "string option"
  pe_plan :: "string option"
  pe_period_end :: "datetime option"
  pe_customer_ref :: "string option"

record subscription_state =
  ss_subscription_id :: string
  ss_status :: string
  ss_plan :: string
  ss_period_end :: "datetime option"

text \<open>
  The port as the router sees it: an operation that may create a customer returns the account with
  its \<open>payments_customer_id\<close>; \<open>'w\<close> is what the provider holds.
\<close>

record 'w payments_port =
  pp_name :: string
  pp_signature_header :: string
  pp_start_checkout :: "organization \<Rightarrow> string \<Rightarrow> 'w \<Rightarrow> (exn + string) \<times> organization \<times> 'w"
  pp_open_portal :: "organization \<Rightarrow> 'w \<Rightarrow> (exn + string) \<times> organization \<times> 'w"
  pp_verify_webhook :: "bytes \<Rightarrow> string \<Rightarrow> exn + payment_event"
  pp_get_subscription :: "organization \<Rightarrow> 'w \<Rightarrow> exn + subscription_state option"
  pp_cancel :: "organization \<Rightarrow> 'w \<Rightarrow> (exn + unit) \<times> 'w"

section \<open>Reading JSON\<close>

text \<open>\<open>d.get(key, default)\<close>, \<open>d[key]\<close> and \<open>xs[0]\<close> on parsed JSON, with Python's exceptions.\<close>

definition jget :: "json \<Rightarrow> string \<Rightarrow> json \<Rightarrow> exn + json" where
  "jget d k dflt = (case d of JDict kvs \<Rightarrow> Inr (case map_of kvs k of Some v \<Rightarrow> v | None \<Rightarrow> dflt) | _ \<Rightarrow> Inl AttributeError)"

definition jindex :: "json \<Rightarrow> string \<Rightarrow> exn + json" where
  "jindex d k = (case d of JDict kvs \<Rightarrow> (case map_of kvs k of Some v \<Rightarrow> Inr v | None \<Rightarrow> Inl (KeyError k)) | _ \<Rightarrow> Inl TypeError)"

text \<open>The identifiers, statuses and time stamps the providers document are strings, numbers or null.\<close>

definition jstr :: "json \<Rightarrow> string option" where
  "jstr v = (case v of JStr s \<Rightarrow> Some s | _ \<Rightarrow> None)"

definition jint :: "json \<Rightarrow> int option" where
  "jint v = (case v of JInt n \<Rightarrow> Some n | _ \<Rightarrow> None)"

text \<open>The text a value has in an f-string.\<close>

fun jtext :: "json \<Rightarrow> string" where
  "jtext (JStr s) = s"
| "jtext (JInt n) = int_str n"
| "jtext (JBool b) = (if b then ''True'' else ''False'')"
| "jtext _ = ''None''"

text \<open>\<open>xs[0] if xs else None\<close>: what is falsy has no first element.\<close>

definition jfirst :: "json \<Rightarrow> exn + json option" where
  "jfirst xs = (case xs of
     JList (x # _) \<Rightarrow> Inr (Some x)
   | JStr (c # _) \<Rightarrow> Inr (Some (JStr [c]))
   | JDict (_ # _) \<Rightarrow> Inl (KeyError ''0'')
   | JBool b \<Rightarrow> if b then Inl TypeError else Inr None
   | JInt n \<Rightarrow> if n = 0 then Inr None else Inl TypeError
   | _ \<Rightarrow> Inr None)"

text \<open>\<open>items[0]["price"]["id"] if items else None\<close> on an object's \<open>items.data\<close>.\<close>

definition first_price :: "json \<Rightarrow> exn + string option" where
  "first_price obj = and_then (jget obj ''items'' (JDict [])) (\<lambda>items.
     and_then (jget items ''data'' (JList [])) (\<lambda>data.
     and_then (jfirst data) (\<lambda>first.
       case first of
         Some x \<Rightarrow> and_then (jindex x ''price'') (\<lambda>p. and_then (jindex p ''id'') (\<lambda>i. Inr (jstr i)))
       | None \<Rightarrow> Inr None)))"

text \<open>The plan whose price or plan id it is: the first match of the configured dict, else free.\<close>

definition find_plan :: "(string \<times> string) list \<Rightarrow> string option \<Rightarrow> string" where
  "find_plan table pid = (case pid of None \<Rightarrow> FREE_PLAN
     | Some p \<Rightarrow> if p = [] then FREE_PLAN
         else (case find (\<lambda>(_, q). q = p) table of Some (plan, _) \<Rightarrow> plan | None \<Rightarrow> FREE_PLAN))"

definition lookup_price :: "string \<Rightarrow> (string \<times> string) list \<Rightarrow> string \<Rightarrow> exn + string" where
  "lookup_price msg table plan = (case map_of table plan of
     Some p \<Rightarrow> if p = [] then Inl (PaymentError msg) else Inr p
   | None \<Rightarrow> Inl (PaymentError msg))"

definition quoted :: "string \<Rightarrow> string" where
  "quoted s = [CHR 0x27] @ s @ [CHR 0x27]"

section \<open>The Stripe adapter\<close>

text \<open>The calls of the SDK that the adapter makes. Each call to the provider may raise.\<close>

record 'w stripe_sdk =
  st_customer_create :: "string \<Rightarrow> uuid \<Rightarrow> 'w \<Rightarrow> (exn + string) \<times> 'w"
  st_session_create :: "string \<Rightarrow> string \<Rightarrow> string \<Rightarrow> string \<Rightarrow> 'w \<Rightarrow> (exn + string) \<times> 'w"
  st_portal_create :: "string \<Rightarrow> string \<Rightarrow> 'w \<Rightarrow> (exn + string) \<times> 'w"
  st_construct_event :: "bytes \<Rightarrow> string \<Rightarrow> string \<Rightarrow> json option"
  st_subscription_list :: "string \<Rightarrow> 'w \<Rightarrow> exn + json"
  st_subscription_cancel :: "string \<Rightarrow> 'w \<Rightarrow> (exn + unit) \<times> 'w"

record payments_settings =
  stripe_plan_to_price :: "(string \<times> string) list"
  stripe_webhook_secret :: "string option"
  razorpay_plan_to_plan_id :: "(string \<times> string) list"
  razorpay_webhook_secret :: "string option"
  razorpay_total_count :: int
  razorpay_portal_url :: string
  payments_success_url :: string
  payments_cancel_url :: string
  payments_portal_return_url :: string
  payments_default_plan :: string
  payments_provider :: string

definition STRIPE_EVENT_MAP :: "(string \<times> string) list" where
  "STRIPE_EVENT_MAP = [(''customer.subscription.created'', EVENT_SUBSCRIPTION_CREATED),
    (''customer.subscription.updated'', EVENT_SUBSCRIPTION_UPDATED),
    (''customer.subscription.deleted'', EVENT_SUBSCRIPTION_DELETED)]"

definition event_type_of :: "(string \<times> string) list \<Rightarrow> json \<Rightarrow> string" where
  "event_type_of table name = (case name of
     JStr s \<Rightarrow> (case map_of table s of Some t \<Rightarrow> t | None \<Rightarrow> EVENT_IGNORED) | _ \<Rightarrow> EVENT_IGNORED)"

definition stripe_plan_to_price_id :: "payments_settings \<Rightarrow> string \<Rightarrow> exn + string" where
  "stripe_plan_to_price_id cfg plan =
    lookup_price (''No Stripe price configured for plan '' @ quoted plan) (stripe_plan_to_price cfg) plan"

definition stripe_price_to_plan :: "payments_settings \<Rightarrow> string option \<Rightarrow> string" where
  "stripe_price_to_plan cfg pid = find_plan (stripe_plan_to_price cfg) pid"

definition stripe_ensure_customer :: "'w stripe_sdk \<Rightarrow> organization \<Rightarrow> 'w \<Rightarrow> (exn + string) \<times> organization \<times> 'w" where
  "stripe_ensure_customer sdk account w =
    (case payments_customer_id account of
       Some existing \<Rightarrow> (Inr existing, account, w)
     | None \<Rightarrow> (case st_customer_create sdk (org_name account) (org_id account) w of
         (Inl e, w') \<Rightarrow> (Inl e, account, w')
       | (Inr cid, w') \<Rightarrow> (Inr cid, account\<lparr>payments_customer_id := Some cid\<rparr>, w')))"

definition stripe_start_checkout ::
  "payments_settings \<Rightarrow> 'w stripe_sdk \<Rightarrow> organization \<Rightarrow> string \<Rightarrow> 'w \<Rightarrow> (exn + string) \<times> organization \<times> 'w" where
  "stripe_start_checkout cfg sdk account plan w =
    (case stripe_plan_to_price_id cfg plan of
       Inl e \<Rightarrow> (Inl e, account, w)
     | Inr price \<Rightarrow>
         (case stripe_ensure_customer sdk account w of
            (Inl e, account', w') \<Rightarrow> (Inl e, account', w')
          | (Inr cid, account', w') \<Rightarrow>
              (case st_session_create sdk cid price (payments_success_url cfg) (payments_cancel_url cfg) w' of
                 (res, w'') \<Rightarrow> (res, account', w''))))"

definition stripe_open_portal ::
  "payments_settings \<Rightarrow> 'w stripe_sdk \<Rightarrow> organization \<Rightarrow> 'w \<Rightarrow> (exn + string) \<times> organization \<times> 'w" where
  "stripe_open_portal cfg sdk account w =
    (case stripe_ensure_customer sdk account w of
       (Inl e, account', w') \<Rightarrow> (Inl e, account', w')
     | (Inr cid, account', w') \<Rightarrow>
         (case st_portal_create sdk cid (payments_portal_return_url cfg) w' of (res, w'') \<Rightarrow> (res, account', w'')))"

definition stripe_to_payment_event :: "payments_settings \<Rightarrow> json \<Rightarrow> exn + payment_event" where
  "stripe_to_payment_event cfg event =
    and_then (jget event ''data'' (JDict [])) (\<lambda>data.
    and_then (jget data ''object'' (JDict [])) (\<lambda>obj.
    and_then (first_price obj) (\<lambda>price.
    and_then (jindex event ''id'') (\<lambda>eid.
    and_then (jindex event ''type'') (\<lambda>ty.
    and_then (jget obj ''id'' JNull) (\<lambda>sid.
    and_then (jget obj ''status'' JNull) (\<lambda>st.
    and_then (jget obj ''current_period_end'' JNull) (\<lambda>pend.
    and_then (jget obj ''customer'' JNull) (\<lambda>cust.
      Inr \<lparr>pe_event_id = jtext eid, pe_event_type = event_type_of STRIPE_EVENT_MAP ty,
           pe_subscription_id = jstr sid, pe_status = jstr st,
           pe_plan = Some (stripe_price_to_plan cfg price),
           pe_period_end = to_naive_utc (jint pend), pe_customer_ref = jstr cust\<rparr>)))))))))"

definition stripe_verify_webhook ::
  "payments_settings \<Rightarrow> 'w stripe_sdk \<Rightarrow> bytes \<Rightarrow> string \<Rightarrow> exn + payment_event" where
  "stripe_verify_webhook cfg sdk body signature =
    (case st_construct_event sdk body signature (or_else (stripe_webhook_secret cfg) []) of
       None \<Rightarrow> Inl WebhookVerificationError
     | Some event \<Rightarrow> stripe_to_payment_event cfg event)"

definition stripe_get_subscription ::
  "payments_settings \<Rightarrow> 'w stripe_sdk \<Rightarrow> organization \<Rightarrow> 'w \<Rightarrow> exn + subscription_state option" where
  "stripe_get_subscription cfg sdk account w =
    (case payments_customer_id account of
       None \<Rightarrow> Inr None
     | Some cid \<Rightarrow>
         and_then (st_subscription_list sdk cid w) (\<lambda>result.
         and_then (jget result ''data'' (JList [])) (\<lambda>data.
         and_then (jfirst data) (\<lambda>first.
           case first of
             None \<Rightarrow> Inr None
           | Some sub \<Rightarrow>
               and_then (first_price sub) (\<lambda>price.
               and_then (jindex sub ''id'') (\<lambda>sid.
               and_then (jindex sub ''status'') (\<lambda>st.
               and_then (jget sub ''current_period_end'' JNull) (\<lambda>pend.
                 Inr (Some \<lparr>ss_subscription_id = jtext sid, ss_status = jtext st,
                   ss_plan = stripe_price_to_plan cfg price, ss_period_end = to_naive_utc (jint pend)\<rparr>)))))))))"

definition stripe_cancel ::
  "payments_settings \<Rightarrow> 'w stripe_sdk \<Rightarrow> organization \<Rightarrow> 'w \<Rightarrow> (exn + unit) \<times> 'w" where
  "stripe_cancel cfg sdk account w =
    (case stripe_get_subscription cfg sdk account w of
       Inl e \<Rightarrow> (Inl e, w)
     | Inr None \<Rightarrow> (Inr (), w)
     | Inr (Some state) \<Rightarrow> st_subscription_cancel sdk (ss_subscription_id state) w)"

definition stripe_adapter :: "payments_settings \<Rightarrow> 'w stripe_sdk \<Rightarrow> 'w payments_port" where
  "stripe_adapter cfg sdk = \<lparr>pp_name = ''stripe'', pp_signature_header = ''stripe-signature'',
    pp_start_checkout = stripe_start_checkout cfg sdk, pp_open_portal = stripe_open_portal cfg sdk,
    pp_verify_webhook = stripe_verify_webhook cfg sdk,
    pp_get_subscription = stripe_get_subscription cfg sdk, pp_cancel = stripe_cancel cfg sdk\<rparr>"

section \<open>The Razorpay adapter\<close>

record 'w razorpay_sdk =
  rz_customer_create :: "string \<Rightarrow> uuid \<Rightarrow> 'w \<Rightarrow> (exn + string) \<times> 'w"
  rz_subscription_create :: "string \<Rightarrow> string \<Rightarrow> int \<Rightarrow> uuid \<Rightarrow> 'w \<Rightarrow> (exn + string) \<times> 'w"
  rz_verify_signature :: "bytes \<Rightarrow> string \<Rightarrow> string \<Rightarrow> bool"
  rz_subscription_all :: "string \<Rightarrow> 'w \<Rightarrow> exn + json"
  rz_subscription_cancel :: "string \<Rightarrow> 'w \<Rightarrow> (exn + unit) \<times> 'w"

definition RAZORPAY_EVENT_MAP :: "(string \<times> string) list" where
  "RAZORPAY_EVENT_MAP = [(''subscription.activated'', EVENT_SUBSCRIPTION_CREATED),
    (''subscription.authenticated'', EVENT_SUBSCRIPTION_UPDATED),
    (''subscription.charged'', EVENT_SUBSCRIPTION_UPDATED),
    (''subscription.updated'', EVENT_SUBSCRIPTION_UPDATED),
    (''subscription.pending'', EVENT_SUBSCRIPTION_UPDATED),
    (''subscription.halted'', EVENT_SUBSCRIPTION_UPDATED),
    (''subscription.paused'', EVENT_SUBSCRIPTION_UPDATED),
    (''subscription.resumed'', EVENT_SUBSCRIPTION_UPDATED),
    (''subscription.cancelled'', EVENT_SUBSCRIPTION_DELETED),
    (''subscription.completed'', EVENT_SUBSCRIPTION_DELETED),
    (''subscription.expired'', EVENT_SUBSCRIPTION_DELETED)]"

definition normalize_status :: "string option \<Rightarrow> string option" where
  "normalize_status st = map_option (\<lambda>s. if lower s = ''cancelled'' then ''canceled'' else lower s) st"

definition razorpay_plan_to_id :: "payments_settings \<Rightarrow> string \<Rightarrow> exn + string" where
  "razorpay_plan_to_id cfg plan =
    lookup_price (''No Razorpay plan configured for plan '' @ quoted plan) (razorpay_plan_to_plan_id cfg) plan"

definition razorpay_plan_id_to_plan :: "payments_settings \<Rightarrow> string option \<Rightarrow> string" where
  "razorpay_plan_id_to_plan cfg pid = find_plan (razorpay_plan_to_plan_id cfg) pid"

definition razorpay_ensure_customer :: "'w razorpay_sdk \<Rightarrow> organization \<Rightarrow> 'w \<Rightarrow> (exn + string) \<times> organization \<times> 'w" where
  "razorpay_ensure_customer sdk account w =
    (case payments_customer_id account of
       Some existing \<Rightarrow> (Inr existing, account, w)
     | None \<Rightarrow> (case rz_customer_create sdk (org_name account) (org_id account) w of
         (Inl e, w') \<Rightarrow> (Inl e, account, w')
       | (Inr cid, w') \<Rightarrow> (Inr cid, account\<lparr>payments_customer_id := Some cid\<rparr>, w')))"

definition razorpay_start_checkout ::
  "payments_settings \<Rightarrow> 'w razorpay_sdk \<Rightarrow> organization \<Rightarrow> string \<Rightarrow> 'w \<Rightarrow> (exn + string) \<times> organization \<times> 'w" where
  "razorpay_start_checkout cfg sdk account plan w =
    (case razorpay_plan_to_id cfg plan of
       Inl e \<Rightarrow> (Inl e, account, w)
     | Inr plan_id \<Rightarrow>
         (case razorpay_ensure_customer sdk account w of
            (Inl e, account', w') \<Rightarrow> (Inl e, account', w')
          | (Inr cid, account', w') \<Rightarrow>
              (case rz_subscription_create sdk plan_id cid (razorpay_total_count cfg) (org_id account) w' of
                 (res, w'') \<Rightarrow> (res, account', w''))))"

definition razorpay_open_portal ::
  "payments_settings \<Rightarrow> organization \<Rightarrow> 'w \<Rightarrow> (exn + string) \<times> organization \<times> 'w" where
  "razorpay_open_portal cfg account w = (Inr (razorpay_portal_url cfg), account, w)"

definition razorpay_to_payment_event :: "payments_settings \<Rightarrow> json \<Rightarrow> exn + payment_event" where
  "razorpay_to_payment_event cfg event =
    and_then (jget event ''event'' (JStr [])) (\<lambda>name.
    and_then (jget event ''payload'' (JDict [])) (\<lambda>payload.
    and_then (jget payload ''subscription'' (JDict [])) (\<lambda>sub.
    and_then (jget sub ''entity'' (JDict [])) (\<lambda>entity.
    and_then (jget entity ''id'' JNull) (\<lambda>sid.
    and_then (jget event ''created_at'' JNull) (\<lambda>created.
    and_then (jget entity ''status'' JNull) (\<lambda>st.
    and_then (jget entity ''plan_id'' JNull) (\<lambda>pid.
    and_then (jget entity ''current_end'' JNull) (\<lambda>pend.
    and_then (jget entity ''customer_id'' JNull) (\<lambda>cust.
      Inr \<lparr>pe_event_id = jtext name @ '':'' @ jtext sid @ '':'' @ jtext created,
           pe_event_type = event_type_of RAZORPAY_EVENT_MAP name,
           pe_subscription_id = jstr sid, pe_status = normalize_status (jstr st),
           pe_plan = Some (razorpay_plan_id_to_plan cfg (jstr pid)),
           pe_period_end = to_naive_utc (jint pend), pe_customer_ref = jstr cust\<rparr>))))))))))"

text \<open>The signature is over the decoded body; a body that is no JSON escapes as \<open>JSONDecodeError\<close>.\<close>

definition razorpay_verify_webhook ::
  "payments_settings \<Rightarrow> 'w razorpay_sdk \<Rightarrow> (bytes \<Rightarrow> json option) \<Rightarrow> bytes \<Rightarrow> string \<Rightarrow> exn + payment_event" where
  "razorpay_verify_webhook cfg sdk json_loads body signature =
    (if \<not> rz_verify_signature sdk body signature (or_else (razorpay_webhook_secret cfg) [])
     then Inl WebhookVerificationError
     else (case json_loads body of
         None \<Rightarrow> Inl (ValueError ''JSONDecodeError'')
       | Some event \<Rightarrow> razorpay_to_payment_event cfg event))"

definition razorpay_get_subscription ::
  "payments_settings \<Rightarrow> 'w razorpay_sdk \<Rightarrow> organization \<Rightarrow> 'w \<Rightarrow> exn + subscription_state option" where
  "razorpay_get_subscription cfg sdk account w =
    (case payments_customer_id account of
       None \<Rightarrow> Inr None
     | Some cid \<Rightarrow>
         and_then (rz_subscription_all sdk cid w) (\<lambda>result.
         and_then (jget result ''items'' (JList [])) (\<lambda>items.
         and_then (jfirst items) (\<lambda>first.
           case first of
             None \<Rightarrow> Inr None
           | Some sub \<Rightarrow>
               and_then (jindex sub ''id'') (\<lambda>sid.
               and_then (jget sub ''status'' JNull) (\<lambda>st.
               and_then (jget sub ''plan_id'' JNull) (\<lambda>pid.
               and_then (jget sub ''current_end'' JNull) (\<lambda>pend.
                 Inr (Some \<lparr>ss_subscription_id = jtext sid,
                   ss_status = or_else (normalize_status (jstr st)) ''unknown'',
                   ss_plan = razorpay_plan_id_to_plan cfg (jstr pid), ss_period_end = to_naive_utc (jint pend)\<rparr>)))))))))"

definition razorpay_cancel ::
  "payments_settings \<Rightarrow> 'w razorpay_sdk \<Rightarrow> organization \<Rightarrow> 'w \<Rightarrow> (exn + unit) \<times> 'w" where
  "razorpay_cancel cfg sdk account w =
    (case razorpay_get_subscription cfg sdk account w of
       Inl e \<Rightarrow> (Inl e, w)
     | Inr None \<Rightarrow> (Inr (), w)
     | Inr (Some state) \<Rightarrow> rz_subscription_cancel sdk (ss_subscription_id state) w)"

definition razorpay_adapter ::
  "payments_settings \<Rightarrow> 'w razorpay_sdk \<Rightarrow> (bytes \<Rightarrow> json option) \<Rightarrow> 'w payments_port" where
  "razorpay_adapter cfg sdk json_loads = \<lparr>pp_name = ''razorpay'', pp_signature_header = ''x-razorpay-signature'',
    pp_start_checkout = razorpay_start_checkout cfg sdk, pp_open_portal = razorpay_open_portal cfg,
    pp_verify_webhook = razorpay_verify_webhook cfg sdk json_loads,
    pp_get_subscription = razorpay_get_subscription cfg sdk, pp_cancel = razorpay_cancel cfg sdk\<rparr>"

text \<open>The active provider, by its configured name.\<close>

definition get_payments_provider ::
  "payments_settings \<Rightarrow> 'w stripe_sdk \<Rightarrow> 'w razorpay_sdk \<Rightarrow> (bytes \<Rightarrow> json option) \<Rightarrow> exn + 'w payments_port" where
  "get_payments_provider cfg stripe razorpay json_loads =
    (case map_of [(''stripe'', stripe_adapter cfg stripe), (''razorpay'', razorpay_adapter cfg razorpay json_loads)]
       (payments_provider cfg) of
       Some p \<Rightarrow> Inr p
     | None \<Rightarrow> Inl (RuntimeError (''Unknown payments_provider: '' @ quoted (payments_provider cfg))))"

end
