(* ===== verification/BillingRoutes.thy ===== *)
theory BillingRoutes imports Billing begin

text \<open>
  The billing tables, the routes and the provider webhook (\<open>app/billing/models.py\<close>,
  \<open>app/billing/router.py.jinja\<close>, \<open>app/billing/dependencies.py\<close>) over any payments port. The contract
  the routes rely on is the locale \<open>payments_contract\<close>, interpreted on both adapters.
\<close>

section \<open>Tables\<close>

record subscription =
  sub_id :: uuid
  sub_org :: uuid
  sub_provider :: string
  sub_provider_id :: string
  sub_status :: string
  sub_plan :: string
  sub_period_end :: "datetime option"

record processed_event =
  pv_provider :: string
  pv_event_id :: string
  pv_type :: string

definition event_key :: "processed_event \<Rightarrow> string \<times> string" where
  "event_key p = (pv_provider p, pv_event_id p)"

record billing_db =
  b_orgs :: "organization list"
  subscriptions :: "subscription list"
  processed :: "processed_event list"

section \<open>The webhook\<close>

text \<open>\<open>a or b\<close> where \<open>a\<close> is text or \<open>None\<close>.\<close>

definition update_subscription :: "string \<Rightarrow> payment_event \<Rightarrow> subscription \<Rightarrow> subscription" where
  "update_subscription provider ev s = s\<lparr>sub_provider := provider,
     sub_provider_id := or_else (pe_subscription_id ev) (sub_provider_id s),
     sub_status := or_else (pe_status ev) (sub_status s),
     sub_plan := or_else (pe_plan ev) (sub_plan s),
     sub_period_end := pe_period_end ev\<rparr>"

text \<open>
  The synchronisation. A comparison of the column with \<open>None\<close> is rendered as \<open>IS NULL\<close>, so it selects
  the organizations without a customer. The flush can violate the unique constraint on the
  provider's subscription id.
\<close>

definition sync_subscription :: "uuid \<Rightarrow> string \<Rightarrow> payment_event \<Rightarrow> billing_db \<Rightarrow> exn + billing_db" where
  "sync_subscription new_id provider ev db =
    (case filter (\<lambda>o'. payments_customer_id o' = pe_customer_ref ev) (b_orgs db) of
       [] \<Rightarrow> Inr db
     | [org] \<Rightarrow>
         (case lookup_by sub_org (org_id org) (subscriptions db) of
            None \<Rightarrow>
              (let s = \<lparr>sub_id = new_id, sub_org = org_id org, sub_provider = provider,
                     sub_provider_id = or_else (pe_subscription_id ev) [], sub_status = or_else (pe_status ev) [],
                     sub_plan = or_else (pe_plan ev) FREE_PLAN, sub_period_end = pe_period_end ev\<rparr>
               in case insert_unique sub_provider_id s (subscriptions db) of
                    None \<Rightarrow> Inl IntegrityError
                  | Some ss \<Rightarrow> Inr (db\<lparr>subscriptions := ss\<rparr>))
          | Some s \<Rightarrow>
              (let ss = update_where (\<lambda>x. sub_org x = org_id org) (update_subscription provider ev) (subscriptions db)
               in if distinct (map sub_provider_id ss) then Inr (db\<lparr>subscriptions := ss\<rparr>)
                  else Inl IntegrityError))
     | _ \<Rightarrow> Inl MultipleResultsFound)"

text \<open>Anything that raises before the commit leaves the database as it was.\<close>

definition payments_webhook ::
  "'w payments_port \<Rightarrow> uuid \<Rightarrow> bytes \<Rightarrow> string \<Rightarrow> billing_db \<Rightarrow> (exn + string) \<times> billing_db" where
  "payments_webhook payments new_id raw_body signature db =
    (case pp_verify_webhook payments raw_body signature of
       Inl WebhookVerificationError \<Rightarrow> (Inl (HTTPException 400 ''Invalid webhook signature'' []), db)
     | Inl e \<Rightarrow> (Inl e, db)
     | Inr ev \<Rightarrow>
         (case lookup_by event_key (pp_name payments, pe_event_id ev) (processed db) of
            Some _ \<Rightarrow> (Inr ''duplicate'', db)
          | None \<Rightarrow>
              (let db1 = db\<lparr>processed := processed db @ [\<lparr>pv_provider = pp_name payments,
                     pv_event_id = pe_event_id ev, pv_type = pe_event_type ev\<rparr>]\<rparr>
               in if pe_event_type ev \<in> set SUBSCRIPTION_EVENTS
                  then (case sync_subscription new_id (pp_name payments) ev db1 of
                      Inl e \<Rightarrow> (Inl e, db) | Inr db2 \<Rightarrow> (Inr ''ok'', db2))
                  else (Inr ''ok'', db1))))"

section \<open>The routes\<close>

definition get_org :: "uuid \<Rightarrow> billing_db \<Rightarrow> exn + organization" where
  "get_org oid db = (case lookup_by org_id oid (b_orgs db) of
     None \<Rightarrow> Inl (HTTPException 404 ''Organization not found'' []) | Some o' \<Rightarrow> Inr o')"

definition save_org :: "organization \<Rightarrow> billing_db \<Rightarrow> billing_db" where
  "save_org o' db = db\<lparr>b_orgs := update_where (\<lambda>x. org_id x = org_id o')
     (\<lambda>x. x\<lparr>payments_customer_id := payments_customer_id o'\<rparr>) (b_orgs db)\<rparr>"

text \<open>The guard every route has: the caller's membership.\<close>

definition create_checkout_session ::
  "payments_settings \<Rightarrow> 'w payments_port \<Rightarrow> exn + membership \<Rightarrow> uuid \<Rightarrow> string option \<Rightarrow> billing_db \<Rightarrow> 'w
    \<Rightarrow> (exn + string \<times> string) \<times> billing_db \<times> 'w" where
  "create_checkout_session cfg payments mb oid plan db w =
    (case and_then mb (\<lambda>_. get_org oid db) of
       Inl e \<Rightarrow> (Inl e, db, w)
     | Inr org \<Rightarrow>
         (case pp_start_checkout payments org (or_else plan (payments_default_plan cfg)) w of
            (Inl (PaymentError msg), _, w') \<Rightarrow> (Inl (HTTPException 400 msg []), db, w')
          | (Inl e, _, w') \<Rightarrow> (Inl e, db, w')
          | (Inr url, org', w') \<Rightarrow> (Inr (url, pp_name payments), save_org org' db, w')))"

definition create_portal_session ::
  "'w payments_port \<Rightarrow> exn + membership \<Rightarrow> uuid \<Rightarrow> billing_db \<Rightarrow> 'w \<Rightarrow> (exn + string) \<times> billing_db \<times> 'w" where
  "create_portal_session payments mb oid db w =
    (case and_then mb (\<lambda>_. get_org oid db) of
       Inl e \<Rightarrow> (Inl e, db, w)
     | Inr org \<Rightarrow>
         (case pp_open_portal payments org w of
            (Inl e, _, w') \<Rightarrow> (Inl e, db, w')
          | (Inr url, org', w') \<Rightarrow> (Inr url, save_org org' db, w')))"

record subscription_read =
  sr_organization_id :: uuid
  sr_provider :: string
  sr_provider_subscription_id :: string
  sr_status :: string
  sr_plan :: string
  sr_current_period_end :: "datetime option"

definition get_subscription ::
  "'w payments_port \<Rightarrow> exn + membership \<Rightarrow> uuid \<Rightarrow> billing_db \<Rightarrow> 'w \<Rightarrow> exn + subscription_read" where
  "get_subscription payments mb oid db w =
    and_then mb (\<lambda>_.
      case lookup_by sub_org oid (subscriptions db) of
        Some s \<Rightarrow> Inr \<lparr>sr_organization_id = sub_org s, sr_provider = sub_provider s,
          sr_provider_subscription_id = sub_provider_id s, sr_status = sub_status s, sr_plan = sub_plan s,
          sr_current_period_end = sub_period_end s\<rparr>
      | None \<Rightarrow>
          and_then (get_org oid db) (\<lambda>org.
          and_then (pp_get_subscription payments org w) (\<lambda>state.
            case state of
              None \<Rightarrow> Inl (HTTPException 404 ''No subscription for this organization'' [])
            | Some st \<Rightarrow> Inr \<lparr>sr_organization_id = oid, sr_provider = pp_name payments,
                sr_provider_subscription_id = ss_subscription_id st, sr_status = ss_status st,
                sr_plan = ss_plan st, sr_current_period_end = ss_period_end st\<rparr>)))"

definition cancel_subscription ::
  "'w payments_port \<Rightarrow> exn + membership \<Rightarrow> uuid \<Rightarrow> billing_db \<Rightarrow> 'w \<Rightarrow> (exn + string) \<times> 'w" where
  "cancel_subscription payments mb oid db w =
    (case and_then mb (\<lambda>_. get_org oid db) of
       Inl e \<Rightarrow> (Inl e, w)
     | Inr org \<Rightarrow> (case pp_cancel payments org w of
           (Inl e, w') \<Rightarrow> (Inl e, w') | (Inr _, w') \<Rightarrow> (Inr ''canceled'', w')))"

text \<open>The entitlement guard.\<close>

definition active_plan :: "uuid \<Rightarrow> billing_db \<Rightarrow> string" where
  "active_plan oid db = (case lookup_by sub_org oid (subscriptions db) of
     Some s \<Rightarrow> if sub_status s \<in> set ACTIVE_STATUSES then sub_plan s else FREE_PLAN
   | None \<Rightarrow> FREE_PLAN)"

definition require_feature :: "string \<Rightarrow> exn + membership \<Rightarrow> billing_db \<Rightarrow> exn + unit" where
  "require_feature feature mb db =
    and_then mb (\<lambda>m.
      if \<not> plan_has_feature (Some (active_plan (mb_org m) db)) feature
      then Inl (HTTPException 403 (''Your plan does not include the '' @ quoted feature @ '' feature'') [])
      else Inr ())"

section \<open>The contract of a provider\<close>

locale payments_contract =
  fixes port :: "'w payments_port"
    and genuine :: "bytes \<Rightarrow> string \<Rightarrow> bool"
    and prices :: "string \<Rightarrow> bool"
    and known :: "string \<Rightarrow> bool"
  assumes forged: "\<not> genuine b sg \<Longrightarrow> pp_verify_webhook port b sg = Inl WebhookVerificationError"
    and known_plan: "pp_verify_webhook port b sg = Inr ev \<Longrightarrow>
      \<exists>p. pe_plan ev = Some p \<and> (p = FREE_PLAN \<or> known p)"
    and refused: "\<not> prices plan \<Longrightarrow> \<exists>msg. pp_start_checkout port acc plan w = (Inl (PaymentError msg), acc, w)"
    and started: "prices plan \<Longrightarrow> pp_start_checkout port acc plan w = (res, acc', w') \<Longrightarrow>
      (\<forall>url. res = Inr url \<longrightarrow> (\<exists>c. acc' = acc\<lparr>payments_customer_id := Some c\<rparr>))
      \<and> (\<forall>c. payments_customer_id acc = Some c \<longrightarrow> acc' = acc)"
    and no_customer: "payments_customer_id acc = None \<Longrightarrow> pp_cancel port acc w = (Inr (), w)"
begin

lemma forged_webhook:
  "\<not> genuine b sg \<Longrightarrow> payments_webhook port i b sg db = (Inl (HTTPException 400 ''Invalid webhook signature'' []), db)"
  by (simp add: payments_webhook_def forged)

lemma checkout_refused:
  assumes "get_org oid db = Inr org" "\<not> prices (or_else plan (payments_default_plan cfg))"
  shows "\<exists>msg. create_checkout_session cfg port (Inr m) oid plan db w = (Inl (HTTPException 400 msg []), db, w)"
  using refused [OF assms(2), of org w] assms(1) by (auto simp: create_checkout_session_def)

lemma checkout_keeps_customer:
  assumes "get_org oid db = Inr org" "payments_customer_id org = Some c"
    and "create_checkout_session cfg port (Inr m) oid plan db w = (res, db', w')" and "unique_on org_id (b_orgs db)"
  shows "db' = db"
proof (cases "prices (or_else plan (payments_default_plan cfg))")
  case False
  then show ?thesis using checkout_refused [OF assms(1)] assms(3) by (metis prod.inject)
next
  case True
  obtain r acc' w1 where p: "pp_start_checkout port org (or_else plan (payments_default_plan cfg)) w = (r, acc', w1)"
    by (metis prod.exhaust)
  from started [OF True p] assms(2) have r: "acc' = org" by blast
  have org: "org \<in> set (b_orgs db)" "org_id org = oid"
    using assms(1) by (auto simp: get_org_def split: option.splits dest: lookup_by_SomeD)
  have "update_where (\<lambda>x. org_id x = org_id org) (\<lambda>x. x\<lparr>payments_customer_id := payments_customer_id org\<rparr>) (b_orgs db) = b_orgs db"
  proof -
    have "x\<lparr>payments_customer_id := payments_customer_id org\<rparr> = x"
      if "x \<in> set (b_orgs db)" "org_id x = org_id org" for x
      using unique_onD [OF assms(4) that(1) org(1) that(2)] by simp
    then show ?thesis by (simp add: update_where_def map_idI)
  qed
  then show ?thesis using assms(1,3) p r
    by (auto simp: create_checkout_session_def save_org_def split: sum.splits exn.splits)
qed

end

lemma find_plan_known: "find_plan table pid = FREE_PLAN \<or> (\<exists>p. (find_plan table pid, p) \<in> set table)"
  by (auto simp: find_plan_def split: option.splits dest: find_SomeD)

definition priced :: "(string \<times> string) list \<Rightarrow> string \<Rightarrow> bool" where
  "priced table plan = (case map_of table plan of None \<Rightarrow> False | Some p \<Rightarrow> p \<noteq> [])"

lemma lookup_price_cases:
  "lookup_price msg table plan = (case map_of table plan of Some p \<Rightarrow> if p = [] then Inl (PaymentError msg) else Inr p
    | None \<Rightarrow> Inl (PaymentError msg))"
  by (simp add: lookup_price_def split: option.split)

lemma event_plan_known:
  "stripe_to_payment_event cfg j = Inr ev \<Longrightarrow> \<exists>pid. pe_plan ev = Some (find_plan (stripe_plan_to_price cfg) pid)"
  "razorpay_to_payment_event cfg j = Inr ev \<Longrightarrow> \<exists>pid. pe_plan ev = Some (find_plan (razorpay_plan_to_plan_id cfg) pid)"
  by (auto simp: stripe_to_payment_event_def razorpay_to_payment_event_def and_then_Inr
      stripe_price_to_plan_def razorpay_plan_id_to_plan_def)

interpretation stripe: payments_contract "stripe_adapter cfg sdk"
  "\<lambda>b sg. st_construct_event sdk b sg (or_else (stripe_webhook_secret cfg) []) \<noteq> None"
  "priced (stripe_plan_to_price cfg)" "\<lambda>p. p \<in> fst ` set (stripe_plan_to_price cfg)"
  for cfg :: payments_settings and sdk :: "'w stripe_sdk"
proof
  fix b sg
  assume "\<not> st_construct_event sdk b sg (or_else (stripe_webhook_secret cfg) []) \<noteq> None"
  then show "pp_verify_webhook (stripe_adapter cfg sdk) b sg = Inl WebhookVerificationError"
    by (simp add: stripe_adapter_def stripe_verify_webhook_def)
next
  fix b sg ev
  assume "pp_verify_webhook (stripe_adapter cfg sdk) b sg = Inr ev"
  then obtain pid where "pe_plan ev = Some (find_plan (stripe_plan_to_price cfg) pid)"
    using event_plan_known by (fastforce simp: stripe_adapter_def stripe_verify_webhook_def split: option.splits)
  then show "\<exists>p. pe_plan ev = Some p \<and> (p = FREE_PLAN \<or> p \<in> fst ` set (stripe_plan_to_price cfg))"
    using find_plan_known by force
next
  fix plan acc w
  assume "\<not> priced (stripe_plan_to_price cfg) plan"
  then show "\<exists>msg. pp_start_checkout (stripe_adapter cfg sdk) acc plan w = (Inl (PaymentError msg), acc, w)"
    by (auto simp: stripe_adapter_def stripe_start_checkout_def stripe_plan_to_price_id_def priced_def
        lookup_price_cases split: option.splits)
next
  fix plan acc w res acc' w'
  assume "priced (stripe_plan_to_price cfg) plan" "pp_start_checkout (stripe_adapter cfg sdk) acc plan w = (res, acc', w')"
  then show "(\<forall>url. res = Inr url \<longrightarrow> (\<exists>c. acc' = acc\<lparr>payments_customer_id := Some c\<rparr>))
      \<and> (\<forall>c. payments_customer_id acc = Some c \<longrightarrow> acc' = acc)"
    by (cases acc) (auto simp: stripe_adapter_def stripe_start_checkout_def stripe_plan_to_price_id_def priced_def
        lookup_price_cases stripe_ensure_customer_def split: option.splits prod.splits sum.splits if_splits)
next
  fix acc :: organization and w
  assume "payments_customer_id acc = None"
  then show "pp_cancel (stripe_adapter cfg sdk) acc w = (Inr (), w)"
    by (simp add: stripe_adapter_def stripe_cancel_def stripe_get_subscription_def)
qed

interpretation razorpay: payments_contract "razorpay_adapter cfg sdk json_loads"
  "\<lambda>b sg. rz_verify_signature sdk b sg (or_else (razorpay_webhook_secret cfg) [])"
  "priced (razorpay_plan_to_plan_id cfg)" "\<lambda>p. p \<in> fst ` set (razorpay_plan_to_plan_id cfg)"
  for cfg :: payments_settings and sdk :: "'w razorpay_sdk" and json_loads :: "bytes \<Rightarrow> json option"
proof
  fix b sg
  assume "\<not> rz_verify_signature sdk b sg (or_else (razorpay_webhook_secret cfg) [])"
  then show "pp_verify_webhook (razorpay_adapter cfg sdk json_loads) b sg = Inl WebhookVerificationError"
    by (simp add: razorpay_adapter_def razorpay_verify_webhook_def)
next
  fix b sg ev
  assume "pp_verify_webhook (razorpay_adapter cfg sdk json_loads) b sg = Inr ev"
  then obtain pid where "pe_plan ev = Some (find_plan (razorpay_plan_to_plan_id cfg) pid)"
    using event_plan_known
    by (fastforce simp: razorpay_adapter_def razorpay_verify_webhook_def split: option.splits if_splits)
  then show "\<exists>p. pe_plan ev = Some p \<and> (p = FREE_PLAN \<or> p \<in> fst ` set (razorpay_plan_to_plan_id cfg))"
    using find_plan_known by force
next
  fix plan acc w
  assume "\<not> priced (razorpay_plan_to_plan_id cfg) plan"
  then show "\<exists>msg. pp_start_checkout (razorpay_adapter cfg sdk json_loads) acc plan w = (Inl (PaymentError msg), acc, w)"
    by (auto simp: razorpay_adapter_def razorpay_start_checkout_def razorpay_plan_to_id_def priced_def
        lookup_price_cases split: option.splits)
next
  fix plan acc w res acc' w'
  assume "priced (razorpay_plan_to_plan_id cfg) plan"
    "pp_start_checkout (razorpay_adapter cfg sdk json_loads) acc plan w = (res, acc', w')"
  then show "(\<forall>url. res = Inr url \<longrightarrow> (\<exists>c. acc' = acc\<lparr>payments_customer_id := Some c\<rparr>))
      \<and> (\<forall>c. payments_customer_id acc = Some c \<longrightarrow> acc' = acc)"
    by (cases acc) (auto simp: razorpay_adapter_def razorpay_start_checkout_def razorpay_plan_to_id_def priced_def
        lookup_price_cases razorpay_ensure_customer_def split: option.splits prod.splits sum.splits if_splits)
next
  fix acc :: organization and w
  assume "payments_customer_id acc = None"
  then show "pp_cancel (razorpay_adapter cfg sdk json_loads) acc w = (Inr (), w)"
    by (simp add: razorpay_adapter_def razorpay_cancel_def razorpay_get_subscription_def)
qed

end
