(* ===== verification/RateLimitDeps.thy ===== *)
theory RateLimitDeps imports RateLimit BillingRoutes begin

text \<open>
  The rate-limit dependencies and the login lockout (\<open>app/ratelimit/dependencies.py.jinja\<close>, with
  billing) over any limiter that satisfies \<open>rate_limit_port\<close>, the cache of plans, and the properties
  of the subsystem. SHA-256 in hexadecimal and the parsing of a UUID are arguments.
\<close>

section \<open>Keys\<close>

record web_request =
  rq_client :: "string option"
  rq_path :: string
  rq_path_params :: "(string \<times> string) list"

definition client_ip :: "web_request \<Rightarrow> string" where
  "client_ip r = (case rq_client r of Some h \<Rightarrow> h | None \<Rightarrow> ''anonymous'')"

text \<open>\<open>s.replace(old, new)\<close>: every occurrence from the left; an empty \<open>old\<close> matches everywhere.\<close>

function replace_loop :: "string \<Rightarrow> string \<Rightarrow> string \<Rightarrow> string" where
  "replace_loop old new [] = []"
| "replace_loop old new (c # cs) =
    (if old \<noteq> [] \<and> starts_with old (c # cs) then new @ replace_loop old new (drop (length old) (c # cs))
     else c # replace_loop old new cs)"
  by pat_completeness auto
termination by (relation "measure (\<lambda>(old, new, s). length s)") auto

definition str_replace :: "string \<Rightarrow> string \<Rightarrow> string \<Rightarrow> string" where
  "str_replace old new s = (if old = [] then new @ concat (map (\<lambda>c. c # new) s) else replace_loop old new s)"

text \<open>The parameters are taken out of the path, the longest values first.\<close>

definition route_key :: "web_request \<Rightarrow> string" where
  "route_key r = fold (\<lambda>(name, value) path. str_replace value (''{'' @ name @ ''}'') path)
     (sort_key (\<lambda>(name, value). - int (length value)) (rq_path_params r)) (rq_path r)"

definition strip :: "string \<Rightarrow> string" where
  "strip s = rev (dropWhile is_space (rev (dropWhile is_space s)))"

definition hashed :: "(bytes \<Rightarrow> string) \<Rightarrow> string \<Rightarrow> string" where
  "hashed sha v = take 32 (sha (utf8 (lower (strip v))))"

section \<open>The plan of an organization\<close>

text \<open>The cache: a dict in insertion order, from organization ids to a plan and its expiry.\<close>

type_synonym plan_cache = "(string \<times> string \<times> rat) list"

abbreviation "PLAN_CACHE_MAX \<equiv> (10000 :: nat)"

definition dict_set :: "'k \<Rightarrow> 'v \<Rightarrow> ('k \<times> 'v) list \<Rightarrow> ('k \<times> 'v) list" where
  "dict_set k v d = (if k \<in> fst ` set d then map (\<lambda>(a, b). if a = k then (a, v) else (a, b)) d else d @ [(k, v)])"

text \<open>The cached plan, or the plan read from the database at \<open>now\<close>; the cache is emptied when it is full.\<close>

definition plan_for_org ::
  "ratelimit_settings \<Rightarrow> (string \<Rightarrow> uuid option) \<Rightarrow> rat \<Rightarrow> string \<Rightarrow> billing_db \<Rightarrow> plan_cache \<Rightarrow> string option \<times> plan_cache" where
  "plan_for_org st parse_uuid now oid db cache =
    (let ttl = ratelimit_plan_cache_seconds st;
         hit = (if 0 < ttl then (case map_of cache oid of
                    Some (plan, e) \<Rightarrow> if now < e then Some plan else None | None \<Rightarrow> None)
                else None)
     in case hit of
          Some plan \<Rightarrow> (Some plan, cache)
        | None \<Rightarrow>
            (case parse_uuid oid of
               None \<Rightarrow> (None, cache)
             | Some u \<Rightarrow>
                 (let plan = active_plan u db;
                      room = (if PLAN_CACHE_MAX \<le> length cache then [] else cache)
                  in (Some plan, if 0 < ttl then dict_set oid (plan, now + of_int ttl) room else cache))))"

section \<open>The dependencies\<close>

definition too_many :: "string \<Rightarrow> int \<Rightarrow> exn" where
  "too_many d retry = HTTPException 429 d [(''Retry-After'', int_str retry)]"

text \<open>The scope: the organization of the path (when not empty), else the client.\<close>

definition budget_scope :: "web_request \<Rightarrow> string" where
  "budget_scope r = (case map_of (rq_path_params r) ''org_id'' of
     Some (c # cs) \<Rightarrow> ''org:'' @ (c # cs) | _ \<Rightarrow> ''ip:'' @ client_ip r)"

definition request_plan ::
  "ratelimit_settings \<Rightarrow> (string \<Rightarrow> uuid option) \<Rightarrow> rat \<Rightarrow> web_request \<Rightarrow> billing_db \<Rightarrow> plan_cache \<Rightarrow> string option \<times> plan_cache" where
  "request_plan st parse_uuid now r db cache = (case map_of (rq_path_params r) ''org_id'' of
     Some (c # cs) \<Rightarrow> plan_for_org st parse_uuid now (c # cs) db cache | _ \<Rightarrow> (None, cache))"

definition rate_limit ::
  "'s rate_port \<Rightarrow> ratelimit_settings \<Rightarrow> (string \<Rightarrow> uuid option) \<Rightarrow> rate_tier option \<Rightarrow> rat \<Rightarrow> web_request
    \<Rightarrow> billing_db \<Rightarrow> plan_cache \<Rightarrow> 's \<Rightarrow> (exn + unit) \<times> plan_cache \<times> 's" where
  "rate_limit limiter st parse_uuid tier now r db cache s =
    (if \<not> ratelimit_enabled st then (Inr (), cache, s)
     else
       (case (case tier of Some t \<Rightarrow> (t, cache)
              | None \<Rightarrow> (case request_plan st parse_uuid now r db cache of (plan, c) \<Rightarrow> (tier_for_plan st plan, c))) of
          (effective, cache') \<Rightarrow>
            (case p_hit limiter now (budget_scope r @ '':'' @ route_key r)
                (tier_limit effective) (window_seconds effective) s of
               (allowed, s') \<Rightarrow>
                 (if \<not> allowed then Inl (too_many ''Rate limit exceeded'' (window_seconds effective)) else Inr (),
                  cache', s'))))"

definition enforce_auth_rate_limit ::
  "'s rate_port \<Rightarrow> ratelimit_settings \<Rightarrow> rat \<Rightarrow> web_request \<Rightarrow> 's \<Rightarrow> (exn + unit) \<times> 's" where
  "enforce_auth_rate_limit limiter st now r s =
    (if \<not> ratelimit_enabled st then (Inr (), s)
     else (let tier = auth_tier st in
       case p_hit limiter now (''auth:ip:'' @ client_ip r @ '':'' @ route_key r) (tier_limit tier) (window_seconds tier) s of
         (allowed, s') \<Rightarrow>
           (if \<not> allowed then Inl (too_many ''Too many attempts; try again later'' (window_seconds tier)) else Inr (), s')))"

definition assert_not_locked_out ::
  "'s rate_port \<Rightarrow> ratelimit_settings \<Rightarrow> (bytes \<Rightarrow> string) \<Rightarrow> rat \<Rightarrow> string \<Rightarrow> 's \<Rightarrow> exn + unit" where
  "assert_not_locked_out limiter st sha now identifier s =
    (if \<not> ratelimit_enabled st then Inr ()
     else if ratelimit_lockout_threshold st \<le> p_failure_count limiter now (hashed sha identifier) s
     then Inl (too_many ''Account temporarily locked after repeated failed logins; try again later''
        (ratelimit_lockout_window_seconds st))
     else Inr ())"

definition record_login_failure ::
  "'s rate_port \<Rightarrow> ratelimit_settings \<Rightarrow> (bytes \<Rightarrow> string) \<Rightarrow> rat \<Rightarrow> string \<Rightarrow> 's \<Rightarrow> 's" where
  "record_login_failure limiter st sha now identifier s =
    (if \<not> ratelimit_enabled st then s
     else snd (p_count_failure limiter now (hashed sha identifier) (ratelimit_lockout_window_seconds st) s))"

definition clear_login_failures ::
  "'s rate_port \<Rightarrow> ratelimit_settings \<Rightarrow> (bytes \<Rightarrow> string) \<Rightarrow> string \<Rightarrow> 's \<Rightarrow> 's" where
  "clear_login_failures limiter st sha identifier s =
    (if \<not> ratelimit_enabled st then s else p_clear_failures limiter (hashed sha identifier) s)"

section \<open>The lockout over any limiter\<close>

fun failures_at ::
  "'s rate_port \<Rightarrow> ratelimit_settings \<Rightarrow> (bytes \<Rightarrow> string) \<Rightarrow> string \<Rightarrow> rat list \<Rightarrow> 's \<Rightarrow> 's" where
  "failures_at limiter st sha identifier [] s = s"
| "failures_at limiter st sha identifier (t # us) s =
    failures_at limiter st sha identifier us (record_login_failure limiter st sha t identifier s)"

context rate_limit_port
begin

lemma more_failures:
  "ratelimit_enabled st \<Longrightarrow> failures s (hashed sha i) = Some (n, e) \<Longrightarrow> \<forall>t \<in> set us. t < e \<Longrightarrow>
    failures (failures_at port st sha i us s) (hashed sha i) = Some (n + int (length us), e)"
proof (induction us arbitrary: s n)
  case (Cons t us)
  have "failures (record_login_failure port st sha t i s) (hashed sha i) = Some (n + 1, e)"
    using Cons.prems count_next [of s "hashed sha i" n e t "ratelimit_lockout_window_seconds st"]
    by (simp add: record_login_failure_def)
  from Cons.IH [OF Cons.prems(1) this] show ?case using Cons.prems(3) by simp
qed simp

lemma lockout:
  assumes "ratelimit_enabled st" "0 < ratelimit_lockout_window_seconds st"
    and fresh: "\<forall>n e. failures s (hashed sha i) = Some (n, e) \<longrightarrow> e \<le> t"
    and times: "\<forall>u \<in> set us. u < t + of_int (ratelimit_lockout_window_seconds st)"
  shows "assert_not_locked_out port st sha now i (failures_at port st sha i (t # us) s)
    = (if now < t + of_int (ratelimit_lockout_window_seconds st)
          \<and> ratelimit_lockout_threshold st \<le> 1 + int (length us)
          \<or> ratelimit_lockout_threshold st \<le> 0
       then Inl (too_many ''Account temporarily locked after repeated failed logins; try again later''
          (ratelimit_lockout_window_seconds st))
       else Inr ())"
proof -
  let ?e = "t + of_int (ratelimit_lockout_window_seconds st)"
  have "failures (record_login_failure port st sha t i s) (hashed sha i) = Some (1, ?e)"
    using count_first [OF assms(2) fresh] assms(1) by (simp add: record_login_failure_def)
  from more_failures [OF assms(1) this times]
  have "failures (failures_at port st sha i (t # us) s) (hashed sha i) = Some (1 + int (length us), ?e)" by simp
  then show ?thesis using assms(1) by (auto simp: assert_not_locked_out_def count_read live_count_def)
qed

lemma cleared:
  assumes "ratelimit_enabled st" "0 < ratelimit_lockout_threshold st"
  shows "assert_not_locked_out port st sha now i (clear_login_failures port st sha i s) = Inr ()"
  using assms by (simp add: assert_not_locked_out_def clear_login_failures_def count_read clear_count live_count_def)

end

end
