(* ===== verification/BillingProps.thy ===== *)
theory BillingProps imports BillingRoutes begin

text \<open>
  The properties of billing: forged webhooks change nothing, a replay is a no-op, an event sets the
  plan of its customer's organization and of no other, and paid features need an active
  subscription. Two theorems show where an event reaches the wrong organization or is lost.
\<close>

section \<open>Invariants\<close>

definition billing_ok :: "billing_db \<Rightarrow> bool" where
  "billing_ok db \<longleftrightarrow> unique_on sub_org (subscriptions db) \<and> distinct (map sub_provider_id (subscriptions db))
     \<and> unique_on event_key (processed db)"

inductive billing_step :: "billing_db \<Rightarrow> billing_db \<Rightarrow> bool" where
  webhook: "billing_step db (snd (payments_webhook (payments :: unit payments_port) i b sg db))"
| account: "billing_step db (save_org o' db)"

inductive billing_run :: "billing_db \<Rightarrow> billing_db \<Rightarrow> bool" where
  billing_nil: "billing_run db db"
| billing_more: "billing_run db db' \<Longrightarrow> billing_step db' db'' \<Longrightarrow> billing_run db db''"

lemma update_subscription_org [simp]: "sub_org (update_subscription p ev s) = sub_org s"
  by (simp add: update_subscription_def)

lemma save_org_frame [simp]: "subscriptions (save_org o' db) = subscriptions db" "processed (save_org o' db) = processed db"
  by (simp_all add: save_org_def)

text \<open>What a synchronisation does: nothing, a new row for an organization without one, or an update.\<close>

lemma sync_cases:
  assumes "sync_subscription i provider ev db = Inr db'"
  obtains (unknown) "filter (\<lambda>o'. payments_customer_id o' = pe_customer_ref ev) (b_orgs db) = []" "db' = db"
  | (inserted) org s where "filter (\<lambda>o'. payments_customer_id o' = pe_customer_ref ev) (b_orgs db) = [org]"
      "lookup_by sub_org (org_id org) (subscriptions db) = None"
      "s = \<lparr>sub_id = i, sub_org = org_id org, sub_provider = provider,
                     sub_provider_id = or_else (pe_subscription_id ev) [], sub_status = or_else (pe_status ev) [],
                     sub_plan = or_else (pe_plan ev) FREE_PLAN, sub_period_end = pe_period_end ev\<rparr>"
      "sub_provider_id s \<notin> sub_provider_id ` set (subscriptions db)"
      "db' = db\<lparr>subscriptions := subscriptions db @ [s]\<rparr>"
  | (updated) org s ss where "filter (\<lambda>o'. payments_customer_id o' = pe_customer_ref ev) (b_orgs db) = [org]"
      "lookup_by sub_org (org_id org) (subscriptions db) = Some s"
      "ss = update_where (\<lambda>x. sub_org x = org_id org) (update_subscription provider ev) (subscriptions db)"
      "distinct (map sub_provider_id ss)" "db' = db\<lparr>subscriptions := ss\<rparr>"
proof (cases "filter (\<lambda>o'. payments_customer_id o' = pe_customer_ref ev) (b_orgs db)")
  case Nil
  then show thesis using unknown assms by (simp add: sync_subscription_def)
next
  case (Cons org os)
  then have one: "os = []" using assms by (cases os) (simp_all add: sync_subscription_def)
  show thesis
  proof (cases "lookup_by sub_org (org_id org) (subscriptions db)")
    case None
    then show thesis
      using inserted [OF _ None refl] Cons one assms
      by (auto simp: sync_subscription_def Let_def insert_unique_Some split: option.splits)
  next
    case (Some s)
    then show thesis
      using updated [OF _ Some refl] Cons one assms
      by (auto simp: sync_subscription_def Let_def split: if_splits)
  qed
qed

lemma sync_ok:
  assumes "sync_subscription i provider ev db = Inr db'" "billing_ok db"
  shows "billing_ok db' \<and> processed db' = processed db \<and> b_orgs db' = b_orgs db"
  using assms(1)
proof (cases rule: sync_cases)
  case unknown
  then show ?thesis using assms(2) by simp
next
  case (inserted org s)
  have "sub_org s \<notin> sub_org ` set (subscriptions db)" using inserted by (simp add: lookup_by_None)
  then show ?thesis using inserted(4,5) assms(2) by (simp add: billing_ok_def unique_on_def)
next
  case (updated org s ss)
  have "unique_on sub_org ss" unfolding updated(3) using assms(2)
    by (intro unique_on_update) (simp_all add: billing_ok_def)
  then show ?thesis using updated(4,5) assms(2) by (simp add: billing_ok_def)
qed

text \<open>A webhook is answered ok only when the event was new; it is then recorded.\<close>

lemma webhook_okD:
  assumes "payments_webhook p i b sg db = (Inr ''ok'', db')"
  obtains ev db1 where "pp_verify_webhook p b sg = Inr ev"
    "(pp_name p, pe_event_id ev) \<notin> event_key ` set (processed db)"
    "db1 = db\<lparr>processed := processed db @ [\<lparr>pv_provider = pp_name p, pv_event_id = pe_event_id ev, pv_type = pe_event_type ev\<rparr>]\<rparr>"
    "if pe_event_type ev \<in> set SUBSCRIPTION_EVENTS then sync_subscription i (pp_name p) ev db1 = Inr db' else db' = db1"
proof (cases "pp_verify_webhook p b sg")
  case (Inl e)
  then show thesis using assms by (cases e) (simp_all add: payments_webhook_def)
next
  case (Inr ev)
  have none: "lookup_by event_key (pp_name p, pe_event_id ev) (processed db) = None"
    using assms Inr by (auto simp: payments_webhook_def split: option.splits)
  then have new: "(pp_name p, pe_event_id ev) \<notin> event_key ` set (processed db)" by (simp add: lookup_by_None)
  show thesis
    using that [OF Inr new refl] assms Inr none
    by (auto simp: payments_webhook_def Let_def split: if_splits sum.splits)
qed

lemma webhook_ok_sync:
  assumes "payments_webhook p i b sg db = (Inr ''ok'', db')" "pp_verify_webhook p b sg = Inr ev"
    "pe_event_type ev \<in> set SUBSCRIPTION_EVENTS"
  shows "sync_subscription i (pp_name p) ev (db\<lparr>processed := processed db @ [\<lparr>pv_provider = pp_name p,
      pv_event_id = pe_event_id ev, pv_type = pe_event_type ev\<rparr>]\<rparr>) = Inr db'"
  using assms(1) by (rule webhook_okD) (use assms(2,3) in auto)

lemma webhook_result:
  "payments_webhook p i b sg db = (res, db') \<Longrightarrow> res \<noteq> Inr ''ok'' \<Longrightarrow> db' = db"
  by (auto simp: payments_webhook_def Let_def split: sum.splits option.splits exn.splits if_splits)

lemma webhook_ok_keeps:
  assumes "billing_ok db"
  shows "billing_ok (snd (payments_webhook p i b sg db))
    \<and> set (processed db) \<subseteq> set (processed (snd (payments_webhook p i b sg db)))"
proof (cases "fst (payments_webhook p i b sg db) = Inr ''ok''")
  case False
  then show ?thesis using webhook_result [OF prod.collapse [symmetric] False] assms by simp
next
  case True
  then have "payments_webhook p i b sg db = (Inr ''ok'', snd (payments_webhook p i b sg db))" by (metis prod.collapse)
  then obtain ev db1 where ev: "(pp_name p, pe_event_id ev) \<notin> event_key ` set (processed db)"
    "db1 = db\<lparr>processed := processed db @ [\<lparr>pv_provider = pp_name p, pv_event_id = pe_event_id ev, pv_type = pe_event_type ev\<rparr>]\<rparr>"
    "if pe_event_type ev \<in> set SUBSCRIPTION_EVENTS
     then sync_subscription i (pp_name p) ev db1 = Inr (snd (payments_webhook p i b sg db))
     else snd (payments_webhook p i b sg db) = db1"
    by (rule webhook_okD)
  have "billing_ok db1" using assms ev(1,2) by (simp add: billing_ok_def unique_on_def event_key_def)
  then show ?thesis using ev(2,3) sync_ok [of i "pp_name p" ev db1] by (auto split: if_splits)
qed

lemma billing_run_keeps:
  "billing_run db db' \<Longrightarrow> billing_ok db \<Longrightarrow> billing_ok db' \<and> set (processed db) \<subseteq> set (processed db')"
proof (induction rule: billing_run.induct)
  case (billing_more db db' db'')
  from billing_more(2) show ?case
  proof cases
    case (webhook p i b sg)
    then show ?thesis using billing_more webhook_ok_keeps by blast
  next
    case (account o')
    then show ?thesis using billing_more by (simp add: billing_ok_def)
  qed
qed simp

lemma replay_duplicate:
  assumes "billing_ok db" "payments_webhook p i b sg db = (Inr ''ok'', db1)" "billing_run db1 db2"
    and "pp_verify_webhook p b sg = Inr ev" "pp_verify_webhook p b' sg' = Inr ev'" "pe_event_id ev' = pe_event_id ev"
  shows "payments_webhook p i' b' sg' db2 = (Inr ''duplicate'', db2)"
proof -
  have ok1: "billing_ok db1" using webhook_ok_keeps [OF assms(1), of p i b sg] assms(2) by simp
  from assms(2) obtain db0 where "db0 = db\<lparr>processed := processed db @ [\<lparr>pv_provider = pp_name p,
      pv_event_id = pe_event_id ev, pv_type = pe_event_type ev\<rparr>]\<rparr>"
    "if pe_event_type ev \<in> set SUBSCRIPTION_EVENTS then sync_subscription i (pp_name p) ev db0 = Inr db1 else db1 = db0"
    "(pp_name p, pe_event_id ev) \<notin> event_key ` set (processed db)"
    using assms(4) by (elim webhook_okD) auto
  moreover then have "billing_ok db0" using assms(1) by (simp add: billing_ok_def unique_on_def event_key_def)
  ultimately have "processed db1 = processed db0" using sync_ok by (auto split: if_splits)
  then have "(pp_name p, pe_event_id ev) \<in> event_key ` set (processed db1)"
    using \<open>db0 = _\<close> by (simp add: event_key_def)
  then have "(pp_name p, pe_event_id ev') \<in> event_key ` set (processed db2)"
    using billing_run_keeps [OF assms(3) ok1] assms(6) by auto
  then obtain r where "lookup_by event_key (pp_name p, pe_event_id ev') (processed db2) = Some r"
    using lookup_by_None [of event_key "(pp_name p, pe_event_id ev')" "processed db2"] by fastforce
  then show ?thesis using assms(5) by (simp add: payments_webhook_def)
qed

section \<open>Properties\<close>

text \<open>A webhook whose signature the provider's SDK does not confirm is answered 400 and changes
  nothing, with either provider.\<close>

theorem forged_webhook_rejected:
  assumes "st_construct_event st body sg (or_else (stripe_webhook_secret cfg) []) = None"
    "\<not> rz_verify_signature rz body sg (or_else (razorpay_webhook_secret cfg) [])"
    and "p = stripe_adapter cfg st \<or> p = razorpay_adapter cfg rz loads"
  shows "payments_webhook p i body sg db = (Inl (HTTPException 400 ''Invalid webhook signature'' []), db)"
  using assms stripe.forged_webhook [of st body sg cfg i db] razorpay.forged_webhook [of rz body sg cfg loads i db]
  by auto

definition no_stripe :: "unit stripe_sdk" where
  "no_stripe = \<lparr>st_customer_create = (\<lambda>n i w. (Inr ''cus_1'', w)), st_session_create = (\<lambda>c p s t w. (Inr ''url'', w)),
    st_portal_create = (\<lambda>c r w. (Inr ''url'', w)), st_construct_event = (\<lambda>b sg sec. None),
    st_subscription_list = (\<lambda>c w. Inr (JDict [])), st_subscription_cancel = (\<lambda>s w. (Inr (), w))\<rparr>"

text \<open>A Razorpay whose signatures are all right; the body is the event's status and its number.\<close>

definition demo_razorpay :: "unit razorpay_sdk" where
  "demo_razorpay = \<lparr>rz_customer_create = (\<lambda>n i w. (Inr ''cust_1'', w)), rz_subscription_create = (\<lambda>p c n i w. (Inr ''url'', w)),
    rz_verify_signature = (\<lambda>b sg sec. sg = ''good''), rz_subscription_all = (\<lambda>c w. Inr (JDict [])),
    rz_subscription_cancel = (\<lambda>s w. (Inr (), w))\<rparr>"

definition demo_settings :: payments_settings where
  "demo_settings = \<lparr>stripe_plan_to_price = [(''pro'', ''price_1'')], stripe_webhook_secret = None,
    razorpay_plan_to_plan_id = [(''pro'', ''plan_1'')], razorpay_webhook_secret = None, razorpay_total_count = 12,
    razorpay_portal_url = ''u'', payments_success_url = ''u'', payments_cancel_url = ''u'',
    payments_portal_return_url = ''u'', payments_default_plan = ''pro'', payments_provider = ''razorpay''\<rparr>"

lemma forged_webhook_rejected_witness:
  "fst (payments_webhook (razorpay_adapter demo_settings demo_razorpay (\<lambda>b. None)) ''i'' ''x'' ''bad''
      \<lparr>b_orgs = [], subscriptions = [], processed = []\<rparr>)
    = Inl (HTTPException 400 ''Invalid webhook signature'' [])"
  by (subst forged_webhook_rejected [where st = no_stripe and rz = demo_razorpay and cfg = demo_settings and loads = "\<lambda>b. None"])
    (simp_all add: no_stripe_def demo_razorpay_def)


text \<open>C14. A replay is a no-op: once an event was processed, any delivery that carries the same event id
  from the same provider is answered \<open>duplicate\<close> and changes nothing, whatever happened since.\<close>

theorem webhook_replay_is_noop:
  assumes "billing_ok db" "payments_webhook p i b sg db = (Inr ''ok'', db1)" "billing_run db1 db2"
    and "pp_verify_webhook p b sg = Inr ev" "pp_verify_webhook p b' sg' = Inr ev'" "pe_event_id ev' = pe_event_id ev"
  shows "payments_webhook p i' b' sg' db2 = (Inr ''duplicate'', db2)"
  using assms by (rule replay_duplicate)

text \<open>The webhooks of the witnesses: Razorpay events of one subscription.\<close>

definition demo_event :: "string \<Rightarrow> json \<Rightarrow> int \<Rightarrow> string \<Rightarrow> json" where
  "demo_event name customer created status = JDict [(''event'', JStr name), (''created_at'', JInt created),
     (''payload'', JDict [(''subscription'', JDict [(''entity'', JDict [(''id'', JStr ''sub_1''),
        (''status'', JStr status), (''plan_id'', JStr ''plan_1''), (''customer_id'', customer)])])])]"

fun demo_loads :: "bytes \<Rightarrow> json option" where
  "demo_loads b = (if b = ''activated'' then Some (demo_event ''subscription.activated'' (JStr ''cust_1'') 10 ''active'')
     else if b = ''cancelled'' then Some (demo_event ''subscription.cancelled'' (JStr ''cust_1'') 30 ''cancelled'')
     else if b = ''charged'' then Some (demo_event ''subscription.charged'' (JStr ''cust_1'') 20 ''active'')
     else if b = ''halted'' then Some (demo_event ''subscription.updated'' (JStr ''cust_1'') 40 ''halted'')
     else if b = ''resumed'' then Some (demo_event ''subscription.updated'' (JStr ''cust_1'') 40 ''active'')
     else if b = ''nobody'' then Some (demo_event ''subscription.activated'' JNull 10 ''active'')
     else None)"

abbreviation demo_port :: "unit payments_port" where
  "demo_port \<equiv> razorpay_adapter demo_settings demo_razorpay demo_loads"

lemma demo_verify:
  "pp_verify_webhook demo_port b ''good'' = (case demo_loads b of
     None \<Rightarrow> Inl (ValueError ''JSONDecodeError'') | Some j \<Rightarrow> razorpay_to_payment_event demo_settings j)"
  by (simp add: razorpay_adapter_def razorpay_verify_webhook_def demo_razorpay_def)

lemma demo_to_event:
  "razorpay_to_payment_event demo_settings (demo_event name customer created status)
    = Inr \<lparr>pe_event_id = name @ '':sub_1:'' @ int_str created, pe_event_type = event_type_of RAZORPAY_EVENT_MAP (JStr name),
        pe_subscription_id = Some ''sub_1'', pe_status = normalize_status (Some status), pe_plan = Some ''pro'',
        pe_period_end = None, pe_customer_ref = jstr customer\<rparr>"
  by (simp add: razorpay_to_payment_event_def demo_event_def jget_def jstr_def jint_def to_naive_utc_def
      razorpay_plan_id_to_plan_def find_plan_def demo_settings_def)

lemmas demo_eval = demo_verify demo_to_event event_type_of_def RAZORPAY_EVENT_MAP_def normalize_status_def
  lower_def lower_char_def jstr_def

definition one_org_db :: "string option \<Rightarrow> billing_db" where
  "one_org_db c = \<lparr>b_orgs = [\<lparr>org_id = ''o1'', org_name = ''Acme'', org_slug = ''acme'', payments_customer_id = c\<rparr>],
     subscriptions = [], processed = []\<rparr>"

lemma demo_activated: "payments_webhook demo_port ''s1'' ''activated'' ''good'' (one_org_db (Some ''cust_1''))
    = (Inr ''ok'', \<lparr>b_orgs = b_orgs (one_org_db (Some ''cust_1'')),
        subscriptions = [\<lparr>sub_id = ''s1'', sub_org = ''o1'', sub_provider = ''razorpay'', sub_provider_id = ''sub_1'',
          sub_status = ''active'', sub_plan = ''pro'', sub_period_end = None\<rparr>],
        processed = [\<lparr>pv_provider = ''razorpay'', pv_event_id = ''subscription.activated:sub_1:'' @ int_str 10,
          pv_type = EVENT_SUBSCRIPTION_CREATED\<rparr>]\<rparr>)"
  by (simp add: payments_webhook_def demo_eval one_org_db_def Let_def SUBSCRIPTION_EVENTS_def
      sync_subscription_def insert_unique_def or_else_def) (simp add: razorpay_adapter_def)

lemma billing_ok_one: "billing_ok (one_org_db c)"
  by (simp add: billing_ok_def one_org_db_def)

lemma webhook_replay_is_noop_witness:
  "payments_webhook demo_port ''s2'' ''activated'' ''good''
      (snd (payments_webhook demo_port ''s1'' ''activated'' ''good'' (one_org_db (Some ''cust_1''))))
    = (Inr ''duplicate'', snd (payments_webhook demo_port ''s1'' ''activated'' ''good'' (one_org_db (Some ''cust_1''))))"
proof -
  let ?db = "snd (payments_webhook demo_port ''s1'' ''activated'' ''good'' (one_org_db (Some ''cust_1'')))"
  have first: "payments_webhook demo_port ''s1'' ''activated'' ''good'' (one_org_db (Some ''cust_1'')) = (Inr ''ok'', ?db)"
    by (simp add: demo_activated)
  obtain ev where ev: "pp_verify_webhook demo_port ''activated'' ''good'' = Inr ev" by (simp add: demo_eval)
  show ?thesis by (rule webhook_replay_is_noop [OF billing_ok_one first billing_nil ev ev refl])
qed

lemma event_plan:
  assumes ok: "billing_ok db" and done': "payments_webhook p i b sg db = (Inr ''ok'', db')"
    and ev: "pp_verify_webhook p b sg = Inr ev" "pe_event_type ev \<in> set SUBSCRIPTION_EVENTS"
    and org: "filter (\<lambda>o'. payments_customer_id o' = pe_customer_ref ev) (b_orgs db) = [org]"
    and vals: "pe_status ev = Some st" "st \<noteq> []" "pe_plan ev = Some plan" "plan \<noteq> []"
  shows "active_plan (org_id org) db' = (if st \<in> set ACTIVE_STATUSES then plan else FREE_PLAN)
    \<and> (oid \<noteq> org_id org \<longrightarrow> lookup_by sub_org oid (subscriptions db') = lookup_by sub_org oid (subscriptions db))"
proof -
  obtain db1 where db1: "subscriptions db1 = subscriptions db" "b_orgs db1 = b_orgs db"
    "sync_subscription i (pp_name p) ev db1 = Inr db'"
    by (rule that [OF _ _ webhook_ok_sync [OF done' ev]]) simp_all
  from db1(3) show ?thesis
  proof (cases rule: sync_cases)
    case unknown
    then show ?thesis using org db1 by simp
  next
    case (inserted org' s)
    then have "org' = org" using org db1 by simp
    then show ?thesis
      using inserted db1 vals by (simp add: active_plan_def lookup_by_append or_else_def split: option.split)
  next
    case (updated org' s ss)
    then have eq: "org' = org" using org db1 by simp
    have "lookup_by sub_org oid' ss = map_option (\<lambda>x. if sub_org x = org_id org then update_subscription (pp_name p) ev x else x)
        (lookup_by sub_org oid' (subscriptions db))" for oid'
      unfolding updated(3) eq db1(1) by (rule lookup_by_update) simp
    note seen = this
    have s: "sub_org s = org_id org" using updated(2) eq by (auto dest: lookup_by_SomeD)
    have "lookup_by sub_org oid ss = lookup_by sub_org oid (subscriptions db)" if "oid \<noteq> org_id org"
      using seen [of oid] that by (cases "lookup_by sub_org oid (subscriptions db)") (auto dest: lookup_by_SomeD)
    moreover have "lookup_by sub_org (org_id org) ss = Some (update_subscription (pp_name p) ev s)"
      using seen [of "org_id org"] updated(2) eq s db1(1) by simp
    ultimately show ?thesis
      using updated(5) vals by (simp add: active_plan_def update_subscription_def or_else_def)
  qed
qed

text \<open>An event sets the plan of its customer's organization: after a new subscription event with a
  status and a plan for the one organization with that customer, that organization has the event's
  plan if the status is an active one and the free plan otherwise, and no other organization's
  subscription changed. Nothing orders events: the last one delivered decides, also when it is older.\<close>

theorem event_sets_customer_plan:
  assumes ok: "billing_ok db" and done': "payments_webhook p i b sg db = (Inr ''ok'', db')"
    and ev: "pp_verify_webhook p b sg = Inr ev" "pe_event_type ev \<in> set SUBSCRIPTION_EVENTS"
    and org: "filter (\<lambda>o'. payments_customer_id o' = pe_customer_ref ev) (b_orgs db) = [org]"
    and vals: "pe_status ev = Some st" "st \<noteq> []" "pe_plan ev = Some plan" "plan \<noteq> []"
  shows "active_plan (org_id org) db' = (if st \<in> set ACTIVE_STATUSES then plan else FREE_PLAN)
    \<and> (oid \<noteq> org_id org \<longrightarrow> lookup_by sub_org oid (subscriptions db') = lookup_by sub_org oid (subscriptions db))"
  by (rule event_plan [OF assms])

text \<open>The witness: a charge made before the cancellation arrives after it and revives the plan.\<close>

definition cancelled_db :: billing_db where
  "cancelled_db = snd (payments_webhook demo_port ''s2'' ''cancelled'' ''good''
     (snd (payments_webhook demo_port ''s1'' ''activated'' ''good'' (one_org_db (Some ''cust_1'')))))"

lemma cancelled_db_eval:
  "payments_webhook demo_port ''s2'' ''cancelled'' ''good''
     (snd (payments_webhook demo_port ''s1'' ''activated'' ''good'' (one_org_db (Some ''cust_1'')))) = (Inr ''ok'', cancelled_db)"
  "b_orgs cancelled_db = b_orgs (one_org_db (Some ''cust_1''))"
  "active_plan ''o1'' cancelled_db = FREE_PLAN"
  by (simp_all add: cancelled_db_def demo_activated)
    (simp_all add: payments_webhook_def demo_eval one_org_db_def Let_def SUBSCRIPTION_EVENTS_def event_key_def
      sync_subscription_def or_else_def update_subscription_def active_plan_def ACTIVE_STATUSES_def)

lemma demo_late_charge:
  "\<exists>db'. payments_webhook demo_port ''s3'' ''charged'' ''good'' cancelled_db = (Inr ''ok'', db')"
  by (simp add: cancelled_db_def demo_activated)
    (simp add: payments_webhook_def demo_eval one_org_db_def Let_def SUBSCRIPTION_EVENTS_def event_key_def
      sync_subscription_def or_else_def update_subscription_def)

lemma cancelled_db_ok: "billing_ok cancelled_db"
  using webhook_ok_keeps [OF webhook_ok_keeps [OF billing_ok_one, THEN conjunct1], THEN conjunct1]
  by (simp add: cancelled_db_def)

lemma event_sets_customer_plan_witness:
  "active_plan ''o1'' cancelled_db = FREE_PLAN
    \<and> active_plan ''o1'' (snd (payments_webhook demo_port ''s3'' ''charged'' ''good'' cancelled_db)) = ''pro''"
proof -
  obtain db' where d: "payments_webhook demo_port ''s3'' ''charged'' ''good'' cancelled_db = (Inr ''ok'', db')"
    using demo_late_charge by blast
  obtain ev where ev: "pp_verify_webhook demo_port ''charged'' ''good'' = Inr ev"
    "pe_event_type ev \<in> set SUBSCRIPTION_EVENTS" "pe_status ev = Some ''active''" "pe_plan ev = Some ''pro''"
    "pe_customer_ref ev = Some ''cust_1''"
    by (simp add: demo_eval SUBSCRIPTION_EVENTS_def)
  have "filter (\<lambda>o'. payments_customer_id o' = pe_customer_ref ev) (b_orgs cancelled_db)
      = [\<lparr>org_id = ''o1'', org_name = ''Acme'', org_slug = ''acme'', payments_customer_id = Some ''cust_1''\<rparr>]"
    by (simp add: cancelled_db_eval(2) one_org_db_def ev(5))
  from event_sets_customer_plan [OF cancelled_db_ok d ev(1,2) this ev(3) _ ev(4)]
  show ?thesis using d cancelled_db_eval(3) by (simp add: ACTIVE_STATUSES_def)
qed

text \<open>An event that names no customer reaches an organization all the same: the query compares the
  column with \<open>None\<close>, so when exactly one organization has no customer yet, that organization is given
  the subscription, and with an active status its plan, of whoever paid.\<close>

theorem event_without_customer_captured:
  assumes ev: "pp_verify_webhook p b sg = Inr ev" "pe_event_type ev \<in> set SUBSCRIPTION_EVENTS" "pe_customer_ref ev = None"
    and new: "(pp_name p, pe_event_id ev) \<notin> event_key ` set (processed db)"
    and org: "filter (\<lambda>o'. payments_customer_id o' = None) (b_orgs db) = [org]"
      "org_id org \<notin> sub_org ` set (subscriptions db)"
    and vals: "pe_subscription_id ev = Some sid" "sid \<noteq> []" "sid \<notin> sub_provider_id ` set (subscriptions db)"
      "pe_status ev = Some st" "st \<in> set ACTIVE_STATUSES" "pe_plan ev = Some plan" "plan \<noteq> []"
  shows "fst (payments_webhook p i b sg db) = Inr ''ok''
    \<and> active_plan (org_id org) db = FREE_PLAN
    \<and> active_plan (org_id org) (snd (payments_webhook p i b sg db)) = plan"
proof -
  have none: "lookup_by sub_org (org_id org) (subscriptions db) = None" using org(2) by (simp add: lookup_by_None)
  have "st \<noteq> []" using vals(5) by (auto simp: ACTIVE_STATUSES_def)
  moreover have "lookup_by event_key (pp_name p, pe_event_id ev) (processed db) = None"
    using new by (simp add: lookup_by_None)
  ultimately show ?thesis
    using ev org(1) none vals
    by (simp add: payments_webhook_def Let_def sync_subscription_def insert_unique_def or_else_def
        active_plan_def lookup_by_append)
qed

lemma event_without_customer_captured_witness:
  "active_plan ''o1'' (snd (payments_webhook demo_port ''s1'' ''nobody'' ''good'' (one_org_db None))) = ''pro''"
proof -
  obtain ev where ev: "pp_verify_webhook demo_port ''nobody'' ''good'' = Inr ev"
    "pe_event_type ev \<in> set SUBSCRIPTION_EVENTS" "pe_customer_ref ev = None" "pe_subscription_id ev = Some ''sub_1''"
    "pe_status ev = Some ''active''" "pe_plan ev = Some ''pro''"
    by (simp add: demo_eval SUBSCRIPTION_EVENTS_def)
  from event_without_customer_captured [OF ev(1-3) _ _ _ ev(4) _ _ ev(5) _ ev(6), of "one_org_db None" _ "''s1''"]
  show ?thesis by (simp add: one_org_db_def ACTIVE_STATUSES_def)
qed

text \<open>Paid features need a live subscription: a member passes the guard of a feature outside the free
  plan only if the organization has a subscription with an active status on a plan that grants it.\<close>

theorem paid_feature_needs_active_subscription:
  assumes "require_feature feature (Inr m) db = Inr ()" "feature \<notin> set (features_for_plan (Some FREE_PLAN))"
  shows "\<exists>s \<in> set (subscriptions db). sub_org s = mb_org m \<and> sub_status s \<in> {''active'', ''trialing''}
    \<and> plan_has_feature (Some (sub_plan s)) feature"
  using assms
  by (auto simp: require_feature_def active_plan_def plan_has_feature_def ACTIVE_STATUSES_def
      split: if_splits option.splits dest: lookup_by_SomeD)

lemma paid_feature_needs_active_subscription_witness:
  "\<exists>s \<in> set (subscriptions (snd (payments_webhook demo_port ''s1'' ''activated'' ''good'' (one_org_db (Some ''cust_1''))))).
     sub_org s = ''o1'' \<and> sub_status s \<in> {''active'', ''trialing''}
    \<and> plan_has_feature (Some (sub_plan s)) ''advanced_analytics''"
  using paid_feature_needs_active_subscription [of "''advanced_analytics''"
      "\<lparr>mb_id = ''m'', mb_org = ''o1'', mb_user = ''u'', mb_role = MEMBER\<rparr>"
      "snd (payments_webhook demo_port ''s1'' ''activated'' ''good'' (one_org_db (Some ''cust_1'')))"]
  by (simp add: demo_activated require_feature_def active_plan_def plan_has_feature_def ACTIVE_STATUSES_def
      features_for_plan_def FEATURES_BY_PLAN_def or_else_def)

lemma razorpay_event_id:
  assumes "razorpay_to_payment_event cfg e = Inr ev" "pe_subscription_id ev = Some sid"
  shows "\<exists>name created. jget e ''event'' (JStr []) = Inr name \<and> jget e ''created_at'' JNull = Inr created
    \<and> pe_event_id ev = jtext name @ '':'' @ sid @ '':'' @ jtext created"
proof -
  have "jtext j = sid" if "jstr j = Some sid" for j using that by (cases j) (simp_all add: jstr_def)
  then show ?thesis using assms by (auto simp: razorpay_to_payment_event_def and_then_Inr)
qed

text \<open>Razorpay's synthesized event ids collide: an event of the same name for the same subscription
  created in the same second as a processed one is answered \<open>duplicate\<close> and dropped, whatever status
  or plan it carries.\<close>

theorem razorpay_events_of_one_second_collide:
  assumes first: "pp_verify_webhook (razorpay_adapter cfg sdk loads) b sg = razorpay_to_payment_event cfg e1"
    and second: "pp_verify_webhook (razorpay_adapter cfg sdk loads) b' sg' = razorpay_to_payment_event cfg e2"
    and evs: "razorpay_to_payment_event cfg e1 = Inr ev1" "razorpay_to_payment_event cfg e2 = Inr ev2"
    and same: "jget e1 ''event'' (JStr []) = jget e2 ''event'' (JStr [])"
      "jget e1 ''created_at'' JNull = jget e2 ''created_at'' JNull"
      "pe_subscription_id ev1 = Some sid" "pe_subscription_id ev2 = Some sid"
    and ok: "billing_ok db" "payments_webhook (razorpay_adapter cfg sdk loads) i b sg db = (Inr ''ok'', db1)"
  shows "payments_webhook (razorpay_adapter cfg sdk loads) i' b' sg' db1 = (Inr ''duplicate'', db1)"
proof (rule replay_duplicate [OF ok billing_nil first [unfolded evs(1)] second [unfolded evs(2)]])
  show "pe_event_id ev2 = pe_event_id ev1"
    using razorpay_event_id [OF evs(1) same(3)] razorpay_event_id [OF evs(2) same(4)] same(1,2) by auto
qed

lemma razorpay_events_of_one_second_collide_witness:
  "fst (payments_webhook demo_port ''s3'' ''halted'' ''good''
     (snd (payments_webhook demo_port ''s2'' ''resumed'' ''good'' (one_org_db (Some ''cust_1''))))) = Inr ''duplicate''"
proof -
  let ?e = "\<lambda>st. demo_event ''subscription.updated'' (JStr ''cust_1'') 40 st"
  have v: "pp_verify_webhook demo_port ''resumed'' ''good'' = razorpay_to_payment_event demo_settings (?e ''active'')"
    "pp_verify_webhook demo_port ''halted'' ''good'' = razorpay_to_payment_event demo_settings (?e ''halted'')"
    by (simp_all add: demo_verify)
  have "fst (payments_webhook demo_port ''s2'' ''resumed'' ''good'' (one_org_db (Some ''cust_1''))) = Inr ''ok''"
    by (simp add: payments_webhook_def demo_eval one_org_db_def Let_def SUBSCRIPTION_EVENTS_def
        sync_subscription_def insert_unique_def or_else_def)
  then have "payments_webhook demo_port ''s2'' ''resumed'' ''good'' (one_org_db (Some ''cust_1''))
      = (Inr ''ok'', snd (payments_webhook demo_port ''s2'' ''resumed'' ''good'' (one_org_db (Some ''cust_1''))))"
    by (metis prod.collapse)
  from razorpay_events_of_one_second_collide [OF v demo_to_event demo_to_event _ _ _ _ billing_ok_one this, of "''sub_1''" "''s3''"]
  show ?thesis by (simp add: demo_event_def jget_def)
qed

end
