(* ===== verification/RateLimitProps.thy ===== *)
theory RateLimitProps imports RateLimitDeps BillingProps begin

text \<open>
  The properties of the rate limiter: what a window of time admits, that a patient client is never
  limited, that a failing Redis never rejects, the lockout, the isolation of organizations and the
  staleness of cached plans.
\<close>

section \<open>Reachable stores\<close>

definition no_hits :: redis_db where
  "no_hits = \<lparr>buckets = Map.empty, counters = Map.empty\<rparr>"

lemma no_hits_ok: "key_ok l w t k no_hits"
  by (simp add: key_ok_def bucket_ok_def no_hits_def)

lemma times_from_append: "times_from t (es @ fs) \<Longrightarrow> times_from t es \<and> times_from t fs"
  by (induction es arbitrary: t) (auto simp: times_from_def)

lemma same_budget_append [simp]: "same_budget k l w (es @ fs) \<longleftrightarrow> same_budget k l w es \<and> same_budget k l w fs"
  by (simp add: same_budget_def)

lemma past_ok:
  "0 \<le> l \<Longrightarrow> 0 < w \<Longrightarrow> times_from t0 past \<Longrightarrow> same_budget k l w past \<Longrightarrow> t0 \<le> t \<Longrightarrow>
    list_all (\<lambda>(_, _, _, u). u \<le> t) past \<Longrightarrow> key_ok l w t k (hits_db past no_hits)"
  using hits_db_ok [OF no_hits_ok] by blast

section \<open>Plans in the cache\<close>

fun plan_lookups ::
  "ratelimit_settings \<Rightarrow> (string \<Rightarrow> uuid option) \<Rightarrow> (rat \<Rightarrow> billing_db) \<Rightarrow> (rat \<times> string) list \<Rightarrow> plan_cache \<Rightarrow> plan_cache" where
  "plan_lookups st parse_uuid h [] cache = cache"
| "plan_lookups st parse_uuid h ((t, oid) # ls) cache =
    plan_lookups st parse_uuid h ls (snd (plan_for_org st parse_uuid t oid (h t) cache))"

definition cache_ok ::
  "ratelimit_settings \<Rightarrow> (string \<Rightarrow> uuid option) \<Rightarrow> (rat \<Rightarrow> billing_db) \<Rightarrow> rat \<Rightarrow> plan_cache \<Rightarrow> bool" where
  "cache_ok st parse_uuid h now cache \<longleftrightarrow> length cache \<le> PLAN_CACHE_MAX
     \<and> (\<forall>oid plan e. (oid, plan, e) \<in> set cache \<longrightarrow>
          (\<exists>t u. e = t + of_int (ratelimit_plan_cache_seconds st) \<and> t \<le> now \<and> parse_uuid oid = Some u
             \<and> plan = active_plan u (h t)))"

lemma dict_set_props:
  "set (dict_set k v d) \<subseteq> insert (k, v) (set d) \<and> length (dict_set k v d) \<le> Suc (length d)"
  by (auto simp: dict_set_def split: if_splits)

lemma cache_ok_later: "cache_ok st p h t cache \<Longrightarrow> t \<le> t' \<Longrightarrow> cache_ok st p h t' cache"
  unfolding cache_ok_def by (meson order_trans)

lemma plan_for_org_result:
  assumes ok: "cache_ok st p h now cache" and res: "plan_for_org st p now oid (h now) cache = (Some plan, cache')"
  shows "\<exists>t u. t \<le> now \<and> p oid = Some u \<and> plan = active_plan u (h t)
    \<and> (t = now \<or> now < t + of_int (ratelimit_plan_cache_seconds st))"
proof (cases "\<exists>e. 0 < ratelimit_plan_cache_seconds st \<and> map_of cache oid = Some (plan, e) \<and> now < e")
  case True
  then obtain e where e: "(oid, plan, e) \<in> set cache" "now < e" by (auto dest: map_of_SomeD)
  then obtain t u where "e = t + of_int (ratelimit_plan_cache_seconds st)" "t \<le> now" "p oid = Some u"
    "plan = active_plan u (h t)"
    using ok unfolding cache_ok_def by meson
  then show ?thesis using e(2) by blast
next
  case False
  then obtain u where "p oid = Some u" "plan = active_plan u (h now)"
    using res by (auto simp: plan_for_org_def Let_def split: option.splits if_splits)
  then show ?thesis by blast
qed

lemma plan_for_org_ok:
  assumes ok: "cache_ok st p h now cache"
  shows "cache_ok st p h now (snd (plan_for_org st p now oid (h now) cache))"
proof (cases "snd (plan_for_org st p now oid (h now) cache) = cache")
  case True
  then show ?thesis using ok by simp
next
  case False
  let ?ttl = "ratelimit_plan_cache_seconds st"
  let ?room = "if PLAN_CACHE_MAX \<le> length cache then [] else cache"
  obtain u where u: "p oid = Some u"
    and new: "snd (plan_for_org st p now oid (h now) cache) = dict_set oid (active_plan u (h now), now + of_int ?ttl) ?room"
    using False by (auto simp: plan_for_org_def Let_def split: option.splits if_splits)
  have len: "length (dict_set oid (active_plan u (h now), now + of_int ?ttl) ?room) \<le> PLAN_CACHE_MAX"
    using dict_set_props [of oid "(active_plan u (h now), now + of_int ?ttl)" ?room] by (auto split: if_splits)
  have "\<exists>t u. e = t + of_int ?ttl \<and> t \<le> now \<and> p o' = Some u \<and> plan = active_plan u (h t)"
    if "(o', plan, e) \<in> set (dict_set oid (active_plan u (h now), now + of_int ?ttl) ?room)" for o' plan e
  proof -
    from that dict_set_props [of oid "(active_plan u (h now), now + of_int ?ttl)" ?room]
    have "(o', plan, e) = (oid, active_plan u (h now), now + of_int ?ttl) \<or> (o', plan, e) \<in> set cache"
      by (auto split: if_splits)
    then show ?thesis using ok u unfolding cache_ok_def by blast
  qed
  then show ?thesis unfolding new cache_ok_def using len by blast
qed

lemma plan_lookups_ok:
  "cache_ok st p h t0 cache \<Longrightarrow> sorted (t0 # map fst ls) \<Longrightarrow> list_all (\<lambda>(t, _). t \<le> now) ls \<Longrightarrow> t0 \<le> now \<Longrightarrow>
    cache_ok st p h now (plan_lookups st p h ls cache)"
proof (induction ls arbitrary: t0 cache)
  case Nil
  then show ?case using cache_ok_later by simp
next
  case (Cons l ls)
  obtain t oid where l: "l = (t, oid)" by (cases l)
  then have "cache_ok st p h t (snd (plan_for_org st p t oid (h t) cache))"
    using Cons.prems cache_ok_later plan_for_org_ok by (metis fst_conv list.simps(9) sorted2)
  then show ?case using Cons.IH [of t] Cons.prems l by simp
qed

section \<open>Properties\<close>

text \<open>C25. The budget: whatever was requested before and whatever else is requested meanwhile, a window
  of time from \<open>t\<close> to \<open>t'\<close> admits on one key at most \<open>limit\<close> hits and those the refill pays for,
  \<open>(t' - t) * limit / window\<close>.\<close>

theorem hits_within_budget:
  assumes "0 \<le> l" "0 < w" "times_from t0 past" "t0 \<le> t" "list_all (\<lambda>(_, _, _, u). u \<le> t) past"
    "times_from t es" "list_all (\<lambda>(_, _, _, u). u \<le> t') es" "t \<le> t'" "same_budget k l w (past @ es)"
  shows "of_int (allowed_hits k es (hits_db past no_hits)) \<le> of_int l + (t' - t) * (of_int l / of_int w)"
proof -
  let ?db = "hits_db past no_hits"
  have ok: "key_ok l w t k ?db" using past_ok assms by simp
  have "of_int (allowed_hits k es ?db) \<le> key_level l w t k ?db + (t' - t) * (of_int l / of_int w)"
    using allowed_hits_bound [OF assms(1,2) ok] assms by simp
  moreover have "key_level l w t k ?db \<le> of_int l"
    using level_bounds ok assms(1,2) by (simp add: key_level_def key_ok_def)
  ultimately show ?thesis by simp
qed

lemma hits_within_budget_witness:
  "of_int (allowed_hits ''k'' [(''k'', 2, 60, 0), (''k'', 2, 60, 1), (''x'', 9, 9, 1), (''k'', 2, 60, 2)] no_hits)
    \<le> (2 + 2 * (2 / 60) :: rat)"
  using hits_within_budget [of 2 60 0 "[]" 0 "[(''k'', 2, 60, 0), (''k'', 2, 60, 1), (''x'', 9, 9, 1), (''k'', 2, 60, 2)]" 2 "''k''"]
  by (simp add: times_from_def same_budget_def)

text \<open>A patient client is never limited: a hit that comes at least \<open>window / limit\<close> seconds after
  every earlier one is allowed.\<close>

theorem patient_hit_allowed:
  assumes "1 \<le> l" "0 < w" "times_from t0 past" "t0 \<le> t" "list_all (\<lambda>(_, _, _, u). u \<le> t) past"
    "same_budget k l w past" "t + of_int w / of_int l \<le> now"
  shows "fst (hit Working now k l w (hits_db past no_hits))"
proof -
  let ?db = "hits_db past no_hits"
  let ?rate = "of_int l / of_int w :: rat"
  have rate: "0 < ?rate" "(1 :: rat) \<le> of_int l" using assms(1,2) by simp_all
  have ok: "key_ok l w t k ?db" using past_ok assms by simp
  have "of_int w / of_int l * ?rate = 1" using assms(1,2) by simp
  then have paid: "1 \<le> (now - t) * ?rate"
    using assms(7) mult_right_mono [of "of_int w / of_int l" "now - t" ?rate] rate(1) by simp
  have "0 \<le> (of_int w / of_int l :: rat)" using assms(1,2) by simp
  then have tn: "t \<le> now" using assms(7) by linarith
  have "1 \<le> key_level l w now k ?db"
  proof (cases "buckets ?db (bucket_key k)")
    case None
    then show ?thesis using rate(2) by (simp add: key_level_def level_def)
  next
    case (Some p)
    obtain b e where p: "p = (b, e)" by (cases p)
    have b: "0 \<le> tokens b" "ts b \<le> t" using ok Some p by (auto simp: key_ok_def bucket_ok_def)
    have "(now - t) * ?rate \<le> (now - ts b) * ?rate" using b(2) rate(1) by (intro mult_right_mono) auto
    then have "1 \<le> tokens b + (now - ts b) * ?rate" using paid b(1) by linarith
    then show ?thesis using Some p b(2) tn rate(2) by (simp add: key_level_def level_def)
  qed
  then show ?thesis using hit_same [OF ok _ assms(2) tn] assms(1) by simp
qed

lemma patient_hit_allowed_witness:
  "fst (hit Working 61 ''k'' 1 60 (hits_db [(''k'', 1, 60, 0), (''k'', 1, 60, 1)] no_hits))"
  by (rule patient_hit_allowed [where t = 1 and ?t0.0 = 0]) (simp_all add: times_from_def same_budget_def)

text \<open>The limiter fails open: without a Redis, or with one that fails, no request is limited and
  nobody is locked out.\<close>

theorem limiter_fails_open:
  assumes "mode \<noteq> Working" "0 < ratelimit_lockout_threshold st"
  shows "fst (rate_limit (redis_limiter mode) st parse_uuid tier now r db cache s) = Inr ()
    \<and> fst (enforce_auth_rate_limit (redis_limiter mode) st now r s) = Inr ()
    \<and> assert_not_locked_out (redis_limiter mode) st sha now i s = Inr ()"
proof -
  have "fst (hit mode t k l w d) = True" "failure_count mode t k d = 0" for t k l w d
    using assms(1) by (cases mode; simp add: hit_def via_def failure_count_def)+
  then show ?thesis
    using assms(2)
    by (simp add: rate_limit_def enforce_auth_rate_limit_def assert_not_locked_out_def redis_limiter_def Let_def
        case_prod_beta)
qed

definition demo_limits :: ratelimit_settings where
  "demo_limits = \<lparr>ratelimit_enabled = True, ratelimit_default_limit = 60, ratelimit_default_window_seconds = 60,
    ratelimit_auth_limit = 10, ratelimit_auth_window_seconds = 60, ratelimit_lockout_threshold = 3,
    ratelimit_lockout_window_seconds = 900, ratelimit_plan_cache_seconds = 60\<rparr>"

definition usage_request :: "string \<Rightarrow> web_request" where
  "usage_request o' = \<lparr>rq_client = Some ''10.0.0.1'', rq_path = ''/orgs/'' @ o' @ ''/usage'', rq_path_params = [(''org_id'', o')]\<rparr>"

lemma limiter_fails_open_witness:
  "fst (enforce_auth_rate_limit (redis_limiter (Failing True)) demo_limits 0 (usage_request ''o1'') no_hits) = Inr ()"
  using limiter_fails_open [of "Failing True" demo_limits] by (simp add: demo_limits_def)

text \<open>C37. The lockout: \<open>threshold\<close> failed logins of one identity, the first at \<open>t\<close> and the others within
  the window it opens, lock that identity until that window ends and no longer; a successful
  login forgets them.\<close>

theorem failed_logins_lock_out:
  assumes "ratelimit_enabled st" "0 < ratelimit_lockout_window_seconds st" "0 < ratelimit_lockout_threshold st"
    and "\<forall>n e. redis_failures s (hashed sha i) = Some (n, e) \<longrightarrow> e \<le> t"
    and "\<forall>u \<in> set us. u < t + of_int (ratelimit_lockout_window_seconds st)"
    and "ratelimit_lockout_threshold st = 1 + int (length us)"
  shows "(assert_not_locked_out (redis_limiter Working) st sha now i
        (failures_at (redis_limiter Working) st sha i (t # us) s) = Inr ()
      \<longleftrightarrow> t + of_int (ratelimit_lockout_window_seconds st) \<le> now)
    \<and> assert_not_locked_out (redis_limiter Working) st sha now i (clear_login_failures (redis_limiter Working) st sha i
        (failures_at (redis_limiter Working) st sha i (t # us) s)) = Inr ()"
  using redis.lockout [OF assms(1,2,4,5), of now] redis.cleared [OF assms(1,3)] assms(3,6) by (auto simp: not_less)

lemma failed_logins_lock_out_witness:
  "assert_not_locked_out (redis_limiter Working) demo_limits (\<lambda>b. b) 5 ''a@x''
      (failures_at (redis_limiter Working) demo_limits (\<lambda>b. b) ''a@x'' [1, 2, 3] no_hits) \<noteq> Inr ()"
  using failed_logins_lock_out [of demo_limits no_hits "\<lambda>b. b" "''a@x''" 1 "[2, 3]" 5]
  by (simp add: demo_limits_def redis_failures_def no_hits_def)

text \<open>Organizations do not spend each other's budgets: whatever one organization requests, on any
  route, the next decision for another organization is the same.\<close>

theorem organizations_are_isolated:
  assumes "map_of (rq_path_params r1) ''org_id'' = Some a" "map_of (rq_path_params r2) ''org_id'' = Some b"
    "a \<noteq> []" "b \<noteq> []" "a \<noteq> b" "CHR '':'' \<notin> set a" "CHR '':'' \<notin> set b"
  shows "fst (rate_limit (redis_limiter Working) st pu (Some t2) now2 r2 db2 c2
        (snd (snd (rate_limit (redis_limiter Working) st pu (Some t1) now1 r1 db1 c1 s))))
    = fst (rate_limit (redis_limiter Working) st pu (Some t2) now2 r2 db2 c2 s)"
proof -
  let ?k1 = "budget_scope r1 @ '':'' @ route_key r1" and ?k2 = "budget_scope r2 @ '':'' @ route_key r2"
  have k: "budget_scope r1 = ''org:'' @ a" "budget_scope r2 = ''org:'' @ b"
    using assms(1-4) by (cases a; cases b; simp add: budget_scope_def)+
  have "?k1 \<noteq> ?k2"
  proof
    assume "?k1 = ?k2"
    then have "a @ CHR '':'' # route_key r1 = b @ CHR '':'' # route_key r2" unfolding k by simp
    then show False using split_at_inject [OF assms(6,7)] assms(5) by blast
  qed
  then have "buckets (snd (hit Working now1 ?k1 l w s)) (bucket_key ?k2) = buckets s (bucket_key ?k2)" for l w
    by (rule hit_other)
  then have "fst (hit Working now2 ?k2 l2 w2 (snd (hit Working now1 ?k1 l w s))) = fst (hit Working now2 ?k2 l2 w2 s)"
    for l w l2 w2
    by (simp add: hit_def via_def bucket_script_def get_live_def Let_def)
  then show ?thesis
    by (simp add: rate_limit_def redis_limiter_def split: prod.split) (metis fst_conv snd_conv)
qed

lemma organizations_are_isolated_witness:
  "fst (rate_limit (redis_limiter Working) demo_limits Some (Some \<lparr>tier_limit = 1, window_seconds = 60\<rparr>) 2 (usage_request ''o2'')
        (one_org_db None) [] (snd (snd (rate_limit (redis_limiter Working) demo_limits Some
          (Some \<lparr>tier_limit = 1, window_seconds = 60\<rparr>) 1 (usage_request ''o1'') (one_org_db None) [] no_hits))))
    = fst (rate_limit (redis_limiter Working) demo_limits Some (Some \<lparr>tier_limit = 1, window_seconds = 60\<rparr>) 2
        (usage_request ''o2'') (one_org_db None) [] no_hits)"
  by (rule organizations_are_isolated [of _ "''o1''" _ "''o2''"]) (simp_all add: usage_request_def)

text \<open>Plans are at most one cache period old: after any lookups, a plan that is answered is the
  organization's plan at the moment or at some instant less than the period ago, and the cache
  holds at most ten thousand entries.\<close>

theorem cached_plan_is_recent:
  assumes "sorted (t0 # map fst ls)" "list_all (\<lambda>(t, _). t \<le> now) ls" "t0 \<le> now"
    and "plan_for_org st p now oid (h now) (plan_lookups st p h ls []) = (Some plan, cache')"
  shows "length cache' \<le> PLAN_CACHE_MAX \<and> (\<exists>t u. t \<le> now \<and> p oid = Some u \<and> plan = active_plan u (h t)
    \<and> (t = now \<or> now < t + of_int (ratelimit_plan_cache_seconds st)))"
proof -
  have "cache_ok st p h t0 []" by (simp add: cache_ok_def)
  from plan_lookups_ok [OF this assms(1-3)] have ok: "cache_ok st p h now (plan_lookups st p h ls [])" .
  have "length cache' \<le> PLAN_CACHE_MAX"
    using plan_for_org_ok [OF ok, of oid] assms(4) by (simp add: cache_ok_def)
  then show ?thesis using plan_for_org_result [OF ok assms(4)] by blast
qed

lemma cached_plan_is_recent_witness:
  "\<exists>t u. t \<le> 61 \<and> Some ''o1'' = Some u \<and> ''free'' = active_plan u (one_org_db None) \<and> (t = 61 \<or> 61 < t + (60 :: rat))"
proof -
  have "plan_for_org demo_limits Some 61 ''o1'' (one_org_db None) (plan_lookups demo_limits Some (\<lambda>_. one_org_db None)
      [(2, ''o1''), (3, ''o1'')] []) = (Some ''free'', [(''o1'', ''free'', 62)])"
    by (simp add: plan_for_org_def demo_limits_def dict_set_def active_plan_def one_org_db_def Let_def)
  from cached_plan_is_recent [OF _ _ _ this, of 0] show ?thesis
    by (simp add: demo_limits_def)
qed

section \<open>Spellings of an organization\<close>

text \<open>The budget of an organization is kept under its id as the path spells it, and a UUID has many spellings (upper and
  lower case, with and without hyphens): requests under one spelling leave the budget of another as it is.\<close>

lemma colon_split: "CHR '':'' \<notin> set a \<Longrightarrow> CHR '':'' \<notin> set b \<Longrightarrow> a @ CHR '':'' # x = b @ CHR '':'' # y \<Longrightarrow> a = b"
proof -
  assume "CHR '':'' \<notin> set a" "CHR '':'' \<notin> set b" and eq: "a @ CHR '':'' # x = b @ CHR '':'' # y"
  moreover have "takeWhile (\<lambda>c. c \<noteq> CHR '':'') (d @ CHR '':'' # z) = d" if "CHR '':'' \<notin> set d" for d z
    using that by (induction d) auto
  ultimately show "a = b" by metis
qed

lemma spellings_do_not_share:
  assumes "map_of (rq_path_params r1) ''org_id'' = Some o1" "map_of (rq_path_params r2) ''org_id'' = Some o2"
    and "o1 \<noteq> []" "o2 \<noteq> []" "CHR '':'' \<notin> set o1" "CHR '':'' \<notin> set o2" "o1 \<noteq> o2"
  shows "buckets (snd (snd (rate_limit (redis_limiter Working) st parse_uuid tier now r1 db cache s)))
      (bucket_key (budget_scope r2 @ '':'' @ route_key r2))
    = buckets s (bucket_key (budget_scope r2 @ '':'' @ route_key r2))"
proof -
  have scopes: "budget_scope r1 = ''org:'' @ o1" "budget_scope r2 = ''org:'' @ o2"
    using assms(1-4) by (auto simp: budget_scope_def split: list.split)
  have "budget_scope r1 @ '':'' @ route_key r1 \<noteq> budget_scope r2 @ '':'' @ route_key r2"
    unfolding scopes using colon_split [OF assms(5,6)] assms(7) by auto
  note other = hit_other [OF this]
  obtain eff c where e: "(case tier of Some t \<Rightarrow> (t, cache)
      | None \<Rightarrow> (case request_plan st parse_uuid now r1 db cache of (plan, c) \<Rightarrow> (tier_for_plan st plan, c))) = (eff, c)"
    by (meson surj_pair)
  obtain a s' where h: "hit Working now (budget_scope r1 @ '':'' @ route_key r1) (tier_limit eff) (window_seconds eff) s = (a, s')"
    by (meson surj_pair)
  show ?thesis
    using other [of Working now "tier_limit eff" "window_seconds eff" s] h
    unfolding rate_limit_def e by (simp add: redis_limiter_def)
qed

end
