(* ===== verification/ApiKeys.thy ===== *)
theory ApiKeys imports Tenancy begin

text \<open>
  API keys (\<open>app/api_keys/security.py\<close>, \<open>models.py\<close>, \<open>router.py\<close>, \<open>dependencies.py.jinja\<close>): minting,
  listing and revoking the keys of an organization, and the authentication by key or user token.
  The random parts of a key, the clock and SHA-256 in hexadecimal are arguments.
\<close>

section \<open>Keys\<close>

definition BRAND :: string where
  "BRAND = ''wsk''"

definition hash_secret :: "(bytes \<Rightarrow> string) \<Rightarrow> string \<Rightarrow> string" where
  "hash_secret sha secret = sha (utf8 secret)"

text \<open>\<open>token_hex(4)\<close> and \<open>token_urlsafe(32)\<close> are the arguments; the result is key, prefix and hash.\<close>

definition generate_key :: "(bytes \<Rightarrow> string) \<Rightarrow> string \<Rightarrow> string \<Rightarrow> string \<times> string \<times> string" where
  "generate_key sha hex secret =
    (let prefix = BRAND @ ''_'' @ hex in (prefix @ ''.'' @ secret, prefix, hash_secret sha secret))"

definition split_key :: "string \<Rightarrow> (string \<times> string) option" where
  "split_key raw = (case partition_at (CHR ''.'') raw of
     None \<Rightarrow> None
   | Some (prefix, secret) \<Rightarrow> if prefix = [] \<or> secret = [] then None else Some (prefix, secret))"

definition verify_secret :: "(bytes \<Rightarrow> string) \<Rightarrow> string \<Rightarrow> string \<Rightarrow> bool" where
  "verify_secret sha secret hashed = (hash_secret sha secret = hashed)"

record api_key =
  ak_id :: uuid
  ak_org :: uuid
  ak_created_by :: uuid
  ak_name :: string
  ak_prefix :: string
  ak_hashed :: string
  ak_scopes :: "string option"
  ak_expires_at :: "datetime option"
  ak_last_used_at :: "datetime option"
  ak_revoked_at :: "datetime option"

text \<open>\<open>api_key.scopes.split() if api_key.scopes else []\<close>.\<close>

definition scope_list :: "string option \<Rightarrow> string list" where
  "scope_list s = (case s of None \<Rightarrow> [] | Some t \<Rightarrow> if t = [] then [] else split_ws t)"

record api_key_read =
  kr_id :: uuid
  kr_org :: uuid
  kr_created_by :: uuid
  kr_name :: string
  kr_prefix :: string
  kr_scopes :: "string list"
  kr_expires_at :: "datetime option"
  kr_last_used_at :: "datetime option"
  kr_revoked_at :: "datetime option"

definition to_read :: "api_key \<Rightarrow> api_key_read" where
  "to_read k = \<lparr>kr_id = ak_id k, kr_org = ak_org k, kr_created_by = ak_created_by k, kr_name = ak_name k,
    kr_prefix = ak_prefix k, kr_scopes = scope_list (ak_scopes k), kr_expires_at = ak_expires_at k,
    kr_last_used_at = ak_last_used_at k, kr_revoked_at = ak_revoked_at k\<rparr>"

record api_key_create =
  kc_name :: string
  kc_scopes :: "string list option"
  kc_expires_in_days :: "int option"

section \<open>Handlers\<close>

definition days :: "int \<Rightarrow> datetime" where
  "days n = seconds (n * 86400)"

text \<open>Minting: the answer is the stored key and, this once, the full key.\<close>

definition create_api_key ::
  "(bytes \<Rightarrow> string) \<Rightarrow> uuid \<Rightarrow> string \<Rightarrow> string \<Rightarrow> datetime \<Rightarrow> uuid \<Rightarrow> api_key_create \<Rightarrow> uuid
    \<Rightarrow> tenancy_db \<Rightarrow> api_key list \<Rightarrow> (exn + api_key_read \<times> string) \<times> api_key list" where
  "create_api_key sha new_id hex secret now org payload user tdb keys =
    (case get_current_membership org user tdb of
       Inl e \<Rightarrow> (Inl e, keys)
     | Inr m \<Rightarrow>
         (case generate_key sha hex secret of (full_key, prefix, hashed_secret) \<Rightarrow>
           let k = \<lparr>ak_id = new_id, ak_org = org, ak_created_by = mb_user m, ak_name = kc_name payload,
                 ak_prefix = prefix, ak_hashed = hashed_secret,
                 ak_scopes = (case kc_scopes payload of None \<Rightarrow> None
                    | Some ss \<Rightarrow> if ss = [] then None else Some (join_with '' '' ss)),
                 ak_expires_at = map_option (\<lambda>d. now + days d) (kc_expires_in_days payload),
                 ak_last_used_at = None, ak_revoked_at = None\<rparr>
           in case insert_unique ak_prefix k keys of
                None \<Rightarrow> (Inl IntegrityError, keys)
              | Some keys' \<Rightarrow> (Inr (to_read k, full_key), keys')))"

definition list_api_keys :: "uuid \<Rightarrow> uuid \<Rightarrow> tenancy_db \<Rightarrow> api_key list \<Rightarrow> exn + api_key_read list" where
  "list_api_keys org user tdb keys =
    and_then (get_current_membership org user tdb)
      (\<lambda>_. Inr (map to_read (filter (\<lambda>k. ak_org k = org) keys)))"

definition revoke_api_key ::
  "datetime \<Rightarrow> uuid \<Rightarrow> uuid \<Rightarrow> uuid \<Rightarrow> tenancy_db \<Rightarrow> api_key list \<Rightarrow> (exn + unit) \<times> api_key list" where
  "revoke_api_key now org key_id user tdb keys =
    (case get_current_membership org user tdb of
       Inl e \<Rightarrow> (Inl e, keys)
     | Inr _ \<Rightarrow>
         (case find (\<lambda>k. ak_id k = key_id \<and> ak_org k = org) keys of
            None \<Rightarrow> (Inl (HTTPException 404 ''API key not found'' []), keys)
          | Some k \<Rightarrow> (Inr (), update_where (\<lambda>x. ak_id x = ak_id k) (\<lambda>x. x\<lparr>ak_revoked_at := Some now\<rparr>) keys)))"

section \<open>Authentication\<close>

definition unauthorized :: exn where
  "unauthorized = HTTPException 401 ''Not authenticated'' [(''WWW-Authenticate'', ''Bearer'')]"

record principal =
  pr_user_id :: uuid
  pr_organization_id :: "uuid option"
  pr_api_key_id :: "uuid option"
  pr_scopes :: "string list"
  pr_method :: string

text \<open>The header (absent or empty is falsy), the user the token resolved to, if any, and the clock.\<close>

definition get_principal ::
  "(bytes \<Rightarrow> string) \<Rightarrow> string option \<Rightarrow> uuid option \<Rightarrow> datetime \<Rightarrow> api_key list
    \<Rightarrow> (exn + principal) \<times> api_key list" where
  "get_principal sha x_api_key user now keys =
    (case x_api_key of
       Some (c # cs) \<Rightarrow>
         (case split_key (c # cs) of
            None \<Rightarrow> (Inl unauthorized, keys)
          | Some (prefix, secret) \<Rightarrow>
              (case lookup_by ak_prefix prefix keys of
                 None \<Rightarrow> (Inl unauthorized, keys)
               | Some k \<Rightarrow>
                   if \<not> verify_secret sha secret (ak_hashed k) then (Inl unauthorized, keys)
                   else if ak_revoked_at k \<noteq> None then (Inl unauthorized, keys)
                   else if (case ak_expires_at k of None \<Rightarrow> False | Some e \<Rightarrow> e \<le> now) then (Inl unauthorized, keys)
                   else (Inr \<lparr>pr_user_id = ak_created_by k, pr_organization_id = Some (ak_org k),
                            pr_api_key_id = Some (ak_id k), pr_scopes = scope_list (ak_scopes k),
                            pr_method = ''api_key''\<rparr>,
                         update_where (\<lambda>x. ak_id x = ak_id k) (\<lambda>x. x\<lparr>ak_last_used_at := Some now\<rparr>) keys)))
     | _ \<Rightarrow>
         (case user of
            Some u \<Rightarrow> (Inr \<lparr>pr_user_id = u, pr_organization_id = None, pr_api_key_id = None, pr_scopes = [],
                         pr_method = ''jwt''\<rparr>, keys)
          | None \<Rightarrow> (Inl unauthorized, keys)))"

text \<open>What a caller is told about itself.\<close>

record principal_read =
  pd_user_id :: uuid
  pd_organization_id :: "uuid option"
  pd_api_key_id :: "uuid option"
  pd_scopes :: "string list"
  pd_auth_method :: string

definition whoami ::
  "(bytes \<Rightarrow> string) \<Rightarrow> string option \<Rightarrow> uuid option \<Rightarrow> datetime \<Rightarrow> api_key list
    \<Rightarrow> (exn + principal_read) \<times> api_key list" where
  "whoami sha x_api_key user now keys =
    (case get_principal sha x_api_key user now keys of
       (Inl e, keys') \<Rightarrow> (Inl e, keys')
     | (Inr p, keys') \<Rightarrow>
         (Inr \<lparr>pd_user_id = pr_user_id p, pd_organization_id = pr_organization_id p, pd_api_key_id = pr_api_key_id p,
            pd_scopes = pr_scopes p, pd_auth_method = pr_method p\<rparr>, keys'))"

section \<open>Lemmas\<close>

definition keys_unique :: "api_key list \<Rightarrow> bool" where
  "keys_unique keys \<longleftrightarrow> unique_on ak_prefix keys \<and> unique_on ak_id keys"

text \<open>A key of the table that accepts a presented key at an instant.\<close>

definition accepts :: "(bytes \<Rightarrow> string) \<Rightarrow> datetime \<Rightarrow> string \<Rightarrow> api_key \<Rightarrow> bool" where
  "accepts sha now raw k \<longleftrightarrow> (\<exists>secret. split_key raw = Some (ak_prefix k, secret) \<and> verify_secret sha secret (ak_hashed k))
     \<and> ak_revoked_at k = None \<and> (\<forall>e. ak_expires_at k = Some e \<longrightarrow> now < e)"

definition principal_of :: "api_key \<Rightarrow> principal" where
  "principal_of k = \<lparr>pr_user_id = ak_created_by k, pr_organization_id = Some (ak_org k),
     pr_api_key_id = Some (ak_id k), pr_scopes = scope_list (ak_scopes k), pr_method = ''api_key''\<rparr>"

lemma get_principal_key:
  assumes "raw \<noteq> []"
  shows "get_principal sha (Some raw) user now keys =
    (case (case split_key raw of None \<Rightarrow> None | Some (p, s) \<Rightarrow> lookup_by ak_prefix p keys) of
       None \<Rightarrow> (Inl unauthorized, keys)
     | Some k \<Rightarrow> if accepts sha now raw k
         then (Inr (principal_of k), update_where (\<lambda>x. ak_id x = ak_id k) (\<lambda>x. x\<lparr>ak_last_used_at := Some now\<rparr>) keys)
         else (Inl unauthorized, keys))"
proof (cases "split_key raw")
  case None
  then show ?thesis using assms by (cases raw) (simp_all add: get_principal_def)
next
  case (Some ps)
  obtain p s where ps: "ps = (p, s)" by (cases ps)
  show ?thesis
  proof (cases "lookup_by ak_prefix p keys")
    case None
    then show ?thesis using assms Some ps by (cases raw) (simp_all add: get_principal_def)
  next
    case (Some k)
    have "accepts sha now raw k \<longleftrightarrow> verify_secret sha s (ak_hashed k) \<and> ak_revoked_at k = None
        \<and> \<not> (case ak_expires_at k of None \<Rightarrow> False | Some e \<Rightarrow> e \<le> now)"
      using \<open>split_key raw = Some ps\<close> ps Some
      by (auto simp: accepts_def not_le dest: lookup_by_SomeD split: option.splits)
    then show ?thesis
      using assms \<open>split_key raw = Some ps\<close> ps Some
      by (cases raw) (auto simp: get_principal_def principal_of_def)
  qed
qed

text \<open>What happens to a table of keys: rows are added, and change only their two time stamps.\<close>

inductive keys_step :: "api_key list \<Rightarrow> api_key list \<Rightarrow> bool" where
  mint: "new_id \<notin> ak_id ` set keys \<Longrightarrow>
    keys_step keys (snd (create_api_key sha new_id hex secret now org payload user tdb keys))"
| revoke: "keys_step keys (snd (revoke_api_key now org key_id user tdb keys))"
| authenticate: "keys_step keys (snd (get_principal sha x user now keys))"

inductive keys_run :: "api_key list \<Rightarrow> api_key list \<Rightarrow> bool" where
  keys_nil: "keys_run keys keys"
| keys_more: "keys_run keys keys' \<Longrightarrow> keys_step keys' keys'' \<Longrightarrow> keys_run keys keys''"

definition same_key :: "api_key \<Rightarrow> api_key \<Rightarrow> bool" where
  "same_key k k' \<longleftrightarrow> ak_id k' = ak_id k \<and> ak_org k' = ak_org k \<and> ak_created_by k' = ak_created_by k
     \<and> ak_prefix k' = ak_prefix k \<and> ak_hashed k' = ak_hashed k \<and> ak_scopes k' = ak_scopes k
     \<and> ak_expires_at k' = ak_expires_at k \<and> (ak_revoked_at k \<noteq> None \<longrightarrow> ak_revoked_at k' \<noteq> None)"

definition keeps_keys :: "api_key list \<Rightarrow> api_key list \<Rightarrow> bool" where
  "keeps_keys keys keys' \<longleftrightarrow> (keys_unique keys \<longrightarrow> keys_unique keys') \<and> (\<forall>k \<in> set keys. \<exists>k' \<in> set keys'. same_key k k')"

lemma same_key_refl [simp]: "same_key k k"
  by (simp add: same_key_def)

lemma same_key_trans: "same_key k k' \<Longrightarrow> same_key k' k'' \<Longrightarrow> same_key k k''"
  by (auto simp: same_key_def)

lemma keeps_keys_refl [simp]: "keeps_keys keys keys"
  unfolding keeps_keys_def by (blast intro: same_key_refl)

lemma keeps_keys_trans: "keeps_keys a b \<Longrightarrow> keeps_keys b c \<Longrightarrow> keeps_keys a c"
  unfolding keeps_keys_def by (meson same_key_trans)

lemma keeps_keys_update:
  assumes "\<And>k. same_key k (f k)"
  shows "keeps_keys keys (update_where P f keys)"
proof -
  have "unique_on ak_prefix (update_where P f keys) = unique_on ak_prefix keys"
    "unique_on ak_id (update_where P f keys) = unique_on ak_id keys"
    using assms by (auto simp: unique_on_def map_update_where same_key_def)
  moreover have "\<exists>k' \<in> set (update_where P f keys). same_key k k'" if "k \<in> set keys" for k
    using that assms by (intro bexI [of _ "if P k then f k else k"]) (auto simp: set_update_where)
  ultimately show ?thesis by (auto simp: keeps_keys_def keys_unique_def)
qed

lemma keys_step_keeps: "keys_step keys keys' \<Longrightarrow> keeps_keys keys keys'"
proof (induction rule: keys_step.induct)
  case (mint new_id keys sha hex secret now org payload user tdb)
  show ?case
  proof (cases "fst (create_api_key sha new_id hex secret now org payload user tdb keys)")
    case (Inl e)
    then show ?thesis
      by (auto simp: create_api_key_def Let_def split: sum.splits prod.splits option.splits)
  next
    case (Inr r)
    then obtain k where "snd (create_api_key sha new_id hex secret now org payload user tdb keys) = keys @ [k]"
      "ak_id k = new_id" "ak_prefix k \<notin> ak_prefix ` set keys"
      by (auto simp: create_api_key_def Let_def insert_unique_Some split: sum.splits prod.splits option.splits)
    then show ?thesis
      using mint same_key_refl by (fastforce simp: keeps_keys_def keys_unique_def unique_on_def)
  qed
next
  case (revoke keys now org key_id user tdb)
  then show ?case
    by (auto simp: revoke_api_key_def same_key_def intro: keeps_keys_update split: sum.splits option.splits)
next
  case (authenticate keys sha x user now)
  then show ?case
    by (auto simp: get_principal_def same_key_def intro: keeps_keys_update
        split: sum.splits option.splits list.splits)
qed

lemma keys_run_keeps: "keys_run keys keys' \<Longrightarrow> keeps_keys keys keys'"
  by (induction rule: keys_run.induct) (auto intro: keeps_keys_trans keys_step_keeps)

section \<open>Properties\<close>

text \<open>C33. A presented key authenticates exactly when the table holds a key with its prefix whose stored
  hash is the hash of its secret, that is not revoked and not expired; the principal is that key's
  creator, bound to that key's organization and scopes.\<close>

theorem key_authenticates_iff:
  assumes "keys_unique keys" "raw \<noteq> []"
  shows "fst (get_principal sha (Some raw) user now keys) =
    (case find (accepts sha now raw) keys of Some k \<Rightarrow> Inr (principal_of k) | None \<Rightarrow> Inl unauthorized)"
proof (cases "find (accepts sha now raw) keys")
  case None
  then have "\<not> accepts sha now raw k" if "k \<in> set keys" for k using that by (simp add: find_None_iff)
  then show ?thesis
    using assms(2) None by (auto simp: get_principal_key dest: lookup_by_SomeD split: option.splits)
next
  case (Some k)
  then have k: "k \<in> set keys" "accepts sha now raw k" by (auto simp: find_Some_iff)
  then obtain secret where split: "split_key raw = Some (ak_prefix k, secret)" by (auto simp: accepts_def)
  have "lookup_by ak_prefix (ak_prefix k) keys = Some k"
    using lookup_by_unique [of ak_prefix keys k] k(1) assms(1) by (simp add: keys_unique_def)
  then show ?thesis using Some k split assms(2) by (simp add: get_principal_key)
qed

definition demo_key :: api_key where
  "demo_key = \<lparr>ak_id = ''k1'', ak_org = ''o1'', ak_created_by = ''ann'', ak_name = ''ci'', ak_prefix = ''wsk_ab'',
    ak_hashed = ''xyz'', ak_scopes = Some ''read write'', ak_expires_at = Some 100, ak_last_used_at = None,
    ak_revoked_at = None\<rparr>"

lemma demo_accepts: "accepts (\<lambda>b. b) 7 ''wsk_ab.xyz'' demo_key"
  by (simp add: accepts_def demo_key_def split_key_def verify_secret_def hash_secret_def utf8_def utf8_char_def)

lemma key_authenticates_iff_witness:
  "\<exists>p. fst (get_principal (\<lambda>b. b) (Some ''wsk_ab.xyz'') None 7 [demo_key]) = Inr p"
  using key_authenticates_iff [of "[demo_key]" "''wsk_ab.xyz''" "\<lambda>b. b" None 7] demo_accepts
  by (simp add: keys_unique_def unique_on_def)

text \<open>A new key works: after a member minted a key, and until it is revoked or expires, whatever else
  happens to the table, presenting the full key that was shown authenticates its creator for the
  organization, with exactly the scopes that were asked for when they are words.\<close>

theorem minted_key_works:
  assumes uniq: "keys_unique keys" and new: "new_id \<notin> ak_id ` set keys"
    and mint: "create_api_key sha new_id hex secret now org payload user tdb keys = (Inr (shown, full_key), keys1)"
    and tokens: "CHR ''.'' \<notin> set hex" "secret \<noteq> []"
    and words: "kc_scopes payload = Some scopes" "list_all word_ok scopes"
    and run: "keys_run keys1 keys2"
    and alive: "\<forall>k \<in> set keys2. ak_id k = new_id \<longrightarrow> ak_revoked_at k = None"
    and time: "\<forall>d. kc_expires_in_days payload = Some d \<longrightarrow> later < now + days d"
  shows "fst (get_principal sha (Some full_key) u later keys2)
    = Inr \<lparr>pr_user_id = user, pr_organization_id = Some org, pr_api_key_id = Some new_id,
         pr_scopes = scopes, pr_method = ''api_key''\<rparr>"
proof -
  let ?prefix = "BRAND @ ''_'' @ hex"
  obtain m k where m: "get_current_membership org user tdb = Inr m"
    and k: "k = \<lparr>ak_id = new_id, ak_org = org, ak_created_by = mb_user m, ak_name = kc_name payload,
                 ak_prefix = ?prefix, ak_hashed = hash_secret sha secret,
                 ak_scopes = (if scopes = [] then None else Some (join_with '' '' scopes)),
                 ak_expires_at = map_option (\<lambda>d. now + days d) (kc_expires_in_days payload),
                 ak_last_used_at = None, ak_revoked_at = None\<rparr>"
    and ins: "ak_prefix k \<notin> ak_prefix ` set keys" "keys1 = keys @ [k]"
    and full: "full_key = ?prefix @ ''.'' @ secret"
    using mint words(1)
    by (auto simp: create_api_key_def generate_key_def Let_def insert_unique_Some split: sum.splits option.splits)
  have "keys_unique keys1" using uniq new ins k by (simp add: keys_unique_def unique_on_def)
  then have "keys_unique keys2" "\<exists>k' \<in> set keys2. same_key k k'"
    using keys_run_keeps [OF run] ins(2) by (auto simp: keeps_keys_def)
  then obtain k' where k': "k' \<in> set keys2" "same_key k k'" and uniq2: "unique_on ak_prefix keys2"
    by (auto simp: keys_unique_def)
  have "CHR ''.'' \<notin> set ?prefix" using tokens(1) by (simp add: BRAND_def)
  then have split: "split_key full_key = Some (?prefix, secret)"
    using partition_at_append [of "CHR ''.''" ?prefix secret] full tokens(2) by (simp add: split_key_def BRAND_def)
  have acc: "accepts sha later full_key k'"
    using k' k alive time split by (auto simp: accepts_def same_key_def verify_secret_def)
  have "scope_list (ak_scopes k') = scopes"
    using k'(2) k words(2) split_join [OF words(2)]
    by (cases scopes rule: list.exhaust; cases "tl scopes")
      (auto simp: scope_list_def same_key_def word_ok_def)
  moreover have "mb_user m = user" using get_membership_Inr [OF m] by blast
  moreover have "lookup_by ak_prefix ?prefix keys2 = Some k'"
    using lookup_by_unique [OF uniq2 k'(1)] k'(2) k by (simp add: same_key_def)
  ultimately show ?thesis
    using acc split full k'(2) k by (simp add: get_principal_key principal_of_def same_key_def)
qed

lemma minted_key_works_witness:
  "fst (get_principal (\<lambda>b. b) (Some ''wsk_ab.xyz'') None 5
      (snd (create_api_key (\<lambda>b. b) ''k1'' ''ab'' ''xyz'' 0 ''o1''
         \<lparr>kc_name = ''ci'', kc_scopes = Some [''read'', ''write''], kc_expires_in_days = None\<rparr> ''bob'' acme_db [])))
    = Inr \<lparr>pr_user_id = ''bob'', pr_organization_id = Some ''o1'', pr_api_key_id = Some ''k1'',
         pr_scopes = [''read'', ''write''], pr_method = ''api_key''\<rparr>"
proof -
  let ?p = "\<lparr>kc_name = ''ci'', kc_scopes = Some [''read'', ''write''], kc_expires_in_days = None\<rparr>"
  let ?r = "create_api_key (\<lambda>b. b) ''k1'' ''ab'' ''xyz'' 0 ''o1'' ?p ''bob'' acme_db []"
  have m: "get_current_membership ''o1'' ''bob'' acme_db
      = Inr \<lparr>mb_id = ''m2'', mb_org = ''o1'', mb_user = ''bob'', mb_role = ADMIN\<rparr>"
    by (simp add: get_current_membership_def acme_db_def member_key_def)
  obtain shown where mint: "?r = (Inr (shown, ''wsk_ab.xyz''), snd ?r)"
    and fresh: "\<forall>k \<in> set (snd ?r). ak_id k = ''k1'' \<longrightarrow> ak_revoked_at k = None"
    by (simp add: create_api_key_def m generate_key_def BRAND_def Let_def insert_unique_def)
  show ?thesis
    by (rule minted_key_works [OF _ _ mint _ _ _ _ keys_nil fresh])
      (simp_all add: keys_unique_def word_ok_def is_space_def)
qed

text \<open>Revocation is final: once a revocation succeeded, no request that presents the key is ever
  authenticated by it again, whatever else happens to the table.\<close>

theorem revoked_key_never_works:
  assumes uniq: "keys_unique keys" and k: "k \<in> set keys" "ak_id k = key_id"
    and rev: "revoke_api_key now org key_id user tdb keys = (Inr (), keys1)" and run: "keys_run keys1 keys2"
    and key: "split_key raw = Some (ak_prefix k, secret)"
  shows "fst (get_principal sha (Some raw) u later keys2) = Inl unauthorized"
proof -
  have ids: "unique_on ak_id keys" using uniq by (simp add: keys_unique_def)
  obtain f where f: "f \<in> set keys" "ak_id f = key_id"
    and keys1: "keys1 = update_where (\<lambda>x. ak_id x = ak_id f) (\<lambda>x. x\<lparr>ak_revoked_at := Some now\<rparr>) keys"
    using rev by (auto simp: revoke_api_key_def split: sum.splits option.splits dest: find_SomeD)
  then have "f = k" using unique_onD [OF ids f(1) k(1)] k(2) by simp
  then have k1: "k\<lparr>ak_revoked_at := Some now\<rparr> \<in> set keys1"
    unfolding keys1 set_update_where using k(1) by (intro image_eqI [of _ _ k]) simp_all
  have "keeps_keys keys keys1" unfolding keys1 by (rule keeps_keys_update) (simp add: same_key_def)
  then have uniq1: "keys_unique keys1" using uniq by (simp add: keeps_keys_def)
  obtain k2 where k2: "k2 \<in> set keys2" "same_key (k\<lparr>ak_revoked_at := Some now\<rparr>) k2" and uniq2: "unique_on ak_prefix keys2"
    using keys_run_keeps [OF run] uniq1 k1 by (auto simp: keeps_keys_def keys_unique_def)
  have "lookup_by ak_prefix (ak_prefix k) keys2 = Some k2"
    using lookup_by_unique [OF uniq2 k2(1)] k2(2) by (simp add: same_key_def)
  moreover have "\<not> accepts sha later raw k2" using k2(2) by (auto simp: accepts_def same_key_def)
  moreover have "raw \<noteq> []" using key by (auto simp: split_key_def)
  ultimately show ?thesis using key by (simp add: get_principal_key)
qed

lemma revoked_key_never_works_witness:
  "fst (get_principal (\<lambda>b. b) (Some ''wsk_ab.xyz'') None 9 (snd (revoke_api_key 8 ''o1'' ''k1'' ''bob'' acme_db [demo_key])))
    = Inl unauthorized"
proof -
  have m: "get_current_membership ''o1'' ''bob'' acme_db
      = Inr \<lparr>mb_id = ''m2'', mb_org = ''o1'', mb_user = ''bob'', mb_role = ADMIN\<rparr>"
    by (simp add: get_current_membership_def acme_db_def member_key_def)
  show ?thesis
    by (rule revoked_key_never_works [OF _ _ _ _ keys_nil, of "[demo_key]" demo_key "''k1''" 8 "''o1''" "''bob''" acme_db])
      (simp_all add: revoke_api_key_def m demo_key_def keys_unique_def unique_on_def split_key_def)
qed

end
