(* ===== verification/Sessions.thy ===== *)
theory Sessions imports RateLimitDeps begin

text \<open>
  Authentication: rotating refresh tokens (\<open>app/users/models.py\<close>, \<open>sessions.py\<close>), the access-token
  strategy (\<open>auth.py\<close>), the denylist (\<open>denylist.py\<close>) and the routes (\<open>router.py.jinja\<close> with the rate
  limiter; \<open>manager.py.jinja\<close>, the hook after a password reset). Checking a password, encoding and
  decoding a JWT and SHA-256 are parameters; tokens, ids and clock readings are arguments.
\<close>

section \<open>Tables\<close>

record app_user =
  u_id :: uuid
  u_active :: bool
  u_token_version :: int

record refresh_token =
  rt_id :: uuid
  rt_user :: uuid
  rt_hash :: string
  rt_family :: uuid
  rt_expires :: datetime
  rt_used :: "datetime option"
  rt_revoked :: bool

record auth_db =
  au_users :: "app_user list"
  au_tokens :: "refresh_token list"

section \<open>Refresh tokens\<close>

definition token_hash :: "(bytes \<Rightarrow> string) \<Rightarrow> string \<Rightarrow> string" where
  "token_hash sha token = sha (utf8 token)"

definition issue_refresh_token ::
  "(bytes \<Rightarrow> string) \<Rightarrow> int \<Rightarrow> uuid \<Rightarrow> string \<Rightarrow> datetime \<Rightarrow> uuid \<Rightarrow> uuid \<Rightarrow> refresh_token list
    \<Rightarrow> exn + string \<times> refresh_token list" where
  "issue_refresh_token sha lifetime new_id token now user family rows =
    (case insert_unique rt_hash
        \<lparr>rt_id = new_id, rt_user = user, rt_hash = token_hash sha token, rt_family = family,
         rt_expires = now + seconds lifetime, rt_used = None, rt_revoked = False\<rparr> rows of
       None \<Rightarrow> Inl IntegrityError
     | Some rows' \<Rightarrow> Inr (token, rows'))"

definition live_token :: "refresh_token \<Rightarrow> bool" where
  "live_token r = (rt_used r = None \<and> \<not> rt_revoked r)"

definition revoke_family :: "uuid \<Rightarrow> refresh_token list \<Rightarrow> refresh_token list" where
  "revoke_family family rows = update_where (\<lambda>r. rt_family r = family) (\<lambda>r. r\<lparr>rt_revoked := True\<rparr>) rows"

text \<open>The conditional update that claims a token: its id when it was unspent and not revoked.\<close>

definition claim_token :: "datetime \<Rightarrow> string \<Rightarrow> refresh_token list \<Rightarrow> uuid option \<times> refresh_token list" where
  "claim_token now h rows =
    (let hit = (\<lambda>r. rt_hash r = h \<and> live_token r)
     in (map_option rt_id (find hit rows), update_where hit (\<lambda>r. r\<lparr>rt_used := Some now\<rparr>) rows))"

definition rotate_refresh_token ::
  "(bytes \<Rightarrow> string) \<Rightarrow> int \<Rightarrow> uuid \<Rightarrow> string \<Rightarrow> datetime \<Rightarrow> string \<Rightarrow> refresh_token list
    \<Rightarrow> (exn + uuid \<times> string) \<times> refresh_token list" where
  "rotate_refresh_token sha lifetime new_id new_token now token rows =
    (case lookup_by rt_hash (token_hash sha token) rows of
       None \<Rightarrow> (Inl (RefreshError ''unknown refresh token''), rows)
     | Some row \<Rightarrow>
         if rt_expires row \<le> now then (Inl (RefreshError ''refresh token expired''), rows)
         else (case claim_token now (token_hash sha token) rows of
             (None, _) \<Rightarrow> (Inl (RefreshError ''refresh token reuse detected''), revoke_family (rt_family row) rows)
           | (Some _, claimed) \<Rightarrow>
               (case issue_refresh_token sha lifetime new_id new_token now (rt_user row) (rt_family row) claimed of
                  Inl e \<Rightarrow> (Inl e, rows)
                | Inr (t, rows') \<Rightarrow> (Inr (rt_user row, t), rows'))))"

definition revoke_family_of :: "(bytes \<Rightarrow> string) \<Rightarrow> string \<Rightarrow> refresh_token list \<Rightarrow> refresh_token list" where
  "revoke_family_of sha token rows =
    (case lookup_by rt_hash (token_hash sha token) rows of
       None \<Rightarrow> rows | Some row \<Rightarrow> revoke_family (rt_family row) rows)"

definition revoke_all_for_user :: "uuid \<Rightarrow> refresh_token list \<Rightarrow> refresh_token list" where
  "revoke_all_for_user user rows = update_where (\<lambda>r. rt_user r = user) (\<lambda>r. r\<lparr>rt_revoked := True\<rparr>) rows"

section \<open>Access tokens\<close>

record claims =
  c_sub :: "uuid option"
  c_tv :: "int option"
  c_jti :: "string option"
  c_exp :: "datetime option"

text \<open>The denylist in Redis: the denied ids with the instant they expire.\<close>

type_synonym denylist = "string \<rightharpoonup> datetime"

datatype list_mode = NoList | BrokenList | UpList

definition deny_jti :: "list_mode \<Rightarrow> datetime \<Rightarrow> string \<Rightarrow> int \<Rightarrow> denylist \<Rightarrow> denylist" where
  "deny_jti mode now jti ttl d = (case mode of UpList \<Rightarrow> d(jti \<mapsto> now + seconds (max ttl 1)) | _ \<Rightarrow> d)"

definition is_jti_denied :: "list_mode \<Rightarrow> datetime \<Rightarrow> string \<Rightarrow> denylist \<Rightarrow> bool" where
  "is_jti_denied mode now jti d = (case mode of
     UpList \<Rightarrow> (case d jti of None \<Rightarrow> False | Some e \<Rightarrow> now < e) | _ \<Rightarrow> False)"

text \<open>Signing and checking a JWT: \<open>jwt_decode now\<close> is \<open>None\<close> for a bad signature or one that expired.\<close>

record jwt_lib =
  jwt_encode :: "claims \<Rightarrow> string"
  jwt_decode :: "datetime \<Rightarrow> string \<Rightarrow> claims option"

definition write_token :: "jwt_lib \<Rightarrow> int \<Rightarrow> string \<Rightarrow> datetime \<Rightarrow> app_user \<Rightarrow> string" where
  "write_token jl lifetime jti now user = jwt_encode jl
    \<lparr>c_sub = Some (u_id user), c_tv = Some (u_token_version user), c_jti = Some jti,
     c_exp = Some (now + seconds lifetime)\<rparr>"

definition read_token ::
  "jwt_lib \<Rightarrow> list_mode \<Rightarrow> datetime \<Rightarrow> string option \<Rightarrow> app_user list \<Rightarrow> denylist \<Rightarrow> app_user option" where
  "read_token jl mode now token us d =
    (case token of None \<Rightarrow> None
     | Some t \<Rightarrow>
         (case jwt_decode jl now t of None \<Rightarrow> None
          | Some c \<Rightarrow>
              (case c_sub c of None \<Rightarrow> None
               | Some sub \<Rightarrow>
                   if (case c_jti c of None \<Rightarrow> False | Some j \<Rightarrow> is_jti_denied mode now j d) then None
                   else (case lookup_by u_id sub us of None \<Rightarrow> None
                     | Some u \<Rightarrow> if c_tv c \<noteq> Some (u_token_version u) then None else Some u))))"

section \<open>Routes\<close>

definition BAD_CREDENTIALS :: exn where
  "BAD_CREDENTIALS = HTTPException 400 ''LOGIN_BAD_CREDENTIALS'' []"

definition BAD_REFRESH :: exn where
  "BAD_REFRESH = HTTPException 401 ''INVALID_REFRESH_TOKEN'' []"

record token_pair =
  access_token :: string
  pair_refresh_token :: string

record users_settings =
  users_jwt_lifetime_seconds :: int
  users_refresh_lifetime_seconds :: int

text \<open>
  Login, after the throttle of its address. The limiter's clock \<open>rnow\<close> is Redis's own. An error of the
  commit leaves the database as it was, the lockout counter is in Redis and stays cleared.
\<close>

definition login ::
  "'s rate_port \<Rightarrow> ratelimit_settings \<Rightarrow> users_settings \<Rightarrow> (bytes \<Rightarrow> string) \<Rightarrow> jwt_lib
    \<Rightarrow> (string \<Rightarrow> string \<Rightarrow> uuid option) \<Rightarrow> rat \<Rightarrow> datetime \<Rightarrow> string \<Rightarrow> uuid \<Rightarrow> uuid \<Rightarrow> string
    \<Rightarrow> string \<Rightarrow> string \<Rightarrow> auth_db \<Rightarrow> 's \<Rightarrow> (exn + token_pair) \<times> auth_db \<times> 's" where
  "login limiter rst ust sha jl authenticate rnow now jti new_id new_family new_token username password db s =
    (case assert_not_locked_out limiter rst sha rnow username s of
       Inl e \<Rightarrow> (Inl e, db, s)
     | Inr _ \<Rightarrow>
         (case (case authenticate username password of None \<Rightarrow> None | Some i \<Rightarrow> lookup_by u_id i (au_users db)) of
            None \<Rightarrow> (Inl BAD_CREDENTIALS, db, record_login_failure limiter rst sha rnow username s)
          | Some u \<Rightarrow>
              if \<not> u_active u then (Inl BAD_CREDENTIALS, db, record_login_failure limiter rst sha rnow username s)
              else
                (let s' = clear_login_failures limiter rst sha username s;
                     access = write_token jl (users_jwt_lifetime_seconds ust) jti now u
                 in case issue_refresh_token sha (users_refresh_lifetime_seconds ust) new_id new_token now
                        (u_id u) new_family (au_tokens db) of
                      Inl e \<Rightarrow> (Inl e, db, s')
                    | Inr (t, rows) \<Rightarrow>
                        (Inr \<lparr>access_token = access, pair_refresh_token = t\<rparr>, db\<lparr>au_tokens := rows\<rparr>, s'))))"

text \<open>Refresh commits on every answer but an unexpected error.\<close>

definition refresh ::
  "users_settings \<Rightarrow> (bytes \<Rightarrow> string) \<Rightarrow> jwt_lib \<Rightarrow> datetime \<Rightarrow> string \<Rightarrow> uuid \<Rightarrow> string \<Rightarrow> string \<Rightarrow> auth_db
    \<Rightarrow> (exn + token_pair) \<times> auth_db" where
  "refresh ust sha jl now jti new_id new_token token db =
    (case rotate_refresh_token sha (users_refresh_lifetime_seconds ust) new_id new_token now token (au_tokens db) of
       (Inl (RefreshError _), rows) \<Rightarrow> (Inl BAD_REFRESH, db\<lparr>au_tokens := rows\<rparr>)
     | (Inl e, _) \<Rightarrow> (Inl e, db)
     | (Inr (user, t), rows) \<Rightarrow>
         (case lookup_by u_id user (au_users db) of
            None \<Rightarrow> (Inl BAD_REFRESH, db\<lparr>au_tokens := rows\<rparr>)
          | Some u \<Rightarrow>
              if \<not> u_active u then (Inl BAD_REFRESH, db\<lparr>au_tokens := rows\<rparr>)
              else (Inr \<lparr>access_token = write_token jl (users_jwt_lifetime_seconds ust) jti now u,
                      pair_refresh_token = t\<rparr>, db\<lparr>au_tokens := rows\<rparr>)))"

definition denylist_access_token ::
  "jwt_lib \<Rightarrow> list_mode \<Rightarrow> datetime \<Rightarrow> string \<Rightarrow> denylist \<Rightarrow> denylist" where
  "denylist_access_token jl mode now token d =
    (case jwt_decode jl now token of None \<Rightarrow> d
     | Some c \<Rightarrow>
         (case (c_jti c, c_exp c) of
            (Some j, Some e) \<Rightarrow>
              (let ttl = e div 1000000 - now div 1000000
               in if 0 < ttl then deny_jti mode now j ttl d else d)
          | _ \<Rightarrow> d))"

definition logout ::
  "(bytes \<Rightarrow> string) \<Rightarrow> jwt_lib \<Rightarrow> list_mode \<Rightarrow> datetime \<Rightarrow> string option \<Rightarrow> string \<Rightarrow> auth_db \<Rightarrow> denylist
    \<Rightarrow> auth_db \<times> denylist" where
  "logout sha jl mode now token refresh_tok db d =
    (db\<lparr>au_tokens := revoke_family_of sha refresh_tok (au_tokens db)\<rparr>,
     case token of None \<Rightarrow> d | Some t \<Rightarrow> denylist_access_token jl mode now t d)"

text \<open>Logging out everywhere, and the hook that runs after a password reset: the same writes.\<close>

definition logout_all :: "uuid \<Rightarrow> auth_db \<Rightarrow> auth_db" where
  "logout_all user db = db\<lparr>
     au_users := update_where (\<lambda>u. u_id u = user) (\<lambda>u. u\<lparr>u_token_version := u_token_version u + 1\<rparr>) (au_users db),
     au_tokens := revoke_all_for_user user (au_tokens db)\<rparr>"

definition on_after_reset_password :: "uuid \<Rightarrow> auth_db \<Rightarrow> auth_db" where
  "on_after_reset_password user db = logout_all user db"

section \<open>Lemmas\<close>

text \<open>The invariant: hashes are unique, a family belongs to one user and has at most one live token.\<close>

definition tokens_ok :: "refresh_token list \<Rightarrow> bool" where
  "tokens_ok rows \<longleftrightarrow> unique_on rt_hash rows
     \<and> (\<forall>r \<in> set rows. \<forall>r' \<in> set rows. rt_family r = rt_family r' \<longrightarrow>
          rt_user r = rt_user r' \<and> (live_token r \<and> live_token r' \<longrightarrow> r = r'))"

text \<open>What becomes of a row: it stays the same token, and once it is dead it stays dead.\<close>

definition ages :: "refresh_token \<Rightarrow> refresh_token \<Rightarrow> bool" where
  "ages r r' \<longleftrightarrow> rt_user r' = rt_user r \<and> rt_hash r' = rt_hash r \<and> rt_family r' = rt_family r
     \<and> rt_expires r' = rt_expires r \<and> (rt_used r \<noteq> None \<longrightarrow> rt_used r' \<noteq> None) \<and> (rt_revoked r \<longrightarrow> rt_revoked r')"

lemma ages_refl [simp]: "ages r r"
  by (simp add: ages_def)

lemma ages_live: "ages r r' \<Longrightarrow> live_token r' \<Longrightarrow> live_token r"
  by (auto simp: ages_def live_token_def)

lemma ages_revoked [simp]: "ages r (r\<lparr>rt_revoked := True\<rparr>)"
  by (simp add: ages_def)

lemma ages_used [simp]: "ages r (r\<lparr>rt_used := Some t\<rparr>)"
  by (simp add: ages_def)

lemma tokens_ok_update:
  assumes ok: "tokens_ok rows" and f: "\<And>r. ages r (f r)"
  shows "tokens_ok (update_where P f rows)"
proof -
  let ?f = "\<lambda>r. if P r then f r else r"
  have g: "ages r (?f r)" for r using f by simp
  have "unique_on rt_hash (update_where P f rows)"
    using ok f by (intro unique_on_update) (auto simp: tokens_ok_def ages_def)
  moreover have "rt_user (?f r) = rt_user (?f r') \<and> (live_token (?f r) \<and> live_token (?f r') \<longrightarrow> ?f r = ?f r')"
    if "r \<in> set rows" "r' \<in> set rows" "rt_family (?f r) = rt_family (?f r')" for r r'
  proof -
    have fam: "rt_family r = rt_family r'" using that(3) g [of r] g [of r'] by (simp add: ages_def)
    have pair: "rt_user r = rt_user r' \<and> (live_token r \<and> live_token r' \<longrightarrow> r = r')"
      using ok that(1,2) fam unfolding tokens_ok_def by blast
    have "rt_user (?f r) = rt_user (?f r')" using g [of r] g [of r'] pair unfolding ages_def by metis
    moreover have "live_token (?f r) \<and> live_token (?f r') \<longrightarrow> ?f r = ?f r'"
      using ages_live [OF g [of r]] ages_live [OF g [of r']] pair by blast
    ultimately show ?thesis by (rule conjI)
  qed
  ultimately show ?thesis unfolding tokens_ok_def set_update_where ball_simps(9) by blast
qed

lemma revoke_family_ok: "tokens_ok rows \<Longrightarrow> tokens_ok (revoke_family f rows)"
  unfolding revoke_family_def by (rule tokens_ok_update) simp_all

lemma revoke_all_ok: "tokens_ok rows \<Longrightarrow> tokens_ok (revoke_all_for_user u rows)"
  unfolding revoke_all_for_user_def by (rule tokens_ok_update) simp_all

lemma revoke_family_of_ok: "tokens_ok rows \<Longrightarrow> tokens_ok (revoke_family_of sha t rows)"
  by (simp add: revoke_family_of_def revoke_family_ok split: option.split)

text \<open>A claim on a table with unique hashes touches one row.\<close>

lemma claim_token_cases:
  assumes uniq: "unique_on rt_hash rows" and row: "lookup_by rt_hash h rows = Some row"
  shows "claim_token now h rows =
    (if live_token row then (Some (rt_id row), update_where (\<lambda>r. rt_hash r = h) (\<lambda>r. r\<lparr>rt_used := Some now\<rparr>) rows)
     else (None, rows))"
proof -
  have mem: "row \<in> set rows" "rt_hash row = h" using row by (auto dest: lookup_by_SomeD)
  have only: "r = row" if "r \<in> set rows" "rt_hash r = h" for r
    using unique_onD [OF uniq that(1) mem(1)] that(2) mem(2) by simp
  show ?thesis
  proof (cases "live_token row")
    case True
    have hit: "(rt_hash r = h \<and> live_token r) = (r = row)" if "r \<in> set rows" for r
      using only [OF that] mem(2) True by blast
    then have eqs: "(if rt_hash r = h \<and> live_token r then r\<lparr>rt_used := Some now\<rparr> else r)
        = (if rt_hash r = h then r\<lparr>rt_used := Some now\<rparr> else r)" if "r \<in> set rows" for r
      using only [OF that] that True by auto
    have "find (\<lambda>r. rt_hash r = h \<and> live_token r) rows = find (\<lambda>r. r = row) rows"
      by (rule find_cong) (simp_all only: hit)
    also have "\<dots> = Some row" using mem(1) by (induction rows) auto
    finally have found: "find (\<lambda>r. rt_hash r = h \<and> live_token r) rows = Some row" .
    have "update_where (\<lambda>r. rt_hash r = h \<and> live_token r) (\<lambda>r. r\<lparr>rt_used := Some now\<rparr>) rows
        = update_where (\<lambda>r. rt_hash r = h) (\<lambda>r. r\<lparr>rt_used := Some now\<rparr>) rows"
      unfolding update_where_def by (rule map_cong [OF refl]) (rule eqs)
    then show ?thesis using True found by (simp add: claim_token_def)
  next
    case False
    then have none: "\<not> (rt_hash r = h \<and> live_token r)" if "r \<in> set rows" for r using only [OF that] by blast
    then have "find (\<lambda>r. rt_hash r = h \<and> live_token r) rows = None" by (simp add: find_None_iff)
    then show ?thesis using False none by (simp add: claim_token_def update_where_none)
  qed
qed


text \<open>Rotation on such a table, as one case analysis of the presented token.\<close>

definition successor ::
  "(bytes \<Rightarrow> string) \<Rightarrow> int \<Rightarrow> uuid \<Rightarrow> string \<Rightarrow> datetime \<Rightarrow> refresh_token \<Rightarrow> refresh_token" where
  "successor sha lifetime new_id new_token now row =
    \<lparr>rt_id = new_id, rt_user = rt_user row, rt_hash = token_hash sha new_token, rt_family = rt_family row,
     rt_expires = now + seconds lifetime, rt_used = None, rt_revoked = False\<rparr>"

lemma successor_simps [simp]:
  "rt_user (successor sha lt i nt now row) = rt_user row"
  "rt_hash (successor sha lt i nt now row) = token_hash sha nt"
  "rt_family (successor sha lt i nt now row) = rt_family row"
  "live_token (successor sha lt i nt now row)"
  by (simp_all add: successor_def live_token_def)

lemma rotate_eq:
  assumes ok: "tokens_ok rows"
  shows "rotate_refresh_token sha lt i nt now t rows =
    (case lookup_by rt_hash (token_hash sha t) rows of
       None \<Rightarrow> (Inl (RefreshError ''unknown refresh token''), rows)
     | Some row \<Rightarrow>
         if rt_expires row \<le> now then (Inl (RefreshError ''refresh token expired''), rows)
         else if \<not> live_token row then (Inl (RefreshError ''refresh token reuse detected''), revoke_family (rt_family row) rows)
         else if token_hash sha nt \<in> rt_hash ` set rows then (Inl IntegrityError, rows)
         else (Inr (rt_user row, nt),
           update_where (\<lambda>r. rt_hash r = token_hash sha t) (\<lambda>r. r\<lparr>rt_used := Some now\<rparr>) rows
             @ [successor sha lt i nt now row]))"
proof (cases "lookup_by rt_hash (token_hash sha t) rows")
  case None
  then show ?thesis by (simp add: rotate_refresh_token_def)
next
  case (Some row)
  have uniq: "unique_on rt_hash rows" using ok by (simp add: tokens_ok_def)
  have hashes: "rt_hash ` set (update_where (\<lambda>r. rt_hash r = h) (\<lambda>r. r\<lparr>rt_used := Some now\<rparr>) rows)
      = rt_hash ` set rows" for h
    by (rule keys_update_where) simp
  show ?thesis
    using Some claim_token_cases [OF uniq Some, of now]
    by (simp add: rotate_refresh_token_def issue_refresh_token_def insert_unique_def hashes successor_def)
qed

lemma tokens_ok_append:
  assumes ok: "tokens_ok rows" and fresh: "rt_hash n \<notin> rt_hash ` set rows"
    and fam: "\<And>r. r \<in> set rows \<Longrightarrow> rt_family r = rt_family n \<Longrightarrow> rt_user r = rt_user n \<and> \<not> live_token r"
  shows "tokens_ok (rows @ [n])"
proof -
  have "unique_on rt_hash (rows @ [n])" using ok fresh by (simp add: tokens_ok_def unique_on_def)
  moreover have "rt_user r = rt_user r' \<and> (live_token r \<and> live_token r' \<longrightarrow> r = r')"
    if mem: "r \<in> set (rows @ [n])" "r' \<in> set (rows @ [n])" and eq: "rt_family r = rt_family r'" for r r'
  proof -
    consider "r \<in> set rows" "r' \<in> set rows" | "r \<in> set rows" "r' = n" | "r = n" "r' \<in> set rows" | "r = n" "r' = n"
      using mem by auto
    then show ?thesis
    proof cases
      case 1
      then show ?thesis using ok eq unfolding tokens_ok_def by blast
    next
      case 2
      then show ?thesis using fam [of r] eq by simp
    next
      case 3
      then show ?thesis using fam [of r'] eq by simp
    next
      case 4
      then show ?thesis by simp
    qed
  qed
  ultimately show ?thesis unfolding tokens_ok_def by blast
qed

text \<open>A live token that is spent and followed by one of its family.\<close>

lemma tokens_ok_rotate:
  assumes ok: "tokens_ok rows" and row: "row \<in> set rows" "live_token row"
    and n: "rt_user n = rt_user row" "rt_family n = rt_family row" "rt_hash n \<notin> rt_hash ` set rows"
  shows "tokens_ok (update_where (\<lambda>r. rt_hash r = rt_hash row) (\<lambda>r. r\<lparr>rt_used := Some now\<rparr>) rows @ [n])"
    (is "tokens_ok (?used @ [n])")
proof (rule tokens_ok_append)
  show "tokens_ok ?used" by (rule tokens_ok_update [OF ok]) simp
  show "rt_hash n \<notin> rt_hash ` set ?used" using n(3) by (simp add: keys_update_where)
next
  fix r assume "r \<in> set ?used" and fam: "rt_family r = rt_family n"
  then obtain s where s: "s \<in> set rows" "r = (if rt_hash s = rt_hash row then s\<lparr>rt_used := Some now\<rparr> else s)"
    by (auto simp: set_update_where)
  then have fam': "rt_family s = rt_family row" using fam n(2) by (simp split: if_splits)
  then have pair: "rt_user s = rt_user row" "live_token s \<Longrightarrow> s = row"
    using ok s(1) row unfolding tokens_ok_def by blast+
  have "\<not> live_token r"
  proof (cases "rt_hash s = rt_hash row")
    case True
    then show ?thesis using s(2) by (simp add: live_token_def)
  next
    case False
    then show ?thesis using s(2) pair(2) by auto
  qed
  then show "rt_user r = rt_user n \<and> \<not> live_token r" using pair(1) s(2) n(1) by simp
qed

lemma rotate_ok:
  assumes ok: "tokens_ok rows" and rot: "rotate_refresh_token sha lt i nt now t rows = (res, rows')"
  shows "tokens_ok rows'"
proof (cases "lookup_by rt_hash (token_hash sha t) rows")
  case None
  then show ?thesis using ok rot by (simp add: rotate_eq)
next
  case (Some row)
  have row: "row \<in> set rows" "rt_hash row = token_hash sha t" using Some by (auto dest: lookup_by_SomeD)
  show ?thesis using rot ok Some revoke_family_ok [OF ok] row(2)
      tokens_ok_rotate [OF ok row(1), of "successor sha lt i nt now row" now]
    by (simp add: rotate_eq split: if_splits) blast+
qed

text \<open>How a table evolves: every row is still there and aged, and a new row extends a family that was alive.\<close>

definition rows_age :: "refresh_token list \<Rightarrow> refresh_token list \<Rightarrow> bool" where
  "rows_age rows rows' \<longleftrightarrow> (\<forall>r \<in> set rows. \<exists>r' \<in> set rows'. ages r r')"

definition family_dead :: "uuid \<Rightarrow> refresh_token list \<Rightarrow> bool" where
  "family_dead f rows \<longleftrightarrow> f \<in> rt_family ` set rows \<and> (\<forall>r \<in> set rows. rt_family r = f \<longrightarrow> \<not> live_token r)"

lemma ages_trans: "ages r s \<Longrightarrow> ages s u \<Longrightarrow> ages r u"
  by (simp add: ages_def)

lemma rows_age_refl [simp]: "rows_age rows rows"
  using ages_refl unfolding rows_age_def by blast

lemma rows_age_trans: "rows_age a b \<Longrightarrow> rows_age b c \<Longrightarrow> rows_age a c"
  using ages_trans unfolding rows_age_def by blast

lemma rows_age_append [simp]: "rows_age rows rows' \<Longrightarrow> rows_age rows (rows' @ [n])"
  by (auto simp: rows_age_def)

lemma rows_age_update: "(\<And>r. ages r (f r)) \<Longrightarrow> rows_age rows (update_where P f rows)"
  using in_update_where [of _ rows P f] ages_refl unfolding rows_age_def by (metis (full_types))

lemma revoke_family_age [simp]: "rows_age rows (revoke_family f rows)"
  unfolding revoke_family_def by (rule rows_age_update) simp

lemma revoke_all_age [simp]: "rows_age rows (revoke_all_for_user u rows)"
  unfolding revoke_all_for_user_def by (rule rows_age_update) simp

lemma revoke_family_of_age [simp]: "rows_age rows (revoke_family_of sha t rows)"
  by (simp add: revoke_family_of_def split: option.split)

lemma rotate_age:
  assumes ok: "tokens_ok rows" and rot: "rotate_refresh_token sha lt i nt now t rows = (res, rows')"
  shows "rows_age rows rows'"
proof (cases "lookup_by rt_hash (token_hash sha t) rows")
  case None
  then show ?thesis using ok rot by (simp add: rotate_eq)
next
  case (Some row)
  have "rows_age rows (update_where (\<lambda>r. rt_hash r = token_hash sha t) (\<lambda>r. r\<lparr>rt_used := Some now\<rparr>) rows)"
    by (rule rows_age_update) simp
  then show ?thesis using rot ok Some by (auto simp: rotate_eq split: if_splits)
qed

lemma family_dead_update:
  assumes dead: "family_dead f rows" and ag: "\<And>r. ages r (g r)"
  shows "family_dead f (update_where P g rows)"
proof -
  let ?g = "\<lambda>r. if P r then g r else r"
  have fam: "rt_family (?g r) = rt_family r" and alive: "live_token (?g r) \<Longrightarrow> live_token r" for r
    using ag [of r] ages_live [OF ag [of r]] by (simp_all add: ages_def split: if_splits)
  have "rt_family ` ?g ` set rows = rt_family ` set rows" by (simp only: image_image fam)
  moreover have "\<forall>r \<in> set rows. rt_family (?g r) = f \<longrightarrow> \<not> live_token (?g r)"
    using dead fam alive unfolding family_dead_def by metis
  ultimately show ?thesis using dead unfolding family_dead_def set_update_where ball_simps(9) by simp
qed

lemma family_dead_append:
  "family_dead f rows \<Longrightarrow> rt_family n \<noteq> f \<Longrightarrow> family_dead f (rows @ [n])"
  by (auto simp: family_dead_def)

lemma rotate_dead:
  assumes ok: "tokens_ok rows" and dead: "family_dead f rows"
    and rot: "rotate_refresh_token sha lt i nt now t rows = (res, rows')"
  shows "family_dead f rows'"
proof (cases "lookup_by rt_hash (token_hash sha t) rows")
  case None
  then show ?thesis using ok rot dead by (simp add: rotate_eq)
next
  case (Some row)
  have row: "row \<in> set rows" using Some by (auto dest: lookup_by_SomeD)
  have rev: "family_dead f (revoke_family (rt_family row) rows)"
    unfolding revoke_family_def by (rule family_dead_update [OF dead]) simp
  have "family_dead f (update_where (\<lambda>r. rt_hash r = token_hash sha t) (\<lambda>r. r\<lparr>rt_used := Some now\<rparr>) rows
      @ [successor sha lt i nt now row])" if "live_token row"
  proof (rule family_dead_append)
    show "family_dead f (update_where (\<lambda>r. rt_hash r = token_hash sha t) (\<lambda>r. r\<lparr>rt_used := Some now\<rparr>) rows)"
      by (rule family_dead_update [OF dead]) simp
    show "rt_family (successor sha lt i nt now row) \<noteq> f" using dead row that by (auto simp: family_dead_def)
  qed
  then show ?thesis using rot ok Some rev dead by (auto simp: rotate_eq split: if_splits)
qed

end
