(* ===== verification/SessionsProps.thy ===== *)
theory SessionsProps imports Sessions begin

text \<open>
  Properties of sessions over runs of the authentication routes, in any order and with any arguments:
  the invariant of the token table, what replay, logout and logout everywhere end for good, and that an
  unspent token rotates.
\<close>

section \<open>Runs\<close>

text \<open>
  One request, or a change of the user table outside the routes. Ids that \<open>uuid4\<close> draws for a new family
  or user are new. The routes of the limiter run on Redis.
\<close>

inductive auth_step :: "(bytes \<Rightarrow> string) \<Rightarrow> auth_db \<Rightarrow> auth_db \<Rightarrow> bool" for sha :: "bytes \<Rightarrow> string" where
  by_login: "new_family \<notin> rt_family ` set (au_tokens db) \<Longrightarrow>
     login (limiter :: redis_db rate_port) rst ust sha jl auth rnow now jti new_id new_family nt un pw db s
       = (res, db', s') \<Longrightarrow> auth_step sha db db'"
| by_refresh: "refresh ust sha jl now jti new_id nt t db = (res, db') \<Longrightarrow> auth_step sha db db'"
| by_logout: "logout sha jl mode now tok t db d = (db', d') \<Longrightarrow> auth_step sha db db'"
| by_logout_all: "auth_step sha db (logout_all user db)"
| by_reset: "auth_step sha db (on_after_reset_password user db)"
| by_register: "u_id u \<notin> u_id ` set (au_users db) \<Longrightarrow> auth_step sha db (db\<lparr>au_users := au_users db @ [u]\<rparr>)"
| by_activation: "auth_step sha db
     (db\<lparr>au_users := update_where (\<lambda>u. u_id u = user) (\<lambda>u. u\<lparr>u_active := b\<rparr>) (au_users db)\<rparr>)"

abbreviation auth_steps :: "(bytes \<Rightarrow> string) \<Rightarrow> auth_db \<Rightarrow> auth_db \<Rightarrow> bool" where
  "auth_steps sha \<equiv> (auth_step sha)\<^sup>*\<^sup>*"

definition auth_ok :: "auth_db \<Rightarrow> bool" where
  "auth_ok db \<longleftrightarrow> tokens_ok (au_tokens db) \<and> unique_on u_id (au_users db)"

text \<open>What every step does to the two tables.\<close>

definition users_age :: "app_user list \<Rightarrow> app_user list \<Rightarrow> bool" where
  "users_age us us' \<longleftrightarrow>
    (\<forall>u \<in> set us. \<exists>u' \<in> set us'. u_id u' = u_id u \<and> u_token_version u \<le> u_token_version u')"

lemma users_age_refl [simp]: "users_age us us"
  by (auto simp: users_age_def)

lemma users_age_trans: "users_age a b \<Longrightarrow> users_age b c \<Longrightarrow> users_age a c"
  unfolding users_age_def by (metis order_trans)

lemma users_age_update:
  "(\<And>u. u_id (f u) = u_id u \<and> u_token_version u \<le> u_token_version (f u)) \<Longrightarrow> users_age us (update_where P f us)"
  using in_update_where [of _ us P f] unfolding users_age_def by (metis (full_types) order_refl)

definition step_ok :: "auth_db \<Rightarrow> auth_db \<Rightarrow> bool" where
  "step_ok db db' \<longleftrightarrow> auth_ok db' \<and> rows_age (au_tokens db) (au_tokens db') \<and> users_age (au_users db) (au_users db')
     \<and> (\<forall>f. family_dead f (au_tokens db) \<longrightarrow> family_dead f (au_tokens db'))"

lemma step_ok_refl: "auth_ok db \<Longrightarrow> step_ok db db"
  by (simp add: step_ok_def)

lemma step_ok_trans: "step_ok a b \<Longrightarrow> step_ok b c \<Longrightarrow> step_ok a c"
  using rows_age_trans users_age_trans unfolding step_ok_def by blast

text \<open>A write of the token table alone, or of the user table alone.\<close>

lemma step_ok_tokens:
  "auth_ok db \<Longrightarrow> tokens_ok rows \<Longrightarrow> rows_age (au_tokens db) rows \<Longrightarrow>
    (\<And>f. family_dead f (au_tokens db) \<Longrightarrow> family_dead f rows) \<Longrightarrow> step_ok db (db\<lparr>au_tokens := rows\<rparr>)"
  by (simp add: step_ok_def auth_ok_def)

lemma step_ok_users:
  "auth_ok db \<Longrightarrow> unique_on u_id us \<Longrightarrow> users_age (au_users db) us \<Longrightarrow> step_ok db (db\<lparr>au_users := us\<rparr>)"
  by (simp add: step_ok_def auth_ok_def)

lemma step_ok_mark:
  assumes ok: "auth_ok db" and ag: "\<And>r. ages r (g r)"
  shows "step_ok db (db\<lparr>au_tokens := update_where P g (au_tokens db)\<rparr>)"
proof (rule step_ok_tokens [OF ok])
  show "tokens_ok (update_where P g (au_tokens db))"
    using ok by (intro tokens_ok_update ag) (simp add: auth_ok_def)
  show "rows_age (au_tokens db) (update_where P g (au_tokens db))" by (rule rows_age_update [OF ag])
  show "family_dead f (update_where P g (au_tokens db))" if "family_dead f (au_tokens db)" for f
    by (rule family_dead_update [OF that ag])
qed

lemma issue_step_ok:
  assumes ok: "auth_ok db" and new: "family \<notin> rt_family ` set (au_tokens db)"
    and iss: "issue_refresh_token sha lt i nt now u family (au_tokens db) = Inr (t, rows)"
  shows "step_ok db (db\<lparr>au_tokens := rows\<rparr>)"
proof -
  let ?n = "\<lparr>rt_id = i, rt_user = u, rt_hash = token_hash sha nt, rt_family = family,
         rt_expires = now + seconds lt, rt_used = None, rt_revoked = False\<rparr>"
  have rows: "rows = au_tokens db @ [?n]" and fresh: "token_hash sha nt \<notin> rt_hash ` set (au_tokens db)"
    using iss by (auto simp: issue_refresh_token_def insert_unique_def split: if_splits)
  have other: "rt_family r \<noteq> family" if "r \<in> set (au_tokens db)" for r using new that by blast
  have "tokens_ok (au_tokens db @ [?n])"
    using ok fresh other by (intro tokens_ok_append) (auto simp: auth_ok_def)
  moreover have "family_dead f (au_tokens db @ [?n])" if "family_dead f (au_tokens db)" for f
  proof (rule family_dead_append [OF that])
    have "f \<in> rt_family ` set (au_tokens db)" using that by (simp add: family_dead_def)
    then show "rt_family ?n \<noteq> f" using new by auto
  qed
  ultimately show ?thesis unfolding rows by (intro step_ok_tokens [OF ok]) simp_all
qed

lemma rotate_step_ok:
  assumes ok: "auth_ok db" and rot: "rotate_refresh_token sha lt i nt now t (au_tokens db) = (res, rows)"
  shows "step_ok db (db\<lparr>au_tokens := rows\<rparr>)"
proof -
  have tok: "tokens_ok (au_tokens db)" using ok by (simp add: auth_ok_def)
  show ?thesis
    by (rule step_ok_tokens [OF ok rotate_ok [OF tok rot] rotate_age [OF tok rot] rotate_dead [OF tok _ rot]])
qed

lemma refresh_step_ok:
  assumes ok: "auth_ok db" and ref: "refresh ust sha jl now jti i nt t db = (res, db')"
  shows "step_ok db db'"
proof -
  obtain rot rows where rot:
    "rotate_refresh_token sha (users_refresh_lifetime_seconds ust) i nt now t (au_tokens db) = (rot, rows)"
    by (cases "rotate_refresh_token sha (users_refresh_lifetime_seconds ust) i nt now t (au_tokens db)") auto
  have "db' = db \<or> db' = db\<lparr>au_tokens := rows\<rparr>"
    using ref rot unfolding refresh_def
    by (simp split: sum.splits exn.splits prod.splits option.splits if_splits)
  then show ?thesis using rotate_step_ok [OF ok rot] step_ok_refl [OF ok] by blast
qed

lemma login_step_ok:
  assumes ok: "auth_ok db" and new: "nf \<notin> rt_family ` set (au_tokens db)"
    and log: "login (limiter :: 's rate_port) rst ust sha jl auth rnow now jti i nf nt un pw db s = (res, db', s')"
  shows "step_ok db db'"
proof -
  have "db' = db \<or> (\<exists>u t rows. issue_refresh_token sha (users_refresh_lifetime_seconds ust) i nt now
      u nf (au_tokens db) = Inr (t, rows) \<and> db' = db\<lparr>au_tokens := rows\<rparr>)"
    using log unfolding login_def Let_def
    by (simp split: sum.splits prod.splits option.splits if_splits) blast+
  then show ?thesis using issue_step_ok [OF ok new] step_ok_refl [OF ok] by blast
qed

lemma logout_all_step_ok:
  assumes ok: "auth_ok db"
  shows "step_ok db (logout_all u db)"
proof -
  let ?us = "update_where (\<lambda>v. u_id v = u) (\<lambda>v. v\<lparr>u_token_version := u_token_version v + 1\<rparr>) (au_users db)"
  have "unique_on u_id ?us" using ok by (intro unique_on_update) (simp_all add: auth_ok_def)
  moreover have "users_age (au_users db) ?us" by (rule users_age_update) simp
  ultimately have first: "step_ok db (db\<lparr>au_users := ?us\<rparr>)" by (rule step_ok_users [OF ok])
  then have "auth_ok (db\<lparr>au_users := ?us\<rparr>)" by (simp add: step_ok_def)
  from step_ok_mark [OF this, of "\<lambda>r. r\<lparr>rt_revoked := True\<rparr>" "\<lambda>r. rt_user r = u"] first
  show ?thesis by (simp add: logout_all_def revoke_all_for_user_def step_ok_trans)
qed

lemma logout_step_ok:
  assumes ok: "auth_ok db" and out: "logout sha jl mode now tok t db d = (db', d')"
  shows "step_ok db db'"
proof -
  have "db' = db\<lparr>au_tokens := revoke_family_of sha t (au_tokens db)\<rparr>" using out by (auto simp: logout_def)
  then show ?thesis
    using step_ok_mark [OF ok, of "\<lambda>r. r\<lparr>rt_revoked := True\<rparr>"] step_ok_refl [OF ok]
    by (simp add: revoke_family_of_def revoke_family_def split: option.split)
qed

lemma auth_step_ok: "auth_step sha db db' \<Longrightarrow> auth_ok db \<Longrightarrow> step_ok db db'"
proof (induction rule: auth_step.induct)
  case (by_register u db)
  have "unique_on u_id (au_users db @ [u])" using by_register by (simp add: auth_ok_def unique_on_def)
  then show ?case by (intro step_ok_users by_register) (auto simp: users_age_def)
next
  case (by_activation db user b)
  show ?case
  proof (rule step_ok_users [OF by_activation])
    show "unique_on u_id (update_where (\<lambda>u. u_id u = user) (\<lambda>u. u\<lparr>u_active := b\<rparr>) (au_users db))"
      using by_activation by (intro unique_on_update) (simp_all add: auth_ok_def)
    show "users_age (au_users db) (update_where (\<lambda>u. u_id u = user) (\<lambda>u. u\<lparr>u_active := b\<rparr>) (au_users db))"
      by (rule users_age_update) simp
  qed
qed (simp_all add: login_step_ok refresh_step_ok logout_step_ok logout_all_step_ok on_after_reset_password_def)

lemma auth_steps_ok: "auth_steps sha db db' \<Longrightarrow> auth_ok db \<Longrightarrow> step_ok db db'"
proof (induction rule: rtranclp_induct)
  case base
  then show ?case by (rule step_ok_refl)
next
  case (step y z)
  then have y: "step_ok db y" by simp
  then have "auth_ok y" by (simp add: step_ok_def)
  then show ?case using step_ok_trans [OF y auth_step_ok [OF step(2)]] by simp
qed


section \<open>Refreshing with one token\<close>

lemma refresh_dead:
  assumes ok: "auth_ok db" and row: "lookup_by rt_hash (token_hash sha t) (au_tokens db) = Some row"
    and dead: "\<not> live_token row"
  shows "refresh ust sha jl now jti i nt t db = (Inl BAD_REFRESH,
    if rt_expires row \<le> now then db else db\<lparr>au_tokens := revoke_family (rt_family row) (au_tokens db)\<rparr>)"
proof -
  have tok: "tokens_ok (au_tokens db)" using ok by (simp add: auth_ok_def)
  show ?thesis using row dead by (simp add: refresh_def rotate_eq [OF tok])
qed

lemma refresh_live:
  assumes ok: "auth_ok db" and row: "lookup_by rt_hash (token_hash sha t) (au_tokens db) = Some row"
    and live: "live_token row" "now < rt_expires row" and new: "token_hash sha nt \<notin> rt_hash ` set (au_tokens db)"
    and u: "lookup_by u_id (rt_user row) (au_users db) = Some u" "u_active u"
  shows "refresh ust sha jl now jti i nt t db =
    (Inr \<lparr>access_token = write_token jl (users_jwt_lifetime_seconds ust) jti now u, pair_refresh_token = nt\<rparr>,
     db\<lparr>au_tokens := update_where (\<lambda>r. rt_hash r = token_hash sha t) (\<lambda>r. r\<lparr>rt_used := Some now\<rparr>) (au_tokens db)
          @ [successor sha (users_refresh_lifetime_seconds ust) i nt now row]\<rparr>)"
proof -
  have tok: "tokens_ok (au_tokens db)" using ok by (simp add: auth_ok_def)
  show ?thesis using row live new u by (simp add: refresh_def rotate_eq [OF tok])
qed

lemma refresh_success:
  assumes ok: "auth_ok db" and ref: "refresh ust sha jl now jti i nt t db = (Inr pair, db1)"
  obtains row where "lookup_by rt_hash (token_hash sha t) (au_tokens db) = Some row" "live_token row"
    "au_tokens db1 = update_where (\<lambda>r. rt_hash r = token_hash sha t) (\<lambda>r. r\<lparr>rt_used := Some now\<rparr>) (au_tokens db)
          @ [successor sha (users_refresh_lifetime_seconds ust) i nt now row]"
proof -
  have tok: "tokens_ok (au_tokens db)" using ok by (simp add: auth_ok_def)
  show ?thesis
  proof (cases "lookup_by rt_hash (token_hash sha t) (au_tokens db)")
    case None
    then show ?thesis using ref by (simp add: refresh_def rotate_eq [OF tok])
  next
    case (Some row)
    then show ?thesis using ref that [OF Some]
      by (simp add: refresh_def rotate_eq [OF tok] split: if_splits option.splits) auto
  qed
qed

text \<open>A token that is dead, or revoked, is found so in every later table.\<close>

lemma aged_row:
  assumes ok: "auth_ok db2" and ag: "rows_age rows (au_tokens db2)" and row: "row \<in> set rows"
  obtains row' where "lookup_by rt_hash (rt_hash row) (au_tokens db2) = Some row'" "ages row row'"
proof -
  obtain row' where r: "row' \<in> set (au_tokens db2)" "ages row row'" using ag row by (auto simp: rows_age_def)
  have "unique_on rt_hash (au_tokens db2)" using ok by (simp add: auth_ok_def tokens_ok_def)
  then have "lookup_by rt_hash (rt_hash row') (au_tokens db2) = Some row'" using r(1) by (rule lookup_by_unique)
  then show ?thesis using that r(2) by (simp add: ages_def)
qed

lemma dead_token_refused:
  assumes ok: "auth_ok db" and steps: "auth_steps sha db db2" and row: "row \<in> set (au_tokens db)"
    and h: "rt_hash row = token_hash sha t" and dead: "\<not> live_token row"
  shows "\<exists>row'. ages row row' \<and> lookup_by rt_hash (token_hash sha t) (au_tokens db2) = Some row'
    \<and> refresh ust sha jl now jti i nt t db2 = (Inl BAD_REFRESH,
        if rt_expires row \<le> now then db2
        else db2\<lparr>au_tokens := revoke_family (rt_family row) (au_tokens db2)\<rparr>)"
proof -
  have s: "step_ok db db2" by (rule auth_steps_ok [OF steps ok])
  then have ok2: "auth_ok db2" by (simp add: step_ok_def)
  obtain row' where r: "lookup_by rt_hash (rt_hash row) (au_tokens db2) = Some row'" "ages row row'"
    using aged_row [OF ok2 _ row] s by (auto simp: step_ok_def)
  have "\<not> live_token row'" using ages_live [OF r(2)] dead by blast
  from refresh_dead [OF ok2 _ this, of sha t ust jl now jti i nt] r h show ?thesis by (simp add: ages_def)
qed

lemma dead_token_answer:
  assumes "auth_ok db" "auth_steps sha db db2" "row \<in> set (au_tokens db)"
    and "rt_hash row = token_hash sha t" "\<not> live_token row"
  shows "fst (refresh ust sha jl now jti i nt t db2) = Inl BAD_REFRESH"
proof -
  from dead_token_refused [OF assms, of ust jl now jti i nt]
  obtain db3 where "refresh ust sha jl now jti i nt t db2 = (Inl BAD_REFRESH, db3)"
    by (elim exE conjE) (rule that)
  then show ?thesis by (simp only: fst_conv)
qed

lemma revoked_family_dead:
  assumes mem: "row \<in> set rows" shows "family_dead (rt_family row) (revoke_family (rt_family row) rows)"
proof -
  have "rt_family ` set (revoke_family (rt_family row) rows) = rt_family ` set rows"
    unfolding revoke_family_def by (rule keys_update_where) simp
  moreover have "\<not> live_token r" if "r \<in> set (revoke_family (rt_family row) rows)" "rt_family r = rt_family row" for r
    using that by (auto simp: revoke_family_def set_update_where live_token_def split: if_splits)
  ultimately show ?thesis using mem by (auto simp: family_dead_def)
qed

lemma family_stays_dead:
  assumes "auth_ok db" "auth_steps sha db db2" "family_dead f (au_tokens db)"
    and "r \<in> set (au_tokens db2)" "rt_family r = f"
  shows "\<not> live_token r"
proof -
  have "step_ok db db2" by (rule auth_steps_ok [OF assms(2,1)])
  then have "family_dead f (au_tokens db2)" using assms(3) unfolding step_ok_def by blast
  then show ?thesis using assms(4,5) unfolding family_dead_def by blast
qed

section \<open>Properties\<close>

text \<open>C4. However the authentication routes run, token hashes stay unique, every family of refresh
  tokens belongs to one user, and at most one of its tokens is unspent and not revoked.\<close>
theorem one_live_token_per_family:
  assumes "auth_steps sha \<lparr>au_users = [], au_tokens = []\<rparr> db"
  shows "distinct (map rt_hash (au_tokens db)) \<and>
    (\<forall>r \<in> set (au_tokens db). \<forall>r' \<in> set (au_tokens db). rt_family r = rt_family r' \<longrightarrow>
       rt_user r = rt_user r' \<and> (live_token r \<and> live_token r' \<longrightarrow> r = r'))"
proof -
  have "auth_ok \<lparr>au_users = [], au_tokens = []\<rparr>" by (simp add: auth_ok_def tokens_ok_def)
  from auth_steps_ok [OF assms this] have "tokens_ok (au_tokens db)" by (simp add: step_ok_def auth_ok_def)
  then show ?thesis unfolding tokens_ok_def unique_on_def by assumption
qed

text \<open>C13. A refresh token is spent once. Presenting it again, whatever other transactions ran in between, is refused with
  401. Before the token expires this also ends its family: no token of the family, the successors included, is usable
  after any transactions that follow. Once it has expired the replay changes nothing. Transactions follow each other here;
  what overlaps a rotation is in SessionsConc (\<open>revocation_misses_successor\<close>).\<close>
theorem replayed_refresh_token_ends_family:
  assumes ok: "auth_ok db" and first: "refresh ust sha jl now jti i nt t db = (Inr pair, db1)"
    and later: "auth_steps sha db1 db2"
    and again: "refresh ust' sha jl' now' jti' i' nt' t db2 = (res, db3)"
    and after: "auth_steps sha db3 db4"
  shows "res = Inl BAD_REFRESH \<and> (\<exists>row \<in> set (au_tokens db). rt_hash row = token_hash sha t \<and>
    (if now' < rt_expires row
     then (\<forall>r \<in> set (au_tokens db4). rt_family r = rt_family row \<longrightarrow> \<not> live_token r)
     else db3 = db2))"
proof -
  obtain row where row: "lookup_by rt_hash (token_hash sha t) (au_tokens db) = Some row"
    and db1: "au_tokens db1 = update_where (\<lambda>r. rt_hash r = token_hash sha t) (\<lambda>r. r\<lparr>rt_used := Some now\<rparr>) (au_tokens db)
          @ [successor sha (users_refresh_lifetime_seconds ust) i nt now row]"
    by (rule refresh_success [OF ok first])
  have mem: "row \<in> set (au_tokens db)" "rt_hash row = token_hash sha t" using row by (auto dest: lookup_by_SomeD)
  let ?used = "row\<lparr>rt_used := Some now\<rparr>"
  have used: "?used \<in> set (au_tokens db1)"
    using in_update_where [OF mem(1), of "\<lambda>r. rt_hash r = token_hash sha t" "\<lambda>r. r\<lparr>rt_used := Some now\<rparr>"] mem(2) db1
    by simp
  have ok1: "auth_ok db1" using refresh_step_ok [OF ok first] by (simp add: step_ok_def)
  have ok2: "auth_ok db2" using auth_steps_ok [OF later ok1] by (simp add: step_ok_def)
  obtain row' where row': "ages ?used row'" "lookup_by rt_hash (token_hash sha t) (au_tokens db2) = Some row'"
    and ref: "(res, db3) = (Inl BAD_REFRESH, if rt_expires row \<le> now' then db2
        else db2\<lparr>au_tokens := revoke_family (rt_family row) (au_tokens db2)\<rparr>)"
    using dead_token_refused [OF ok1 later used, of t ust' jl' now' jti' i' nt'] mem(2) again
    by (auto simp: live_token_def)
  have "\<not> live_token r"
    if exp: "now' < rt_expires row" and r: "r \<in> set (au_tokens db4)" "rt_family r = rt_family row" for r
  proof (rule family_stays_dead [OF _ after _ r])
    show "auth_ok db3" using refresh_step_ok [OF ok2 again] by (simp add: step_ok_def)
    have "row' \<in> set (au_tokens db2)" "rt_family row' = rt_family row"
      using row' by (auto dest: lookup_by_SomeD simp: ages_def)
    from revoked_family_dead [OF this(1)] this(2)
    show "family_dead (rt_family row) (au_tokens db3)" using ref exp by simp
  qed
  moreover have "rt_expires row \<le> now' \<Longrightarrow> db3 = db2" using ref by simp
  ultimately show ?thesis using ref mem by (intro conjI bexI [of _ row]) (simp_all add: not_less)
qed

text \<open>C36. An unspent, unexpired token of an active user rotates: the route answers with the new refresh
  token and an access token that authenticates as that user; the new token is the only usable one of the
  family.\<close>
theorem live_token_rotates:
  assumes ok: "auth_ok db" and row: "lookup_by rt_hash (token_hash sha t) (au_tokens db) = Some row"
    and live: "live_token row" "now < rt_expires row" and new: "token_hash sha nt \<notin> rt_hash ` set (au_tokens db)"
    and u: "lookup_by u_id (rt_user row) (au_users db) = Some u" "u_active u"
    and claims: "c = \<lparr>c_sub = Some (u_id u), c_tv = Some (u_token_version u), c_jti = Some jti,
        c_exp = Some (now + seconds (users_jwt_lifetime_seconds ust))\<rparr>"
    and jwt: "later < now + seconds (users_jwt_lifetime_seconds ust) \<Longrightarrow> jwt_decode jl later (jwt_encode jl c) = Some c"
    and soon: "later < now + seconds (users_jwt_lifetime_seconds ust)" and allowed: "\<not> is_jti_denied mode later jti d"
  shows "\<exists>access db1. refresh ust sha jl now jti i nt t db = (Inr \<lparr>access_token = access, pair_refresh_token = nt\<rparr>, db1)
    \<and> read_token jl mode later (Some access) (au_users db1) d = Some u
    \<and> (\<exists>n \<in> set (au_tokens db1). rt_hash n = token_hash sha nt \<and> rt_user n = rt_user row
         \<and> rt_expires n = now + seconds (users_refresh_lifetime_seconds ust)
         \<and> (\<forall>r \<in> set (au_tokens db1). rt_family r = rt_family row \<and> live_token r \<longleftrightarrow> r = n))"
proof -
  let ?n = "successor sha (users_refresh_lifetime_seconds ust) i nt now row"
  let ?rows = "update_where (\<lambda>r. rt_hash r = token_hash sha t) (\<lambda>r. r\<lparr>rt_used := Some now\<rparr>) (au_tokens db) @ [?n]"
  let ?a = "write_token jl (users_jwt_lifetime_seconds ust) jti now u"
  note ref = refresh_live [OF ok row live new u, of ust jl jti i]
  have "auth_ok (db\<lparr>au_tokens := ?rows\<rparr>)" using refresh_step_ok [OF ok ref] by (simp add: step_ok_def)
  then have tok: "tokens_ok ?rows" by (simp add: auth_ok_def)
  have "(rt_family r = rt_family row \<and> live_token r) = (r = ?n)" if "r \<in> set ?rows" for r
  proof
    assume r: "rt_family r = rt_family row \<and> live_token r"
    have "?n \<in> set ?rows" by simp
    with tok that r show "r = ?n" unfolding tokens_ok_def by (metis successor_simps(3,4))
  qed simp
  then have only: "\<forall>r \<in> set ?rows. rt_family r = rt_family row \<and> live_token r \<longleftrightarrow> r = ?n" by (rule ballI)
  have uid: "u_id u = rt_user row" using u(1) by (auto dest: lookup_by_SomeD)
  have dec: "jwt_decode jl later ?a = Some c" using jwt [OF soon] unfolding write_token_def claims .
  have "rt_hash ?n = token_hash sha nt \<and> rt_user ?n = rt_user row
     \<and> rt_expires ?n = now + seconds (users_refresh_lifetime_seconds ust)" by (simp add: successor_def)
  moreover have "?n \<in> set ?rows" by simp
  moreover have "read_token jl mode later (Some ?a) (au_users db) d = Some u"
    using dec allowed u(1) uid by (simp add: read_token_def claims)
  ultimately have "(\<exists>n \<in> set ?rows. rt_hash n = token_hash sha nt \<and> rt_user n = rt_user row
      \<and> rt_expires n = now + seconds (users_refresh_lifetime_seconds ust)
      \<and> (\<forall>r \<in> set ?rows. rt_family r = rt_family row \<and> live_token r \<longleftrightarrow> r = n))
      \<and> read_token jl mode later (Some ?a) (au_users db) d = Some u"
    using only by blast
  moreover have "au_tokens (db\<lparr>au_tokens := ?rows\<rparr>) = ?rows" "au_users (db\<lparr>au_tokens := ?rows\<rparr>) = au_users db"
    by simp_all
  ultimately show ?thesis using ref
    by (intro exI [of _ ?a] exI [of _ "db\<lparr>au_tokens := ?rows\<rparr>"]) (simp only: simp_thms)
qed


lemma read_token_Some:
  assumes "read_token jl mode now (Some a) us d = Some u"
  obtains c where "jwt_decode jl now a = Some c" "c_sub c = Some (u_id u)" "c_tv c = Some (u_token_version u)"
    "u \<in> set us"
  using assms by (auto simp: read_token_def split: option.splits if_splits dest: lookup_by_SomeD)

lemma read_token_stale:
  assumes tv: "\<And>u. u \<in> set us \<Longrightarrow> c_sub c = Some (u_id u) \<Longrightarrow> c_tv c \<noteq> Some (u_token_version u)"
    and dec: "jwt_decode jl now a = None \<or> jwt_decode jl now a = Some c"
  shows "read_token jl mode now (Some a) us d = None"
proof (cases "read_token jl mode now (Some a) us d")
  case None
  then show ?thesis .
next
  case (Some u)
  then obtain c' where c': "jwt_decode jl now a = Some c'" "c_sub c' = Some (u_id u)"
      "c_tv c' = Some (u_token_version u)" "u \<in> set us"
    by (rule read_token_Some)
  then have "c' = c" using dec by simp
  then show ?thesis using tv [OF c'(4)] c'(2,3) by simp
qed

lemma logout_all_revokes:
  assumes "r \<in> set (au_tokens db)" "rt_user r = user"
  shows "r\<lparr>rt_revoked := True\<rparr> \<in> set (au_tokens (logout_all user db))"
  using in_update_where [OF assms(1), of "\<lambda>r. rt_user r = user" "\<lambda>r. r\<lparr>rt_revoked := True\<rparr>"] assms(2)
  by (simp add: logout_all_def revoke_all_for_user_def)

lemma logout_all_bumps:
  assumes "u \<in> set (au_users db)" "u_id u = user"
  shows "u\<lparr>u_token_version := u_token_version u + 1\<rparr> \<in> set (au_users (logout_all user db))"
  using in_update_where [OF assms(1), of "\<lambda>u. u_id u = user" "\<lambda>u. u\<lparr>u_token_version := u_token_version u + 1\<rparr>"]
    assms(2)
  by (simp add: logout_all_def)

text \<open>C24. Logging out everywhere, and a password reset, end every session of the user for good: an access
  token that worked before is refused whatever runs afterwards, with or without the denylist, and no
  refresh token issued before is accepted again.\<close>
theorem logout_all_ends_sessions:
  assumes ok: "auth_ok db" and out: "db1 \<in> {logout_all user db, on_after_reset_password user db}"
    and later: "auth_steps sha db1 db2"
    and access: "read_token jl mode now (Some a) (au_users db) d = Some u" "u_id u = user"
    and jwt: "\<And>n c c'. jwt_decode jl now a = Some c \<Longrightarrow> jwt_decode jl n a = Some c' \<Longrightarrow> c' = c"
    and tok: "r \<in> set (au_tokens db)" "rt_user r = user" "rt_hash r = token_hash sha t"
  shows "read_token jl mode' now' (Some a) (au_users db2) d' = None \<and>
    fst (refresh ust sha jl now' jti i nt t db2) = Inl BAD_REFRESH"
proof -
  have db1: "db1 = logout_all user db" using out by (auto simp: on_after_reset_password_def)
  have ok1: "auth_ok db1" using logout_all_step_ok [OF ok] db1 by (simp add: step_ok_def)
  note steps = auth_steps_ok [OF later ok1]
  have ages: "users_age (au_users db1) (au_users db2)" and uniq: "unique_on u_id (au_users db2)"
    using steps unfolding step_ok_def auth_ok_def by blast+
  obtain c where c: "jwt_decode jl now a = Some c" "c_sub c = Some user" "c_tv c = Some (u_token_version u)"
    and mem: "u \<in> set (au_users db)"
  proof (rule read_token_Some [OF access(1)])
    fix c assume "jwt_decode jl now a = Some c" "c_sub c = Some (u_id u)" "c_tv c = Some (u_token_version u)"
      "u \<in> set (au_users db)"
    then show thesis using that access(2) by simp
  qed
  obtain u' where u': "u' \<in> set (au_users db2)" "u_id u' = user" "u_token_version u < u_token_version u'"
  proof -
    let ?u = "u\<lparr>u_token_version := u_token_version u + 1\<rparr>"
    have "?u \<in> set (au_users db1)" unfolding db1 by (rule logout_all_bumps [OF mem access(2)])
    then obtain u' where "u' \<in> set (au_users db2)" "u_id u' = u_id ?u" "u_token_version ?u \<le> u_token_version u'"
      using ages unfolding users_age_def by blast
    then show thesis using that access(2) by simp
  qed
  have "read_token jl mode' now' (Some a) (au_users db2) d' = None"
  proof (rule read_token_stale)
    show "jwt_decode jl now' a = None \<or> jwt_decode jl now' a = Some c"
    proof (cases "jwt_decode jl now' a")
      case (Some c')
      then have "c' = c" by (rule jwt [OF c(1)])
      then show ?thesis using Some by simp
    qed simp
    fix v assume v: "v \<in> set (au_users db2)" "c_sub c = Some (u_id v)"
    have "Some (u_id v) = Some user" using v(2) c(2) by (rule trans [OF sym])
    then have "u_id v = u_id u'" using u'(2) by (metis option.inject)
    then have "v = u'" by (rule unique_onD [OF uniq v(1) u'(1)])
    then show "c_tv c \<noteq> Some (u_token_version v)" using c(3) u'(3) by force
  qed
  moreover have "fst (refresh ust sha jl now' jti i nt t db2) = Inl BAD_REFRESH"
  proof -
    have "r\<lparr>rt_revoked := True\<rparr> \<in> set (au_tokens db1)" unfolding db1 by (rule logout_all_revokes [OF tok(1,2)])
    moreover have "rt_hash (r\<lparr>rt_revoked := True\<rparr>) = token_hash sha t" "\<not> live_token (r\<lparr>rt_revoked := True\<rparr>)"
      using tok(3) by (simp_all add: live_token_def)
    ultimately show ?thesis by (rule dead_token_answer [OF ok1 later])
  qed
  ultimately show ?thesis ..
qed

text \<open>The remaining life of a token in whole seconds is enough to cover it.\<close>

lemma ttl_covers:
  assumes "now < e" "e mod 1000000 = 0"
  shows "0 < e div 1000000 - now div 1000000" "e \<le> now + seconds (e div 1000000 - now div 1000000)"
proof -
  define a b r where "a = e div 1000000" and "b = now div 1000000" and "r = now mod 1000000"
  have "e = 1000000 * a" using assms(2) unfolding a_def by (metis add.right_neutral mult_div_mod_eq)
  moreover have "now = 1000000 * b + r" "0 \<le> r" unfolding b_def r_def by simp_all
  moreover have "seconds (a - b) = 1000000 * a - 1000000 * b" by (simp add: seconds_def)
  ultimately have "0 < a - b" "e \<le> now + seconds (a - b)" using assms(1) by linarith+
  then show "0 < e div 1000000 - now div 1000000" "e \<le> now + seconds (e div 1000000 - now div 1000000)"
    unfolding a_def b_def by blast+
qed

text \<open>Logging out with an access token and a refresh token ends that session for good: no token of the
  refresh token's family is usable again, and while Redis is up the access token is refused at every
  instant, before or after it expires.\<close>
theorem logout_ends_session:
  assumes ok: "auth_ok db" and out: "logout sha jl UpList now (Some a) t db d = (db1, d1)"
    and later: "auth_steps sha db1 db2"
    and row: "row \<in> set (au_tokens db)" "rt_hash row = token_hash sha t"
    and dec: "jwt_decode jl now a = Some c" "c_jti c = Some j" "c_exp c = Some e" "e mod 1000000 = 0"
    and same: "\<And>n c'. jwt_decode jl n a = Some c' \<Longrightarrow> c' = c \<and> n < e"
    and kept: "d2 j = d1 j"
  shows "(\<forall>r \<in> set (au_tokens db2). rt_family r = rt_family row \<longrightarrow> \<not> live_token r) \<and>
    read_token jl UpList now' (Some a) us d2 = None"
proof -
  have uniq: "unique_on rt_hash (au_tokens db)" using ok by (simp add: auth_ok_def tokens_ok_def)
  have "lookup_by rt_hash (token_hash sha t) (au_tokens db) = Some row"
    using lookup_by_unique [OF uniq row(1)] row(2) by simp
  then have db1: "au_tokens db1 = revoke_family (rt_family row) (au_tokens db)"
    using out by (auto simp: logout_def revoke_family_of_def)
  have ok1: "auth_ok db1" using logout_step_ok [OF ok out] by (simp add: step_ok_def)
  have "family_dead (rt_family row) (au_tokens db1)" unfolding db1 by (rule revoked_family_dead [OF row(1)])
  then have "\<forall>r \<in> set (au_tokens db2). rt_family r = rt_family row \<longrightarrow> \<not> live_token r"
    using family_stays_dead [OF ok1 later] by blast
  moreover have "read_token jl UpList now' (Some a) us d2 = None"
  proof (cases "jwt_decode jl now' a")
    case None
    then show ?thesis by (simp add: read_token_def)
  next
    case (Some c')
    then have c': "c' = c" and exp: "now' < e" using same by auto
    have "now < e" using same [OF dec(1)] by simp
    note ttl = ttl_covers [OF this dec(4)]
    have "d1 = d(j \<mapsto> now + seconds (e div 1000000 - now div 1000000))"
    proof -
      have "max (e div 1000000 - now div 1000000) 1 = e div 1000000 - now div 1000000" using ttl(1) by linarith
      then show ?thesis using out dec(1-3) ttl(1)
        by (auto simp: logout_def denylist_access_token_def deny_jti_def Let_def)
    qed
    then have "is_jti_denied UpList now' j d2" using kept ttl(2) exp by (simp add: is_jti_denied_def)
    then show ?thesis using Some c' dec(2) by (simp add: read_token_def split: option.split)
  qed
  ultimately show ?thesis ..
qed


section \<open>Instances\<close>

text \<open>
  A user with one refresh token \<open>t0\<close>; SHA-256 and the JWT library are simple stand-ins: the token ''a''
  decodes to the claims of version 0 until second 900.
\<close>

definition demo_lifetimes :: users_settings where
  "demo_lifetimes = \<lparr>users_jwt_lifetime_seconds = 900, users_refresh_lifetime_seconds = 86400\<rparr>"

definition demo_sha :: "bytes \<Rightarrow> string" where
  "demo_sha b = b"

definition demo_user :: app_user where
  "demo_user = \<lparr>u_id = ''u1'', u_active = True, u_token_version = 0\<rparr>"

definition demo_claims :: claims where
  "demo_claims = \<lparr>c_sub = Some ''u1'', c_tv = Some 0, c_jti = Some ''j1'', c_exp = Some 900000000\<rparr>"

definition demo_jwt :: jwt_lib where
  "demo_jwt = \<lparr>jwt_encode = (\<lambda>c. ''a''),
     jwt_decode = (\<lambda>now t. if t = ''a'' \<and> now < 900000000 then Some demo_claims else None)\<rparr>"

definition demo_token :: "string \<Rightarrow> refresh_token" where
  "demo_token t = \<lparr>rt_id = t, rt_user = ''u1'', rt_hash = t, rt_family = ''f1'', rt_expires = 86400000000,
     rt_used = None, rt_revoked = False\<rparr>"

definition demo_auth :: auth_db where
  "demo_auth = \<lparr>au_users = [demo_user], au_tokens = [demo_token ''t0'']\<rparr>"

lemma demo_hash [simp]:
  "token_hash demo_sha ''t0'' = ''t0''" "token_hash demo_sha ''t1'' = ''t1''" "token_hash demo_sha ''t2'' = ''t2''"
  by (simp_all add: token_hash_def demo_sha_def utf8_def utf8_char_def)

lemmas demo_defs = demo_lifetimes_def demo_user_def demo_claims_def demo_jwt_def demo_token_def demo_auth_def
  seconds_def

lemma demo_ok: "auth_ok demo_auth"
  by (simp add: auth_ok_def tokens_ok_def unique_on_def demo_defs)

text \<open>Registration and login lead there.\<close>

lemma demo_reached: "auth_steps demo_sha \<lparr>au_users = [], au_tokens = []\<rparr> demo_auth"
proof -
  let ?none = "\<lparr>au_users = [], au_tokens = []\<rparr> :: auth_db"
  let ?s = "\<lparr>buckets = Map.empty, counters = Map.empty\<rparr> :: redis_db"
  let ?off = "\<lparr>ratelimit_enabled = False, ratelimit_default_limit = 1, ratelimit_default_window_seconds = 1,
     ratelimit_auth_limit = 1, ratelimit_auth_window_seconds = 1, ratelimit_lockout_threshold = 1,
     ratelimit_lockout_window_seconds = 1, ratelimit_plan_cache_seconds = 1\<rparr>"
  have "auth_step demo_sha ?none \<lparr>au_users = [demo_user], au_tokens = []\<rparr>"
    using by_register [of demo_user ?none demo_sha] by simp
  moreover have "auth_step demo_sha \<lparr>au_users = [demo_user], au_tokens = []\<rparr> demo_auth"
  proof (rule by_login [of "''f1''" _ "redis_limiter NoClient" ?off demo_lifetimes demo_sha demo_jwt
        "\<lambda>_ _. Some ''u1''" 0 0 "''j1''" "''t0''" "''t0''" "''u@x''" "''pw''" ?s
        "Inr \<lparr>access_token = ''a'', pair_refresh_token = ''t0''\<rparr>" _ ?s])
    show "login (redis_limiter NoClient) ?off demo_lifetimes demo_sha demo_jwt (\<lambda>_ _. Some ''u1'') 0 0 ''j1'' ''t0''
        ''f1'' ''t0'' ''u@x'' ''pw'' \<lparr>au_users = [demo_user], au_tokens = []\<rparr> ?s
      = (Inr \<lparr>access_token = ''a'', pair_refresh_token = ''t0''\<rparr>, demo_auth, ?s)"
      by (simp add: login_def assert_not_locked_out_def clear_login_failures_def write_token_def
          issue_refresh_token_def insert_unique_def demo_defs)
  qed simp
  ultimately show ?thesis by (meson rtranclp.simps)
qed

lemma one_live_token_per_family_witness: "distinct (map rt_hash (au_tokens demo_auth))"
  using one_live_token_per_family [OF demo_reached] by (rule conjunct1)

lemma demo_row: "lookup_by rt_hash (token_hash demo_sha ''t0'') (au_tokens demo_auth) = Some (demo_token ''t0'')"
  by (simp add: demo_defs)

lemma live_token_rotates_witness:
  "\<exists>access db1. refresh demo_lifetimes demo_sha demo_jwt 0 ''j1'' ''t1'' ''t1'' ''t0'' demo_auth
      = (Inr \<lparr>access_token = access, pair_refresh_token = ''t1''\<rparr>, db1)
    \<and> read_token demo_jwt UpList 5 (Some access) (au_users db1) Map.empty = Some demo_user"
proof -
  have "live_token (demo_token ''t0'')" "0 < rt_expires (demo_token ''t0'')"
    "token_hash demo_sha ''t1'' \<notin> rt_hash ` set (au_tokens demo_auth)"
    "lookup_by u_id (rt_user (demo_token ''t0'')) (au_users demo_auth) = Some demo_user" "u_active demo_user"
    "demo_claims = \<lparr>c_sub = Some (u_id demo_user), c_tv = Some (u_token_version demo_user), c_jti = Some ''j1'',
        c_exp = Some (0 + seconds (users_jwt_lifetime_seconds demo_lifetimes))\<rparr>"
    "jwt_decode demo_jwt 5 (jwt_encode demo_jwt demo_claims) = Some demo_claims"
    "5 < 0 + seconds (users_jwt_lifetime_seconds demo_lifetimes)" "\<not> is_jti_denied UpList 5 ''j1'' Map.empty"
    by (simp_all add: demo_defs live_token_def is_jti_denied_def)
  from live_token_rotates [OF demo_ok demo_row this] show ?thesis by blast
qed

text \<open>The stolen token: presented again, the family is dead.\<close>

definition demo_rotated :: auth_db where
  "demo_rotated = \<lparr>au_users = [demo_user], au_tokens = [(demo_token ''t0'')\<lparr>rt_used := Some 0\<rparr>, demo_token ''t1'']\<rparr>"

lemma replayed_refresh_token_ends_family_witness:
  "fst (refresh demo_lifetimes demo_sha demo_jwt 7 ''j3'' ''t2'' ''t2'' ''t0'' demo_rotated) = Inl BAD_REFRESH"
proof -
  have first: "refresh demo_lifetimes demo_sha demo_jwt 0 ''j1'' ''t1'' ''t1'' ''t0'' demo_auth
      = (Inr \<lparr>access_token = ''a'', pair_refresh_token = ''t1''\<rparr>, demo_rotated)"
    by (simp add: refresh_def rotate_refresh_token_def claim_token_def issue_refresh_token_def insert_unique_def
        live_token_def write_token_def Let_def demo_rotated_def demo_defs)
  have again: "refresh demo_lifetimes demo_sha demo_jwt 7 ''j3'' ''t2'' ''t2'' ''t0'' demo_rotated
      = (fst (refresh demo_lifetimes demo_sha demo_jwt 7 ''j3'' ''t2'' ''t2'' ''t0'' demo_rotated),
         snd (refresh demo_lifetimes demo_sha demo_jwt 7 ''j3'' ''t2'' ''t2'' ''t0'' demo_rotated))" by simp
  from replayed_refresh_token_ends_family [OF demo_ok first rtranclp.rtrancl_refl again rtranclp.rtrancl_refl]
  show ?thesis by (rule conjunct1)
qed

lemma logout_all_ends_sessions_witness:
  "read_token demo_jwt UpList 7 (Some ''a'') (au_users (logout_all ''u1'' demo_auth)) Map.empty = None
   \<and> fst (refresh demo_lifetimes demo_sha demo_jwt 7 ''j3'' ''t2'' ''t2'' ''t0'' (logout_all ''u1'' demo_auth))
     = Inl BAD_REFRESH"
proof (rule logout_all_ends_sessions [OF demo_ok _ rtranclp.rtrancl_refl, where now = 5 and u = demo_user
    and r = "demo_token ''t0''" and mode = UpList and d = Map.empty])
  show "read_token demo_jwt UpList 5 (Some ''a'') (au_users demo_auth) Map.empty = Some demo_user"
    by (simp add: read_token_def is_jti_denied_def demo_defs)
qed (simp_all add: demo_defs split: if_splits)

lemma logout_ends_session_witness:
  "read_token demo_jwt UpList 7 (Some ''a'') [demo_user] [''j1'' \<mapsto> 900000000] = None"
proof -
  have out: "logout demo_sha demo_jwt UpList 5000000 (Some ''a'') ''t0'' demo_auth Map.empty
      = (demo_auth\<lparr>au_tokens := revoke_family ''f1'' (au_tokens demo_auth)\<rparr>, [''j1'' \<mapsto> 900000000])"
    by (simp add: logout_def revoke_family_of_def denylist_access_token_def deny_jti_def Let_def demo_defs)
  have row: "demo_token ''t0'' \<in> set (au_tokens demo_auth)" "rt_hash (demo_token ''t0'') = token_hash demo_sha ''t0''"
    and dec: "jwt_decode demo_jwt 5000000 ''a'' = Some demo_claims" "c_jti demo_claims = Some ''j1''"
      "c_exp demo_claims = Some 900000000" "(900000000 :: int) mod 1000000 = 0"
    by (simp_all add: demo_defs)
  have same: "c' = demo_claims \<and> n < 900000000" if "jwt_decode demo_jwt n ''a'' = Some c'" for n c'
    using that by (simp add: demo_jwt_def split: if_splits)
  show ?thesis
  proof (rule conjunct2 [OF logout_ends_session [OF demo_ok out rtranclp.rtrancl_refl row dec, where now' = 7
      and us = "[demo_user]" and ?d2.0 = "[''j1'' \<mapsto> 900000000]"]])
    show "c' = demo_claims \<and> n < 900000000" if "jwt_decode demo_jwt n ''a'' = Some c'" for n c'
      by (rule same [OF that])
  qed (rule refl)
qed

end
