(* ===== verification/SessionsConc.thy ===== *)
theory SessionsConc imports SessionsProps begin

text \<open>
  Concurrent requests on the table of refresh tokens (\<open>app/users/sessions.py\<close>), statement by statement, as
  PostgreSQL runs them at READ COMMITTED: a statement sees what was committed when it began, a row that an
  open transaction changed is locked until it ends, and an UPDATE that waited for a row looks at its new
  version but not at rows that were inserted meanwhile. A token is rotated at most once and a family keeps at
  most one live token in every interleaving; a revocation that overlaps a rotation misses the successor.
\<close>

section \<open>Transactions\<close>

text \<open>
  What a transaction has done: nothing, read the row of a presented token, claimed it, inserted a token (the
  successor of a claimed one or, at a login, the first of a family), or is updating the rows its snapshot
  selected, of which it has yet to lock the first list and holds the second.
\<close>

datatype txn =
    Idle
  | Presented refresh_token
  | Claimed refresh_token datetime
  | Issued "(refresh_token \<times> datetime) option" refresh_token
  | Revoking "string list" "string list"

record token_world =
  tw_rows :: "refresh_token list"
  tw_txs :: "nat \<Rightarrow> txn"
  tw_rotated :: "string list"

fun locks :: "txn \<Rightarrow> string set" where
  "locks (Claimed row _) = {rt_hash row}"
| "locks (Issued (Some (row, _)) _) = {rt_hash row}"
| "locks (Revoking _ held) = set held"
| "locks _ = {}"

fun pending_token :: "txn \<Rightarrow> refresh_token option" where
  "pending_token (Issued _ n) = Some n"
| "pending_token _ = None"

definition unlocked :: "(nat \<Rightarrow> txn) \<Rightarrow> nat \<Rightarrow> string \<Rightarrow> bool" where
  "unlocked txs i h \<longleftrightarrow> (\<forall>j. j \<noteq> i \<longrightarrow> h \<notin> locks (txs j))"

definition none_pending :: "(nat \<Rightarrow> txn) \<Rightarrow> (refresh_token \<Rightarrow> bool) \<Rightarrow> bool" where
  "none_pending txs P \<longleftrightarrow> (\<forall>j n. pending_token (txs j) = Some n \<longrightarrow> \<not> P n)"

definition hashes_where :: "(refresh_token \<Rightarrow> bool) \<Rightarrow> refresh_token list \<Rightarrow> string list" where
  "hashes_where P rows = map rt_hash (filter P rows)"

definition revoke_hashes :: "string list \<Rightarrow> refresh_token list \<Rightarrow> refresh_token list" where
  "revoke_hashes hs rows = update_where (\<lambda>r. rt_hash r \<in> set hs) (\<lambda>r. r\<lparr>rt_revoked := True\<rparr>) rows"

abbreviation goes_on :: "token_world \<Rightarrow> nat \<Rightarrow> txn \<Rightarrow> token_world" where
  "goes_on w i x \<equiv> w\<lparr>tw_txs := (tw_txs w)(i := x)\<rparr>"

abbreviation commits :: "token_world \<Rightarrow> nat \<Rightarrow> refresh_token list \<Rightarrow> token_world" where
  "commits w i rows \<equiv> w\<lparr>tw_rows := rows, tw_txs := (tw_txs w)(i := Idle)\<rparr>"

inductive token_step :: "(bytes \<Rightarrow> string) \<Rightarrow> int \<Rightarrow> token_world \<Rightarrow> token_world \<Rightarrow> bool"
  for sha :: "bytes \<Rightarrow> string" and lifetime :: int where
  select: "tw_txs w i = Idle \<Longrightarrow> lookup_by rt_hash (token_hash sha t) (tw_rows w) = Some row \<Longrightarrow> now < rt_expires row
    \<Longrightarrow> token_step sha lifetime w (goes_on w i (Presented row))"
| claim: "tw_txs w i = Presented row \<Longrightarrow> claim_token now (rt_hash row) (tw_rows w) = (Some x, claimed)
    \<Longrightarrow> unlocked (tw_txs w) i (rt_hash row) \<Longrightarrow> token_step sha lifetime w (goes_on w i (Claimed row now))"
| replay: "tw_txs w i = Presented row \<Longrightarrow> claim_token now (rt_hash row) (tw_rows w) = (None, claimed)
    \<Longrightarrow> token_step sha lifetime w (goes_on w i (Revoking (hashes_where (\<lambda>r. rt_family r = rt_family row) (tw_rows w)) []))"
| succeed: "tw_txs w i = Claimed row now
    \<Longrightarrow> issue_refresh_token sha lifetime new_id nt now' (rt_user row) (rt_family row) (tw_rows w) = Inr (nt, tw_rows w @ [n])
    \<Longrightarrow> none_pending (tw_txs w) (\<lambda>m. rt_hash m = rt_hash n)
    \<Longrightarrow> token_step sha lifetime w (goes_on w i (Issued (Some (row, now)) n))"
| begin_family: "tw_txs w i = Idle
    \<Longrightarrow> issue_refresh_token sha lifetime new_id nt now user fam (tw_rows w) = Inr (nt, tw_rows w @ [n])
    \<Longrightarrow> fam \<notin> rt_family ` set (tw_rows w) \<Longrightarrow> none_pending (tw_txs w) (\<lambda>m. rt_hash m = rt_hash n \<or> rt_family m = fam)
    \<Longrightarrow> token_step sha lifetime w (goes_on w i (Issued None n))"
| log_out: "tw_txs w i = Idle \<Longrightarrow> lookup_by rt_hash (token_hash sha t) (tw_rows w) = Some row
    \<Longrightarrow> token_step sha lifetime w (goes_on w i (Revoking (hashes_where (\<lambda>r. rt_family r = rt_family row) (tw_rows w)) []))"
| log_out_all: "tw_txs w i = Idle
    \<Longrightarrow> token_step sha lifetime w (goes_on w i (Revoking (hashes_where (\<lambda>r. rt_user r = user) (tw_rows w)) []))"
| lock: "tw_txs w i = Revoking (h # hs) held \<Longrightarrow> unlocked (tw_txs w) i h
    \<Longrightarrow> token_step sha lifetime w (goes_on w i (Revoking hs (h # held)))"
| commit_rotation: "tw_txs w i = Issued (Some (row, now)) n
    \<Longrightarrow> token_step sha lifetime w ((commits w i (snd (claim_token now (rt_hash row) (tw_rows w)) @ [n]))
          \<lparr>tw_rotated := rt_hash row # tw_rotated w\<rparr>)"
| commit_family: "tw_txs w i = Issued None n \<Longrightarrow> token_step sha lifetime w (commits w i (tw_rows w @ [n]))"
| commit_revocation: "tw_txs w i = Revoking [] held
    \<Longrightarrow> token_step sha lifetime w (commits w i (revoke_hashes held (tw_rows w)))"
| rollback: "token_step sha lifetime w (goes_on w i Idle)"

abbreviation token_steps :: "(bytes \<Rightarrow> string) \<Rightarrow> int \<Rightarrow> token_world \<Rightarrow> token_world \<Rightarrow> bool" where
  "token_steps sha lifetime \<equiv> (token_step sha lifetime)\<^sup>*\<^sup>*"

text \<open>A table on which nobody works.\<close>

definition quiet :: "refresh_token list \<Rightarrow> token_world" where
  "quiet rows = \<lparr>tw_rows = rows, tw_txs = (\<lambda>_. Idle), tw_rotated = []\<rparr>"

section \<open>The invariant\<close>

definition live_in :: "refresh_token list \<Rightarrow> refresh_token \<Rightarrow> bool" where
  "live_in rows row \<longleftrightarrow> (\<exists>r \<in> set rows. ages row r \<and> live_token r)"

fun txn_ok :: "refresh_token list \<Rightarrow> txn \<Rightarrow> bool" where
  "txn_ok rows (Presented row) = (\<exists>r \<in> set rows. ages row r)"
| "txn_ok rows (Claimed row _) = live_in rows row"
| "txn_ok rows (Issued (Some (row, _)) n) =
    (live_in rows row \<and> live_token n \<and> rt_family n = rt_family row \<and> rt_user n = rt_user row
       \<and> rt_hash n \<notin> rt_hash ` set rows)"
| "txn_ok rows (Issued None n) =
    (live_token n \<and> rt_hash n \<notin> rt_hash ` set rows \<and> rt_family n \<notin> rt_family ` set rows)"
| "txn_ok rows _ = True"

definition apart :: "txn \<Rightarrow> txn \<Rightarrow> bool" where
  "apart x y \<longleftrightarrow> locks x \<inter> locks y = {}
     \<and> (\<forall>n m. pending_token x = Some n \<and> pending_token y = Some m \<longrightarrow>
          rt_hash n \<noteq> rt_hash m \<and> rt_family n \<noteq> rt_family m)"

definition rotated_ok :: "refresh_token list \<Rightarrow> string list \<Rightarrow> bool" where
  "rotated_ok rows spent \<longleftrightarrow> distinct spent \<and> (\<forall>h \<in> set spent. \<exists>r \<in> set rows. rt_hash r = h \<and> rt_used r \<noteq> None)"

definition tokens_inv :: "token_world \<Rightarrow> bool" where
  "tokens_inv w \<longleftrightarrow> tokens_ok (tw_rows w) \<and> rotated_ok (tw_rows w) (tw_rotated w)
     \<and> (\<forall>i. txn_ok (tw_rows w) (tw_txs w i)) \<and> (\<forall>i j. i \<noteq> j \<longrightarrow> apart (tw_txs w i) (tw_txs w j))"

lemma apart_sym: "apart x y \<Longrightarrow> apart y x"
  unfolding apart_def by (metis Int_commute)

lemma apart_idle [simp]: "apart Idle y" "apart (Presented row) y" "apart (Revoking hs []) y"
  by (simp_all add: apart_def)

lemma rotated_ok_age: "rotated_ok rows spent \<Longrightarrow> rows_age rows rows' \<Longrightarrow> rotated_ok rows' spent"
  unfolding rotated_ok_def rows_age_def ages_def by (metis (no_types, lifting))

text \<open>A transaction goes on without touching the committed rows.\<close>

lemma goes_on_inv:
  assumes inv: "tokens_inv w" and x: "txn_ok (tw_rows w) x"
    and sep: "\<And>j. j \<noteq> i \<Longrightarrow> apart x (tw_txs w j)"
  shows "tokens_inv (goes_on w i x)"
  using assms apart_sym unfolding tokens_inv_def by simp

lemma live_in_family:
  assumes ok: "tokens_ok rows" and a: "live_in rows a" and b: "live_in rows b" and fam: "rt_family a = rt_family b"
  shows "rt_hash a = rt_hash b"
proof -
  obtain r s where r: "r \<in> set rows" "ages a r" "live_token r" and s: "s \<in> set rows" "ages b s" "live_token s"
    using a b unfolding live_in_def by blast
  then have "r = s" using ok fam unfolding tokens_ok_def ages_def by metis
  then show ?thesis using r s by (simp add: ages_def)
qed

lemma live_in_member: "live_in rows a \<Longrightarrow> rt_family a \<in> rt_family ` set rows"
  unfolding live_in_def ages_def by (metis imageI)

text \<open>The three ways a table changes, and what they keep of a transaction that holds none of the rows.\<close>

lemma live_in_update:
  assumes live: "live_in rows a" and other: "\<not> P a" and f: "\<And>r. ages r (f r)"
    and P: "\<And>r s. rt_hash r = rt_hash s \<Longrightarrow> P r = P s"
  shows "live_in (update_where P f rows) a"
proof -
  obtain r where r: "r \<in> set rows" "ages a r" "live_token r" using live by (auto simp: live_in_def)
  then have "\<not> P r" using other P [of r a] by (simp add: ages_def)
  then have "r \<in> set (update_where P f rows)" using in_update_where [OF r(1), of P f] by simp
  then show ?thesis using r(2,3) unfolding live_in_def by blast
qed

lemma txn_ok_update:
  assumes ok: "txn_ok rows x" and f: "\<And>r. ages r (f r)"
    and P: "\<And>r s. rt_hash r = rt_hash s \<Longrightarrow> P r = P s" and free: "\<And>r. P r \<Longrightarrow> rt_hash r \<notin> locks x"
  shows "txn_ok (update_where P f rows) x"
proof -
  have same: "rt_hash (f r) = rt_hash r" "rt_family (f r) = rt_family r" for r
    using f [of r] by (simp_all add: ages_def)
  have hashes: "rt_hash ` set (update_where P f rows) = rt_hash ` set rows"
    by (rule keys_update_where) (rule same)
  have fams: "rt_family ` set (update_where P f rows) = rt_family ` set rows"
    by (rule keys_update_where) (rule same)
  have live: "live_in (update_where P f rows) a" if "live_in rows a" "rt_hash a \<in> locks x" for a
  proof (rule live_in_update [OF that(1)])
    show "\<not> P a" using free [of a] that(2) by auto
  qed (rule f, erule P)
  have aged: "rows_age rows (update_where P f rows)" by (rule rows_age_update) (rule f)
  show ?thesis
  proof (cases x)
    case (Presented row)
    then show ?thesis using ok aged ages_trans unfolding rows_age_def by simp blast
  next
    case (Claimed row now)
    then show ?thesis using ok live by simp
  next
    case (Issued c n)
    then show ?thesis using ok live hashes fams by (cases c) auto
  qed (use ok in simp_all)
qed

lemma live_in_append: "live_in rows a \<Longrightarrow> live_in (rows @ [n]) a"
  by (auto simp: live_in_def)

lemma txn_ok_append:
  assumes ok: "txn_ok rows x"
    and sep: "\<And>m. pending_token x = Some m \<Longrightarrow> rt_hash n \<noteq> rt_hash m \<and> rt_family n \<noteq> rt_family m"
  shows "txn_ok (rows @ [n]) x"
proof (cases x)
  case (Issued c m)
  then show ?thesis using ok sep [of m] by (cases c) (auto simp: live_in_append)
qed (use ok in \<open>auto simp: live_in_append\<close>)

text \<open>A commit by one transaction, which leaves the others as they are.\<close>

lemma commits_inv:
  assumes inv: "tokens_inv w" and rows: "tokens_ok rows" and sp: "rotated_ok rows spent"
    and others: "\<And>j. j \<noteq> i \<Longrightarrow> txn_ok rows (tw_txs w j)"
  shows "tokens_inv ((commits w i rows)\<lparr>tw_rotated := spent\<rparr>)"
  using assms apart_sym unfolding tokens_inv_def by simp

text \<open>What a statement's answer says about its row.\<close>

lemma claim_token_hit:
  "claim_token now h rows = (Some x, c) \<Longrightarrow> \<exists>r \<in> set rows. rt_hash r = h \<and> live_token r"
  unfolding claim_token_def Let_def by (force simp: find_Some_iff)

lemma live_in_claim:
  assumes ok: "tokens_ok rows" and c: "claim_token now (rt_hash row) rows = (Some x, c)"
    and r: "\<exists>r \<in> set rows. ages row r"
  shows "live_in rows row"
proof -
  obtain r where r: "r \<in> set rows" "ages row r" using r by blast
  obtain s where s: "s \<in> set rows" "rt_hash s = rt_hash row" "live_token s" using claim_token_hit [OF c] by blast
  have "rt_hash r = rt_hash s" using r(2) s(2) by (simp add: ages_def)
  then have "r = s" using ok r(1) s(1) unique_onD unfolding tokens_ok_def by metis
  then show ?thesis using r s(3) unfolding live_in_def by blast
qed

lemma claim_live_in:
  assumes ok: "tokens_ok rows" and live: "live_in rows row"
  obtains r where "r \<in> set rows" "ages row r" "live_token r"
    "snd (claim_token now (rt_hash row) rows) = update_where (\<lambda>s. rt_hash s = rt_hash r) (\<lambda>s. s\<lparr>rt_used := Some now\<rparr>) rows"
proof -
  obtain r where r: "r \<in> set rows" "ages row r" "live_token r" using live unfolding live_in_def by blast
  have uniq: "unique_on rt_hash rows" using ok by (simp add: tokens_ok_def)
  have h: "rt_hash row = rt_hash r" using r(2) by (simp add: ages_def)
  have "lookup_by rt_hash (rt_hash row) rows = Some r" unfolding h by (rule lookup_by_unique [OF uniq r(1)])
  from claim_token_cases [OF uniq this] have
    "snd (claim_token now (rt_hash row) rows) = update_where (\<lambda>s. rt_hash s = rt_hash r) (\<lambda>s. s\<lparr>rt_used := Some now\<rparr>) rows"
    using r(3) h by simp
  with r show ?thesis by (rule that)
qed

lemma issue_row:
  "issue_refresh_token sha lifetime i nt now user fam rows = Inr (nt, rows @ [n]) \<Longrightarrow>
    live_token n \<and> rt_family n = fam \<and> rt_user n = user \<and> rt_hash n \<notin> rt_hash ` set rows"
  by (auto simp: issue_refresh_token_def live_token_def insert_unique_def split: if_splits)

lemma apart_lock: "apart x y \<Longrightarrow> locks x' = insert h (locks x) \<Longrightarrow> h \<notin> locks y \<Longrightarrow> pending_token x' = None \<Longrightarrow> apart x' y"
  by (auto simp: apart_def)

lemma apart_issue:
  assumes ok: "tokens_ok rows" and x: "live_in rows row" and y: "txn_ok rows y" and sep: "apart (Claimed row now) y"
    and hash: "\<And>m. pending_token y = Some m \<Longrightarrow> rt_hash m \<noteq> rt_hash n" and fam: "rt_family n = rt_family row"
  shows "apart (Issued (Some (row, now)) n) y"
proof -
  have "rt_family n \<noteq> rt_family m" if m: "pending_token y = Some m" for m
  proof -
    obtain c where c: "y = Issued c m" using m by (cases y) auto
    show ?thesis
    proof (cases c)
      case None
      then show ?thesis using y c fam live_in_member [OF x] by force
    next
      case (Some p)
      then obtain row2 t where p: "c = Some (row2, t)" by (cases p) auto
      show ?thesis
      proof
        assume "rt_family n = rt_family m"
        then have "rt_hash row = rt_hash row2" using live_in_family [OF ok x, of row2] y c p fam by simp
        then show False using sep c p by (simp add: apart_def)
      qed
    qed
  qed
  then show ?thesis using sep hash unfolding apart_def by auto
qed

lemma rotated_ok_Cons:
  assumes ok: "tokens_ok rows" and sp: "rotated_ok rows spent" and r: "r \<in> set rows" "live_token r"
  shows "rotated_ok (update_where (\<lambda>s. rt_hash s = rt_hash r) (\<lambda>s. s\<lparr>rt_used := Some now\<rparr>) rows @ [n]) (rt_hash r # spent)"
    (is "rotated_ok (?u @ [n]) _")
proof -
  have "rt_hash r \<notin> set spent"
  proof
    assume "rt_hash r \<in> set spent"
    then obtain s where s: "s \<in> set rows" "rt_hash s = rt_hash r" "rt_used s \<noteq> None"
      using sp unfolding rotated_ok_def by blast
    then have "s = r" using ok r(1) unique_onD unfolding tokens_ok_def by metis
    then show False using s(3) r(2) by (simp add: live_token_def)
  qed
  moreover have "r\<lparr>rt_used := Some now\<rparr> \<in> set ?u"
    using in_update_where [OF r(1), of "\<lambda>s. rt_hash s = rt_hash r"] by simp
  moreover have "rotated_ok (?u @ [n]) spent"
    by (rule rotated_ok_age [OF sp]) (intro rows_age_append rows_age_update ages_used)
  ultimately show ?thesis unfolding rotated_ok_def by force
qed

section \<open>Every interleaving keeps it\<close>

lemma rotation_commits:
  assumes inv: "tokens_inv w" and x: "tw_txs w i = Issued (Some (row, now)) n"
  shows "tokens_inv ((commits w i (snd (claim_token now (rt_hash row) (tw_rows w)) @ [n]))
    \<lparr>tw_rotated := rt_hash row # tw_rotated w\<rparr>)"
proof -
  have ok: "tokens_ok (tw_rows w)" and sp: "rotated_ok (tw_rows w) (tw_rotated w)"
    and tx: "txn_ok (tw_rows w) (tw_txs w i)" and sep: "\<And>j. j \<noteq> i \<Longrightarrow> apart (tw_txs w i) (tw_txs w j)"
    using inv unfolding tokens_inv_def by auto
  have n: "live_in (tw_rows w) row" "rt_user n = rt_user row" "rt_family n = rt_family row"
    "rt_hash n \<notin> rt_hash ` set (tw_rows w)"
    using tx x by auto
  obtain r where r: "r \<in> set (tw_rows w)" "ages row r" "live_token r" and
    eq: "snd (claim_token now (rt_hash row) (tw_rows w))
      = update_where (\<lambda>s. rt_hash s = rt_hash r) (\<lambda>s. s\<lparr>rt_used := Some now\<rparr>) (tw_rows w)"
    using claim_live_in [OF ok n(1)] by blast
  have h: "rt_hash row = rt_hash r" "rt_user row = rt_user r" "rt_family row = rt_family r"
    using r(2) by (simp_all add: ages_def)
  have free: "txn_ok (update_where (\<lambda>s. rt_hash s = rt_hash r) (\<lambda>s. s\<lparr>rt_used := Some now\<rparr>) (tw_rows w) @ [n]) (tw_txs w j)"
    if j: "j \<noteq> i" for j
  proof (rule txn_ok_append [OF txn_ok_update])
    show "txn_ok (tw_rows w) (tw_txs w j)" using inv by (simp add: tokens_inv_def)
    show "rt_hash s \<notin> locks (tw_txs w j)" if "rt_hash s = rt_hash r" for s
      using sep [OF j] x that h by (simp add: apart_def)
    show "rt_hash n \<noteq> rt_hash m \<and> rt_family n \<noteq> rt_family m" if "pending_token (tw_txs w j) = Some m" for m
      using sep [OF j] x that by (simp add: apart_def)
  qed simp_all
  show ?thesis unfolding eq unfolding h(1)
    by (rule commits_inv [OF inv tokens_ok_rotate rotated_ok_Cons]) (use ok r sp n h free in simp_all)
qed

lemma family_commits:
  assumes inv: "tokens_inv w" and x: "tw_txs w i = Issued None n"
  shows "tokens_inv (commits w i (tw_rows w @ [n]))"
proof -
  have ok: "tokens_ok (tw_rows w)" and sp: "rotated_ok (tw_rows w) (tw_rotated w)"
    and tx: "txn_ok (tw_rows w) (tw_txs w i)" and sep: "\<And>j. j \<noteq> i \<Longrightarrow> apart (tw_txs w i) (tw_txs w j)"
    and txs: "\<And>j. txn_ok (tw_rows w) (tw_txs w j)"
    using inv unfolding tokens_inv_def by auto
  have n: "rt_hash n \<notin> rt_hash ` set (tw_rows w)" "rt_family n \<notin> rt_family ` set (tw_rows w)" using tx x by auto
  have "tokens_ok (tw_rows w @ [n])" by (rule tokens_ok_append [OF ok n(1)]) (use n(2) in \<open>metis imageI\<close>)+
  moreover have "rotated_ok (tw_rows w @ [n]) (tw_rotated w)"
    by (rule rotated_ok_age [OF sp]) (intro rows_age_append rows_age_refl)
  moreover have "txn_ok (tw_rows w @ [n]) (tw_txs w j)" if "j \<noteq> i" for j
    by (rule txn_ok_append [OF txs]) (use sep [OF that] x in \<open>simp add: apart_def\<close>)
  ultimately show ?thesis using commits_inv [OF inv, of "tw_rows w @ [n]" "tw_rotated w" i] by simp
qed

lemma revocation_commits:
  assumes inv: "tokens_inv w" and x: "tw_txs w i = Revoking [] held"
  shows "tokens_inv (commits w i (revoke_hashes held (tw_rows w)))"
proof -
  have ok: "tokens_ok (tw_rows w)" and sp: "rotated_ok (tw_rows w) (tw_rotated w)"
    and sep: "\<And>j. j \<noteq> i \<Longrightarrow> apart (tw_txs w i) (tw_txs w j)" and txs: "\<And>j. txn_ok (tw_rows w) (tw_txs w j)"
    using inv unfolding tokens_inv_def by auto
  have "tokens_ok (revoke_hashes held (tw_rows w))" unfolding revoke_hashes_def by (rule tokens_ok_update [OF ok]) simp
  moreover have "rotated_ok (revoke_hashes held (tw_rows w)) (tw_rotated w)"
    unfolding revoke_hashes_def by (rule rotated_ok_age [OF sp], rule rows_age_update) simp
  moreover have "txn_ok (revoke_hashes held (tw_rows w)) (tw_txs w j)" if "j \<noteq> i" for j
    unfolding revoke_hashes_def
    by (rule txn_ok_update [OF txs]) (use sep [OF that] x in \<open>auto simp: apart_def\<close>)
  ultimately show ?thesis using commits_inv [OF inv, of "revoke_hashes held (tw_rows w)" "tw_rotated w" i] by simp
qed

lemma token_step_inv: "token_step sha lifetime w w' \<Longrightarrow> tokens_inv w \<Longrightarrow> tokens_inv w'"
proof (induction rule: token_step.induct)
  case (select w i t row now)
  then show ?case by (intro goes_on_inv) (auto dest!: lookup_by_SomeD, blast intro: ages_refl)
next
  case (claim w i row now x claimed)
  then have "\<exists>r \<in> set (tw_rows w). ages row r" unfolding tokens_inv_def by (metis txn_ok.simps(1))
  then have "live_in (tw_rows w) row" using live_in_claim claim unfolding tokens_inv_def by blast
  then show ?case using claim by (intro goes_on_inv) (auto simp: apart_def unlocked_def)
next
  case (succeed w i row now new_id nt now' n)
  have tx: "live_in (tw_rows w) row" using succeed unfolding tokens_inv_def by (metis txn_ok.simps(2))
  have sep: "apart (Claimed row now) (tw_txs w j)" if "j \<noteq> i" for j
    using succeed.prems succeed.hyps(1) that unfolding tokens_inv_def by metis
  have n: "live_token n" "rt_family n = rt_family row" "rt_user n = rt_user row" "rt_hash n \<notin> rt_hash ` set (tw_rows w)"
    using issue_row [OF succeed.hyps(2)] by auto
  show ?case
  proof (rule goes_on_inv [OF succeed.prems])
    show "txn_ok (tw_rows w) (Issued (Some (row, now)) n)" using tx n by simp
    show "apart (Issued (Some (row, now)) n) (tw_txs w j)" if "j \<noteq> i" for j
      using succeed.prems succeed.hyps(3) sep [OF that] tx n(2)
      by (intro apart_issue) (auto simp: tokens_inv_def none_pending_def)
  qed
next
  case (begin_family w i new_id nt now user fam n)
  have n: "live_token n" "rt_family n = fam" "rt_hash n \<notin> rt_hash ` set (tw_rows w)"
    using issue_row [OF begin_family.hyps(2)] by auto
  show ?case
  proof (rule goes_on_inv [OF begin_family.prems])
    show "txn_ok (tw_rows w) (Issued None n)" using n begin_family.hyps(3) by simp
    show "apart (Issued None n) (tw_txs w j)" for j
      using begin_family.hyps(4) n(2) unfolding apart_def none_pending_def by force
  qed
next
  case (lock w i h hs held)
  have "apart (Revoking (h # hs) held) (tw_txs w j)" if "j \<noteq> i" for j
    using lock.prems lock.hyps(1) that unfolding tokens_inv_def by metis
  then show ?case using lock by (intro goes_on_inv) (auto simp: apart_def unlocked_def)
next
  case (commit_rotation w i row now n)
  then show ?case by (intro rotation_commits)
next
  case (commit_family w i n)
  then show ?case by (intro family_commits)
next
  case (commit_revocation w i held)
  then show ?case by (intro revocation_commits)
qed (simp_all add: goes_on_inv)

lemma token_steps_inv: "token_steps sha lifetime w w' \<Longrightarrow> tokens_inv w \<Longrightarrow> tokens_inv w'"
  by (induction rule: rtranclp_induct) (auto intro: token_step_inv)

lemma quiet_inv: "tokens_ok rows \<Longrightarrow> tokens_inv (quiet rows)"
  by (simp add: tokens_inv_def quiet_def rotated_ok_def apart_def)

section \<open>Properties\<close>

text \<open>C5. In every interleaving of rotations, logins and revocations that starts from a sound table a token is rotated
  at most once, every rotated token is spent, and a family has one owner and at most one live token.\<close>
theorem concurrent_rotation:
  assumes "tokens_ok rows" and "token_steps sha lifetime (quiet rows) w"
  shows "distinct (tw_rotated w)
    \<and> set (tw_rotated w) \<subseteq> rt_hash ` {r \<in> set (tw_rows w). rt_used r \<noteq> None} \<and> tokens_ok (tw_rows w)"
proof -
  have "tokens_inv w" by (rule token_steps_inv [OF assms(2) quiet_inv [OF assms(1)]])
  then have "rotated_ok (tw_rows w) (tw_rotated w)" and "tokens_ok (tw_rows w)" by (simp_all add: tokens_inv_def)
  then show ?thesis unfolding rotated_ok_def by (metis (mono_tags, lifting) image_eqI mem_Collect_eq subsetI)
qed

text \<open>A revocation whose rows nobody else holds runs to its end.\<close>

lemma locks_all:
  "tw_txs w i = Revoking hs held \<Longrightarrow> (\<And>j. j \<noteq> i \<Longrightarrow> tw_txs w j = Idle) \<Longrightarrow>
    token_steps sha lifetime w (goes_on w i (Revoking [] (rev hs @ held)))"
proof (induction hs arbitrary: w held)
  case Nil
  then have "goes_on w i (Revoking [] (rev [] @ held)) = w" by (simp add: fun_upd_idem)
  then show ?case by (metis rtranclp.rtrancl_refl)
next
  case (Cons h hs)
  let ?w = "goes_on w i (Revoking hs (h # held))"
  have "unlocked (tw_txs w) i h" unfolding unlocked_def using Cons.prems(2) by fastforce
  then have "token_step sha lifetime w ?w" by (rule token_step.lock [OF Cons.prems(1)])
  moreover have "token_steps sha lifetime ?w (goes_on ?w i (Revoking [] (rev hs @ h # held)))"
    by (rule Cons.IH) (use Cons.prems(2) in simp_all)
  moreover have "goes_on ?w i x = goes_on w i x" for x by simp
  ultimately show ?case by (metis converse_rtranclp_into_rtranclp append.assoc append_Cons append_Nil rev.simps(2))
qed

lemma revoke_hashes_of_user:
  assumes uniq: "unique_on rt_hash rows" and f: "\<And>r. ages r (f r)" and n: "rt_hash n \<notin> rt_hash ` set rows"
  shows "revoke_hashes (rev (hashes_where (\<lambda>r. rt_user r = u) rows)) (update_where P f rows @ [n])
    = revoke_all_for_user u (update_where P f rows) @ [n]"
proof -
  let ?hs = "hashes_where (\<lambda>r. rt_user r = u) rows"
  have same: "rt_hash (f r) = rt_hash r" "rt_user (f r) = rt_user r" for r using f [of r] by (simp_all add: ages_def)
  have "rt_hash r \<in> set ?hs \<longleftrightarrow> rt_user r = u" if "r \<in> set (update_where P f rows)" for r
  proof -
    have "r \<in> (\<lambda>r. if P r then f r else r) ` set rows" using that unfolding set_update_where .
    then obtain s where mem: "s \<in> set rows" and r: "r = (if P s then f s else s)" by blast
    then have s: "s \<in> set rows" "rt_hash r = rt_hash s" "rt_user r = rt_user s" using same by simp_all
    have "rt_hash s \<in> set ?hs \<longleftrightarrow> rt_user s = u"
      using s(1) unique_onD [OF uniq] by (auto simp: hashes_where_def)
    then show ?thesis using s by simp
  qed
  moreover have "rt_hash n \<notin> set ?hs" using n by (auto simp: hashes_where_def)
  ultimately show ?thesis
    unfolding revoke_hashes_def revoke_all_for_user_def update_where_def by simp
qed

text \<open>The run behind the next property.\<close>

lemma overlapping_run:
  assumes ok: "tokens_ok rows" and row: "lookup_by rt_hash (token_hash sha t) rows = Some row" "live_token row"
    and now: "now < rt_expires row" and new: "token_hash sha nt \<notin> rt_hash ` set rows"
    and later: "now2 < now + seconds lifetime" "token_hash sha nt2 \<notin> insert (token_hash sha nt) (rt_hash ` set rows)"
  shows "\<exists>w. token_steps sha lifetime (quiet rows) w \<and> tw_txs w = (\<lambda>_. Idle) \<and> tw_rotated w = [rt_hash row]
    \<and> tw_rows w = revoke_all_for_user (rt_user row)
          (update_where (\<lambda>r. rt_hash r = rt_hash row) (\<lambda>r. r\<lparr>rt_used := Some now\<rparr>) rows)
        @ [successor sha lifetime new_id nt now row]
    \<and> fst (rotate_refresh_token sha lifetime new_id2 nt2 now2 nt (tw_rows w)) = Inr (rt_user row, nt2)"
proof -
  let ?n = "successor sha lifetime new_id nt now row"
  let ?used = "update_where (\<lambda>r. rt_hash r = rt_hash row) (\<lambda>r. r\<lparr>rt_used := Some now\<rparr>) rows"
  let ?hs = "hashes_where (\<lambda>r. rt_user r = rt_user row) rows"
  have uniq: "unique_on rt_hash rows" using ok by (simp add: tokens_ok_def)
  have hash: "rt_hash row = token_hash sha t" using row(1) by (auto dest: lookup_by_SomeD)
  have claim: "claim_token now (rt_hash row) rows = (Some (rt_id row), ?used)"
    using claim_token_cases [OF uniq row(1), of now] row(2) hash by simp
  define w1 where "w1 = goes_on (quiet rows) 0 (Presented row)"
  define w2 where "w2 = goes_on w1 0 (Claimed row now)"
  define w3 where "w3 = goes_on w2 0 (Issued (Some (row, now)) ?n)"
  define w4 where "w4 = goes_on w3 1 (Revoking ?hs [])"
  define w5 where "w5 = (commits w4 0 (?used @ [?n]))\<lparr>tw_rotated := [rt_hash row]\<rparr>"
  define w6 where "w6 = goes_on w5 1 (Revoking [] (rev ?hs))"
  define w7 where "w7 = commits w6 1 (revoke_hashes (rev ?hs) (?used @ [?n]))"
  note ws = w1_def w2_def w3_def w4_def w5_def w6_def w7_def quiet_def
  have s1: "token_step sha lifetime (quiet rows) w1"
    unfolding w1_def by (rule token_step.select [OF _ _ now]) (use row(1) in \<open>simp_all add: quiet_def\<close>)
  have s2: "token_step sha lifetime w1 w2"
    unfolding w2_def by (rule token_step.claim) (use claim in \<open>simp_all add: ws unlocked_def\<close>)
  have s3: "token_step sha lifetime w2 w3"
    unfolding w3_def by (rule token_step.succeed)
      (use new in \<open>auto simp: ws none_pending_def issue_refresh_token_def insert_unique_def successor_def\<close>)
  have s4: "token_step sha lifetime w3 w4"
  proof -
    have "tw_txs w3 1 = Idle" "tw_rows w3 = rows" by (simp_all add: ws)
    then show ?thesis unfolding w4_def using token_step.log_out_all [of w3 1] by metis
  qed
  have s5: "token_step sha lifetime w4 w5"
  proof -
    have "tw_txs w4 0 = Issued (Some (row, now)) ?n" "tw_rows w4 = rows" "tw_rotated w4 = []" by (simp_all add: ws)
    then show ?thesis unfolding w5_def using token_step.commit_rotation [of w4 0 row now ?n sha lifetime] claim by simp
  qed
  have s6: "token_steps sha lifetime w5 w6"
    unfolding w6_def using locks_all [of w5 1 ?hs "[]"] by (simp add: ws)
  have s7: "token_step sha lifetime w6 w7"
  proof -
    have "tw_txs w6 1 = Revoking [] (rev ?hs)" "tw_rows w6 = ?used @ [?n]" by (simp_all add: ws)
    then show ?thesis unfolding w7_def using token_step.commit_revocation by metis
  qed
  have run: "token_steps sha lifetime (quiet rows) w7"
    using s1 s2 s3 s4 s5 s6 s7 by (meson r_into_rtranclp rtranclp_trans)
  have rows7: "tw_rows w7 = revoke_all_for_user (rt_user row) ?used @ [?n]"
    unfolding w7_def using revoke_hashes_of_user [OF uniq, of "\<lambda>r. r\<lparr>rt_used := Some now\<rparr>" ?n] new by simp
  have idle: "tw_txs w7 = (\<lambda>_. Idle)" by (auto simp: ws)
  have ok7: "tokens_ok (tw_rows w7)"
    using token_steps_inv [OF run quiet_inv [OF ok]] by (simp add: tokens_inv_def)
  have hashes: "rt_hash ` set (tw_rows w7) = insert (token_hash sha nt) (rt_hash ` set rows)"
    unfolding rows7 by (simp add: revoke_all_for_user_def keys_update_where)
  have mem7: "?n \<in> set (tw_rows w7)" unfolding rows7 by simp
  have uniq7: "unique_on rt_hash (tw_rows w7)" using ok7 unfolding tokens_ok_def by (rule conjunct1)
  have "lookup_by rt_hash (token_hash sha nt) (tw_rows w7) = Some ?n"
    using lookup_by_unique [OF uniq7 mem7] by simp
  then have "fst (rotate_refresh_token sha lifetime new_id2 nt2 now2 nt (tw_rows w7)) = Inr (rt_user row, nt2)"
    using later hashes by (simp add: rotate_eq [OF ok7] successor_def live_token_def)
  moreover have "tw_rotated w7 = [rt_hash row]" by (simp add: ws)
  ultimately show ?thesis using run idle rows7 by blast
qed

text \<open>A logout everywhere that begins while a rotation of the user is not committed waits for it and then
  revokes the tokens its snapshot held; the successor the rotation inserted is not among them. Both requests
  have ended, every older token is dead, and the new token still rotates.\<close>
theorem revocation_misses_successor:
  assumes ok: "tokens_ok rows" and row: "lookup_by rt_hash (token_hash sha t) rows = Some row" "live_token row"
    and now: "now < rt_expires row" and new: "token_hash sha nt \<notin> rt_hash ` set rows"
    and later: "now2 < now + seconds lifetime" "token_hash sha nt2 \<notin> insert (token_hash sha nt) (rt_hash ` set rows)"
  shows "\<exists>w. token_steps sha lifetime (quiet rows) w \<and> tw_txs w = (\<lambda>_. Idle)
    \<and> tw_rows w = revoke_all_for_user (rt_user row)
          (update_where (\<lambda>r. rt_hash r = rt_hash row) (\<lambda>r. r\<lparr>rt_used := Some now\<rparr>) rows)
        @ [successor sha lifetime new_id nt now row]
    \<and> fst (rotate_refresh_token sha lifetime new_id2 nt2 now2 nt (tw_rows w)) = Inr (rt_user row, nt2)"
  using overlapping_run [OF assms] by blast

text \<open>Witnesses: a token rotates while its user logs out everywhere.\<close>

definition race_row :: refresh_token where
  "race_row = \<lparr>rt_id = ''r'', rt_user = ''u'', rt_hash = ''t'', rt_family = ''f'', rt_expires = 10, rt_used = None,
    rt_revoked = False\<rparr>"

lemma race_row_ok: "tokens_ok [race_row]"
  by (simp add: tokens_ok_def unique_on_def)

definition same_text :: "bytes \<Rightarrow> string" where
  "same_text b = b"

lemma race_hash: "token_hash same_text ''t'' = ''t''" "token_hash same_text ''n'' = ''n''" "token_hash same_text ''m'' = ''m''"
  by (simp_all add: token_hash_def same_text_def utf8_def utf8_char_def)

lemmas race_run = overlapping_run [of "[race_row]" same_text "''t''" race_row 1 "''n''" 2 10 "''m''" "''i''" "''j''"]

theorem concurrent_rotation_witness:
  "\<exists>w :: token_world. tw_rotated w = [''t''] \<and> distinct (tw_rotated w)
    \<and> set (tw_rotated w) \<subseteq> rt_hash ` {r \<in> set (tw_rows w). rt_used r \<noteq> None} \<and> tokens_ok (tw_rows w)"
proof -
  obtain w where run: "token_steps same_text 10 (quiet [race_row]) w" and rot: "tw_rotated w = [rt_hash race_row]"
    using race_run race_row_ok race_hash by (auto simp: race_row_def live_token_def seconds_def)
  have "tw_rotated w = [''t'']" using rot by (simp add: race_row_def)
  from conjI [OF this concurrent_rotation [OF race_row_ok run]] show ?thesis by (rule exI [of _ w])
qed

theorem revocation_misses_successor_witness:
  "\<exists>w. token_steps same_text 10 (quiet [race_row]) w \<and> tw_txs w = (\<lambda>_. Idle)
    \<and> map live_token (tw_rows w) = [False, True]
    \<and> fst (rotate_refresh_token same_text 10 ''j'' ''m'' 2 ''n'' (tw_rows w)) = Inr (''u'', ''m'')"
proof -
  obtain w where "token_steps same_text 10 (quiet [race_row]) w" "tw_txs w = (\<lambda>_. Idle)"
    "tw_rows w = revoke_all_for_user (rt_user race_row)
          (update_where (\<lambda>r. rt_hash r = rt_hash race_row) (\<lambda>r. r\<lparr>rt_used := Some 1\<rparr>) [race_row])
        @ [successor same_text 10 ''i'' ''n'' 1 race_row]"
    "fst (rotate_refresh_token same_text 10 ''j'' ''m'' 2 ''n'' (tw_rows w)) = Inr (rt_user race_row, ''m'')"
    using revocation_misses_successor [of "[race_row]" same_text "''t''" race_row 1 "''n''" 2 10 "''m''" "''i''" "''j''"]
      race_row_ok race_hash by (auto simp: race_row_def live_token_def seconds_def)
  then show ?thesis by (auto simp: revoke_all_for_user_def race_row_def live_token_def successor_def)
qed

end
