(* ===== verification/Webhooks.thy ===== *)
theory Webhooks imports Tenancy begin

text \<open>
  Outbound webhooks: the endpoints and the transactional outbox (\<open>app/webhooks/models.py\<close>), emission
  (\<open>dispatch.py\<close>, and its use in \<open>tenancy/router.py.jinja\<close>), the relay (\<open>outbox.py\<close>) over any queue that
  satisfies \<open>enqueue_port\<close>, the queue seam of \<open>app/jobs/queue.py\<close>, and the routes (\<open>router.py.jinja\<close>).
  Ids, clock readings and random secrets are arguments.
\<close>

section \<open>Tables\<close>

record webhook_endpoint =
  we_id :: uuid
  we_org :: uuid
  we_url :: string
  we_secret :: string
  we_event_types :: string
  we_active :: bool
  we_created :: datetime

record outbox_event =
  ob_id :: uuid
  ob_source :: string
  ob_event_id :: string
  ob_type :: string
  ob_org :: "uuid option"
  ob_payload :: json
  ob_attempts :: int
  ob_last_error :: "string option"
  ob_published :: "datetime option"
  ob_failed :: "datetime option"
  ob_created :: datetime

definition outbox_key :: "outbox_event \<Rightarrow> string \<times> string" where
  "outbox_key e = (ob_source e, ob_event_id e)"

section \<open>Emission\<close>

definition WEBHOOK_SOURCE :: string where
  "WEBHOOK_SOURCE = ''webhook''"

text \<open>An absent or empty event id is replaced by a fresh one.\<close>

definition dispatch ::
  "uuid \<Rightarrow> uuid \<Rightarrow> datetime \<Rightarrow> string \<Rightarrow> uuid \<Rightarrow> json \<Rightarrow> string option \<Rightarrow> outbox_event list
    \<Rightarrow> exn + outbox_event \<times> outbox_event list" where
  "dispatch new_id fresh now event_type org data event_id rows =
    (let eid = (case event_id of Some (c # cs) \<Rightarrow> c # cs | _ \<Rightarrow> fresh);
         e = \<lparr>ob_id = new_id, ob_source = WEBHOOK_SOURCE, ob_event_id = eid, ob_type = event_type,
              ob_org = Some org,
              ob_payload = JDict [(''id'', JStr eid), (''event_type'', JStr event_type),
                (''organization_id'', JStr org), (''data'', data)],
              ob_attempts = 0, ob_last_error = None, ob_published = None, ob_failed = None, ob_created = now\<rparr>
     in case insert_unique outbox_key e rows of
          None \<Rightarrow> Inl IntegrityError
        | Some rows' \<Rightarrow> Inr (e, rows'))"

text \<open>Adding a member writes the membership and its event in one transaction.\<close>

definition add_member_emitting ::
  "uuid \<Rightarrow> uuid \<Rightarrow> uuid \<Rightarrow> datetime \<Rightarrow> uuid \<Rightarrow> uuid \<Rightarrow> string \<Rightarrow> uuid \<Rightarrow> tenancy_db \<Rightarrow> outbox_event list
    \<Rightarrow> (exn + membership) \<times> tenancy_db \<times> outbox_event list" where
  "add_member_emitting new_mb new_row fresh now org target role caller db rows =
    (case add_member new_mb org target role caller db of
       (Inl e, _) \<Rightarrow> (Inl e, db, rows)
     | (Inr m, db') \<Rightarrow>
         (case dispatch new_row fresh now ''member.added'' org
             (JDict [(''user_id'', JStr target), (''role'', JStr role)]) None rows of
            Inl _ \<Rightarrow> (Inl (HTTPException 409 ''User is already a member of this organization'' []), db, rows)
          | Inr (_, rows') \<Rightarrow> (Inr m, db', rows')))"

section \<open>The queue\<close>

record delivery_job =
  dj_endpoint :: uuid
  dj_type :: string
  dj_payload :: json

text \<open>
  The arq pool as the seam sees it: the jobs that are queued, and how the next submissions go. A
  submission that fails with an error of the connection may have been executed all the same.
\<close>

datatype pool_outcome = Accepted | Unreachable bool | PoolError exn

record 'j job_pool =
  queued :: "'j list"
  upcoming :: "pool_outcome list"

type_synonym job_queue = "delivery_job job_pool"

definition enqueue :: "'j \<Rightarrow> 'j job_pool \<Rightarrow> (exn + bool) \<times> 'j job_pool" where
  "enqueue j q =
    (case upcoming q of
       [] \<Rightarrow> (Inr True, q\<lparr>queued := queued q @ [j]\<rparr>)
     | x # xs \<Rightarrow>
         (let q' = q\<lparr>upcoming := xs\<rparr>; sent = q'\<lparr>queued := queued q @ [j]\<rparr>
          in case x of
               Accepted \<Rightarrow> (Inr True, sent)
             | Unreachable executed \<Rightarrow> (Inr False, if executed then sent else q')
             | PoolError e \<Rightarrow> (Inl e, q')))"

section \<open>The relay\<close>

text \<open>What becomes of one event in a round: published, deferred with the error, or an unexpected error.\<close>

datatype fan_out_result = Published | Deferred string | Crashed exn

type_synonym 'q enqueue_fn = "delivery_job \<Rightarrow> 'q \<Rightarrow> (exn + bool) \<times> 'q"

definition job_of :: "outbox_event \<Rightarrow> webhook_endpoint \<Rightarrow> delivery_job" where
  "job_of e w = \<lparr>dj_endpoint = we_id w, dj_type = ob_type e, dj_payload = ob_payload e\<rparr>"

fun fan_out_loop :: "'q enqueue_fn \<Rightarrow> outbox_event \<Rightarrow> webhook_endpoint list \<Rightarrow> 'q \<Rightarrow> fan_out_result \<times> 'q" where
  "fan_out_loop enq e [] q = (Published, q)"
| "fan_out_loop enq e (w # ws) q =
    (if ob_type e \<notin> set (split_ws (we_event_types w)) then fan_out_loop enq e ws q
     else (case enq (job_of e w) q of
         (Inl x, q') \<Rightarrow> (Crashed x, q')
       | (Inr False, q') \<Rightarrow> (Deferred (''queue unavailable (endpoint '' @ we_id w @ '')''), q')
       | (Inr True, q') \<Rightarrow> fan_out_loop enq e ws q'))"

definition fan_out ::
  "'q enqueue_fn \<Rightarrow> webhook_endpoint list \<Rightarrow> outbox_event \<Rightarrow> 'q \<Rightarrow> fan_out_result \<times> 'q" where
  "fan_out enq endpoints e q =
    (if ob_source e \<noteq> WEBHOOK_SOURCE then (Published, q)
     else fan_out_loop enq e (filter (\<lambda>w. Some (we_org w) = ob_org e \<and> we_active w) endpoints) q)"

definition pending :: "outbox_event \<Rightarrow> bool" where
  "pending e = (ob_published e = None \<and> ob_failed e = None)"

text \<open>
  The rows a round claims: the oldest pending ones that no other round holds. Rows of one instant are
  taken in the order of their insertion.
\<close>

definition claim_events :: "nat \<Rightarrow> uuid set \<Rightarrow> outbox_event list \<Rightarrow> outbox_event list" where
  "claim_events limit locked rows =
    take limit (sort_key ob_created (filter (\<lambda>e. pending e \<and> ob_id e \<notin> locked) rows))"

definition settle :: "datetime \<Rightarrow> int \<Rightarrow> fan_out_result \<Rightarrow> outbox_event \<Rightarrow> outbox_event" where
  "settle now max_attempts res e =
    (case res of
       Deferred msg \<Rightarrow>
         (let e' = e\<lparr>ob_attempts := ob_attempts e + 1, ob_last_error := Some (take 1024 msg)\<rparr>
          in if max_attempts \<le> ob_attempts e' then e'\<lparr>ob_failed := Some now\<rparr> else e')
     | _ \<Rightarrow> e\<lparr>ob_published := Some now\<rparr>)"

fun publish_events ::
  "'q enqueue_fn \<Rightarrow> webhook_endpoint list \<Rightarrow> datetime \<Rightarrow> int \<Rightarrow> outbox_event list \<Rightarrow> 'q
    \<Rightarrow> (exn + outbox_event list) \<times> 'q" where
  "publish_events enq endpoints now max_attempts [] q = (Inr [], q)"
| "publish_events enq endpoints now max_attempts (e # es) q =
    (case fan_out enq endpoints e q of
       (Crashed x, q') \<Rightarrow> (Inl x, q')
     | (res, q') \<Rightarrow>
         (case publish_events enq endpoints now max_attempts es q' of
            (Inl x, q'') \<Rightarrow> (Inl x, q'')
          | (Inr es', q'') \<Rightarrow> (Inr (settle now max_attempts res e # es'), q'')))"

text \<open>The commit writes the settled rows back.\<close>

definition write_back :: "outbox_event list \<Rightarrow> outbox_event list \<Rightarrow> outbox_event list" where
  "write_back settled rows = map (\<lambda>r. case lookup_by ob_id (ob_id r) settled of None \<Rightarrow> r | Some e \<Rightarrow> e) rows"

definition DEFAULT_MAX_ATTEMPTS :: int where
  "DEFAULT_MAX_ATTEMPTS = 5"

definition drain_outbox ::
  "'q enqueue_fn \<Rightarrow> nat \<Rightarrow> int \<Rightarrow> datetime \<Rightarrow> webhook_endpoint list \<Rightarrow> outbox_event list \<Rightarrow> 'q
    \<Rightarrow> (exn + int) \<times> outbox_event list \<times> 'q" where
  "drain_outbox enq limit max_attempts now endpoints rows q =
    (case publish_events enq endpoints now max_attempts (claim_events limit {} rows) q of
       (Inl x, q') \<Rightarrow> (Inl x, rows, q')
     | (Inr es, q') \<Rightarrow>
         (Inr (int (length (filter (\<lambda>e. ob_published e \<noteq> None) es))), write_back es rows, q'))"

definition relay_outbox ::
  "datetime \<Rightarrow> webhook_endpoint list \<Rightarrow> outbox_event list \<Rightarrow> job_queue \<Rightarrow> (exn + int) \<times> outbox_event list \<times> job_queue" where
  "relay_outbox = drain_outbox enqueue 100 DEFAULT_MAX_ATTEMPTS"

section \<open>Routes\<close>

record endpoint_read =
  er_id :: uuid
  er_org :: uuid
  er_url :: string
  er_secret :: string
  er_event_types :: "string list"
  er_active :: bool
  er_created :: datetime

definition endpoint_to_read :: "webhook_endpoint \<Rightarrow> endpoint_read" where
  "endpoint_to_read w = \<lparr>er_id = we_id w, er_org = we_org w, er_url = we_url w, er_secret = we_secret w,
     er_event_types = split_ws (we_event_types w), er_active = we_active w, er_created = we_created w\<rparr>"

definition find_endpoint :: "uuid \<Rightarrow> uuid \<Rightarrow> webhook_endpoint list \<Rightarrow> exn + webhook_endpoint" where
  "find_endpoint org i ws =
    (case find (\<lambda>w. we_id w = i \<and> we_org w = org) ws of
       None \<Rightarrow> Inl (HTTPException 404 ''Webhook endpoint not found'' [])
     | Some w \<Rightarrow> Inr w)"

record endpoint_create =
  ec_url :: string
  ec_event_types :: "string list"
  ec_secret :: "string option"
  ec_active :: bool

record endpoint_update =
  eu_url :: "string option"
  eu_event_types :: "string list option"
  eu_active :: "bool option"

definition create_webhook_endpoint ::
  "uuid \<Rightarrow> string \<Rightarrow> datetime \<Rightarrow> uuid \<Rightarrow> endpoint_create \<Rightarrow> uuid \<Rightarrow> tenancy_db \<Rightarrow> webhook_endpoint list
    \<Rightarrow> (exn + endpoint_read) \<times> webhook_endpoint list" where
  "create_webhook_endpoint new_id random now org p caller tdb ws =
    (case require_role ADMIN org caller tdb of
       Inl e \<Rightarrow> (Inl e, ws)
     | Inr _ \<Rightarrow>
         (let w = \<lparr>we_id = new_id, we_org = org, we_url = ec_url p,
                we_secret = (case ec_secret p of Some (c # cs) \<Rightarrow> c # cs | _ \<Rightarrow> random),
                we_event_types = join_with '' '' (ec_event_types p), we_active = ec_active p, we_created = now\<rparr>
          in case insert_unique we_id w ws of
               None \<Rightarrow> (Inl IntegrityError, ws)
             | Some ws' \<Rightarrow> (Inr (endpoint_to_read w), ws')))"

definition list_webhook_endpoints ::
  "uuid \<Rightarrow> uuid \<Rightarrow> tenancy_db \<Rightarrow> webhook_endpoint list \<Rightarrow> exn + endpoint_read list" where
  "list_webhook_endpoints org caller tdb ws =
    (case get_current_membership org caller tdb of
       Inl e \<Rightarrow> Inl e
     | Inr _ \<Rightarrow> Inr (map endpoint_to_read (sort_key we_created (filter (\<lambda>w. we_org w = org) ws))))"

definition get_webhook_endpoint ::
  "uuid \<Rightarrow> uuid \<Rightarrow> uuid \<Rightarrow> tenancy_db \<Rightarrow> webhook_endpoint list \<Rightarrow> exn + endpoint_read" where
  "get_webhook_endpoint org i caller tdb ws =
    and_then (get_current_membership org caller tdb)
      (\<lambda>_. and_then (find_endpoint org i ws) (\<lambda>w. Inr (endpoint_to_read w)))"

definition patch_endpoint :: "endpoint_update \<Rightarrow> webhook_endpoint \<Rightarrow> webhook_endpoint" where
  "patch_endpoint p w = w\<lparr>we_url := (case eu_url p of None \<Rightarrow> we_url w | Some u \<Rightarrow> u),
     we_event_types := (case eu_event_types p of None \<Rightarrow> we_event_types w | Some ts \<Rightarrow> join_with '' '' ts),
     we_active := (case eu_active p of None \<Rightarrow> we_active w | Some b \<Rightarrow> b)\<rparr>"

definition update_webhook_endpoint ::
  "uuid \<Rightarrow> uuid \<Rightarrow> endpoint_update \<Rightarrow> uuid \<Rightarrow> tenancy_db \<Rightarrow> webhook_endpoint list
    \<Rightarrow> (exn + endpoint_read) \<times> webhook_endpoint list" where
  "update_webhook_endpoint org i p caller tdb ws =
    (case and_then (require_role ADMIN org caller tdb) (\<lambda>_. find_endpoint org i ws) of
       Inl e \<Rightarrow> (Inl e, ws)
     | Inr w \<Rightarrow> (Inr (endpoint_to_read (patch_endpoint p w)), update_where (\<lambda>x. we_id x = i) (patch_endpoint p) ws))"

definition delete_webhook_endpoint ::
  "uuid \<Rightarrow> uuid \<Rightarrow> uuid \<Rightarrow> tenancy_db \<Rightarrow> webhook_endpoint list \<Rightarrow> (exn + unit) \<times> webhook_endpoint list" where
  "delete_webhook_endpoint org i caller tdb ws =
    (case and_then (require_role ADMIN org caller tdb) (\<lambda>_. find_endpoint org i ws) of
       Inl e \<Rightarrow> (Inl e, ws)
     | Inr w \<Rightarrow> (Inr (), delete_where (\<lambda>x. we_id x = i) ws))"


section \<open>What a round enqueues\<close>

definition subscribed :: "outbox_event \<Rightarrow> webhook_endpoint \<Rightarrow> bool" where
  "subscribed e w \<longleftrightarrow> Some (we_org w) = ob_org e \<and> we_active w \<and> ob_type e \<in> set (split_ws (we_event_types w))"

definition jobs_for :: "webhook_endpoint list \<Rightarrow> outbox_event \<Rightarrow> delivery_job list" where
  "jobs_for endpoints e =
    (if ob_source e \<noteq> WEBHOOK_SOURCE then [] else map (job_of e) (filter (subscribed e) endpoints))"

lemma jobs_for_loop:
  "ob_source e = WEBHOOK_SOURCE \<Longrightarrow> jobs_for endpoints e = map (job_of e)
     (filter (\<lambda>w. ob_type e \<in> set (split_ws (we_event_types w)))
       (filter (\<lambda>w. Some (we_org w) = ob_org e \<and> we_active w) endpoints))"
  by (auto simp: jobs_for_def subscribed_def intro!: arg_cong [where f = "map (job_of e)"] filter_cong)

lemma settle_simps [simp]:
  "ob_id (settle now m res e) = ob_id e" "ob_source (settle now m res e) = ob_source e"
  "ob_event_id (settle now m res e) = ob_event_id e" "ob_type (settle now m res e) = ob_type e"
  "ob_org (settle now m res e) = ob_org e" "ob_payload (settle now m res e) = ob_payload e"
  "ob_created (settle now m res e) = ob_created e"
  by (simp_all add: settle_def Let_def split: fan_out_result.split)

lemma jobs_for_settle [simp]: "jobs_for endpoints (settle now m res e) = jobs_for endpoints e"
proof -
  have "job_of (settle now m res e) = job_of e" "subscribed (settle now m res e) = subscribed e"
    by (rule ext, simp add: job_of_def subscribed_def)+
  then show ?thesis by (simp add: jobs_for_def)
qed

text \<open>The contract of the seam: what was accepted is queued, and nothing else ever is.\<close>

locale enqueue_port =
  fixes enq :: "'q enqueue_fn" and jobs :: "'q \<Rightarrow> delivery_job list"
  assumes accepted: "enq j q = (Inr True, q') \<Longrightarrow> jobs q' = jobs q @ [j]"
    and at_most: "enq j q = (r, q') \<Longrightarrow> jobs q' = jobs q \<or> jobs q' = jobs q @ [j]"
begin

lemma loop_published:
  "fan_out_loop enq e ws q = (Published, q') \<Longrightarrow>
    jobs q' = jobs q @ map (job_of e) (filter (\<lambda>w. ob_type e \<in> set (split_ws (we_event_types w))) ws)"
proof (induction ws arbitrary: q)
  case Nil
  then show ?case by simp
next
  case (Cons w ws)
  show ?case
  proof (cases "ob_type e \<in> set (split_ws (we_event_types w))")
    case False
    then show ?thesis using Cons by simp
  next
    case True
    obtain r q1 where r: "enq (job_of e w) q = (r, q1)" by (cases "enq (job_of e w) q")
    then have acc: "r = Inr True" "fan_out_loop enq e ws q1 = (Published, q')"
      using Cons.prems True by (auto split: sum.splits bool.splits)
    then show ?thesis using Cons.IH [OF acc(2)] accepted [of "job_of e w" q q1] r True by simp
  qed
qed

lemma loop_adds:
  "fan_out_loop enq e ws q = (res, q') \<Longrightarrow> \<exists>new. jobs q' = jobs q @ new \<and>
    set new \<subseteq> job_of e ` set (filter (\<lambda>w. ob_type e \<in> set (split_ws (we_event_types w))) ws)"
proof (induction ws arbitrary: q)
  case Nil
  then show ?case by simp
next
  case (Cons w ws)
  show ?case
  proof (cases "ob_type e \<in> set (split_ws (we_event_types w))")
    case False
    then show ?thesis using Cons by simp
  next
    case True
    obtain r q1 where r: "enq (job_of e w) q = (r, q1)" by (cases "enq (job_of e w) q")
    then obtain n1 where n1: "jobs q1 = jobs q @ n1" "set n1 \<subseteq> {job_of e w}"
      using at_most [OF r] by (elim disjE) (rule that [of "[]"], simp, simp, rule that [of "[job_of e w]"], simp_all)
    show ?thesis
    proof (cases "r = Inr True")
      case acc: True
      then have "fan_out_loop enq e ws q1 = (res, q')" using Cons.prems True r by simp
      from Cons.IH [OF this] obtain n2 where n2: "jobs q' = jobs q1 @ n2"
        "set n2 \<subseteq> job_of e ` set (filter (\<lambda>w. ob_type e \<in> set (split_ws (we_event_types w))) ws)" by blast
      have "set (n1 @ n2) \<subseteq> job_of e ` set (filter (\<lambda>w. ob_type e \<in> set (split_ws (we_event_types w))) (w # ws))"
        using n1(2) n2(2) True by auto
      then show ?thesis using n1(1) n2(1) by (intro exI [of _ "n1 @ n2"]) simp
    next
      case False
      then have "q' = q1" using Cons.prems True r by (auto split: sum.splits bool.splits)
      then show ?thesis using n1 True by (intro exI [of _ n1]) auto
    qed
  qed
qed

lemma fan_out_published: "fan_out enq endpoints e q = (Published, q') \<Longrightarrow> jobs q' = jobs q @ jobs_for endpoints e"
  using loop_published [of e _ q q'] by (auto simp: fan_out_def jobs_for_def subscribed_def [abs_def] conj_assoc split: if_splits)

lemma fan_out_adds:
  assumes "fan_out enq endpoints e q = (res, q')"
  obtains new where "jobs q' = jobs q @ new" "set new \<subseteq> set (jobs_for endpoints e)"
proof (cases "ob_source e = WEBHOOK_SOURCE")
  case True
  then have "fan_out_loop enq e (filter (\<lambda>w. Some (we_org w) = ob_org e \<and> we_active w) endpoints) q = (res, q')"
    using assms by (simp add: fan_out_def)
  from loop_adds [OF this] show ?thesis using that True by (auto simp: jobs_for_loop)
next
  case False
  then show ?thesis using assms that [of "[]"] by (simp add: fan_out_def)
qed

text \<open>A round: its rows are the claimed ones, settled, and a published one has all its jobs.\<close>

lemma publish_events_jobs:
  "publish_events enq endpoints now m es q = (res, q') \<Longrightarrow>
    \<exists>new. jobs q' = jobs q @ new \<and> set new \<subseteq> (\<Union>e \<in> set es. set (jobs_for endpoints e))
      \<and> (\<forall>es'. res = Inr es' \<longrightarrow>
          (\<forall>e' \<in> set es'. \<exists>e \<in> set es. \<exists>r. e' = settle now m r e \<and> (\<forall>x. r \<noteq> Crashed x)
              \<and> (r = Published \<longrightarrow> set (jobs_for endpoints e) \<subseteq> set new)))"
proof (induction es arbitrary: q res q')
  case Nil
  then show ?case by (intro exI [of _ "[]"]) auto
next
  case (Cons e es)
  obtain r q1 where r: "fan_out enq endpoints e q = (r, q1)" by (cases "fan_out enq endpoints e q")
  obtain n1 where n1: "jobs q1 = jobs q @ n1" "set n1 \<subseteq> set (jobs_for endpoints e)" by (rule fan_out_adds [OF r])
  show ?case
  proof (cases "\<exists>x. r = Crashed x")
    case True
    then obtain x where "res = Inl x" "q' = q1" using Cons.prems r by auto
    then show ?thesis using n1 by (intro exI [of _ n1]) auto
  next
    case False
    obtain res1 q2 where rest: "publish_events enq endpoints now m es q1 = (res1, q2)"
      by (cases "publish_events enq endpoints now m es q1")
    have out: "q' = q2" "res = (case res1 of Inl x \<Rightarrow> Inl x | Inr es' \<Rightarrow> Inr (settle now m r e # es'))"
      using Cons.prems r rest False by (auto split: fan_out_result.splits sum.splits)
    from Cons.IH [OF rest] obtain n2 where n2: "jobs q2 = jobs q1 @ n2"
      "set n2 \<subseteq> (\<Union>e \<in> set es. set (jobs_for endpoints e))"
      "\<And>es' e'. res1 = Inr es' \<Longrightarrow> e' \<in> set es' \<Longrightarrow> \<exists>e \<in> set es. \<exists>r. e' = settle now m r e \<and> (\<forall>x. r \<noteq> Crashed x)
              \<and> (r = Published \<longrightarrow> set (jobs_for endpoints e) \<subseteq> set n2)" by blast
    have pub: "r = Published \<longrightarrow> set (jobs_for endpoints e) \<subseteq> set (n1 @ n2)"
    proof
      assume "r = Published"
      then have "jobs q1 = jobs q @ jobs_for endpoints e" using fan_out_published r by simp
      then show "set (jobs_for endpoints e) \<subseteq> set (n1 @ n2)" using n1(1) by simp
    qed
    have "\<exists>f \<in> set (e # es). \<exists>r. e' = settle now m r f \<and> (\<forall>x. r \<noteq> Crashed x)
            \<and> (r = Published \<longrightarrow> set (jobs_for endpoints f) \<subseteq> set (n1 @ n2))"
      if "res = Inr es'" "e' \<in> set es'" for es' e'
    proof -
      note res = that(1) and mem = that(2)
      obtain es1 where es1: "res1 = Inr es1" "es' = settle now m r e # es1"
        using res out(2) by (cases res1) simp_all
      consider "e' = settle now m r e" | "e' \<in> set es1" using mem es1(2) by auto
      then show ?thesis
      proof cases
        case 1
        then show ?thesis using pub False by auto
      next
        case 2
        from n2(3) [OF es1(1) 2] obtain f r' where f: "f \<in> set es" "e' = settle now m r' f" "\<forall>x. r' \<noteq> Crashed x"
          "r' = Published \<longrightarrow> set (jobs_for endpoints f) \<subseteq> set n2" by blast
        then have "r' = Published \<longrightarrow> set (jobs_for endpoints f) \<subseteq> set (n1 @ n2)" by auto
        then show ?thesis using f(1-3) by (intro bexI [of _ f] exI [of _ r']) simp_all
      qed
    qed
    then show ?thesis using n1 n2(1,2) out(1) by (intro exI [of _ "n1 @ n2"]) auto
  qed
qed

end

interpretation seam: enqueue_port enqueue queued
proof
  fix j q q'
  assume "enqueue j q = (Inr True, q')"
  then show "queued q' = queued q @ [j]"
    by (auto simp: enqueue_def Let_def split: list.splits pool_outcome.splits if_splits)
next
  fix j q r q'
  assume "enqueue j q = (r, q')"
  then show "queued q' = queued q \<or> queued q' = queued q @ [j]"
    by (auto simp: enqueue_def Let_def split: list.splits pool_outcome.splits if_splits)
qed

end
