(* ===== verification/NetLib.thy ===== *)
theory NetLib imports Prelude "HOL-Library.Word" begin

text \<open>
  What the egress guard uses of the standard library (Python 3.13): \<open>ipaddress\<close>, with the addresses and the
  networks as machine words, and \<open>urllib.parse.urlsplit\<close> and \<open>urlunsplit\<close> with the host and the port of
  their result. Text has 8-bit characters; none of them turns into a delimiter under NFKC, so the check of
  \<open>urlsplit\<close> for that never fails.
\<close>

section \<open>Text\<close>

fun split_on :: "char \<Rightarrow> string \<Rightarrow> string list" where
  "split_on c [] = [[]]"
| "split_on c (x # xs) = (if x = c then [] # split_on c xs
     else (case split_on c xs of [] \<Rightarrow> [[x]] | w # ws \<Rightarrow> (x # w) # ws))"

definition is_digit :: "char \<Rightarrow> bool" where
  "is_digit c \<longleftrightarrow> CHR ''0'' \<le> c \<and> c \<le> CHR ''9''"

definition is_alpha :: "char \<Rightarrow> bool" where
  "is_alpha c \<longleftrightarrow> (CHR ''a'' \<le> c \<and> c \<le> CHR ''z'') \<or> (CHR ''A'' \<le> c \<and> c \<le> CHR ''Z'')"

definition decimal :: "string \<Rightarrow> nat" where
  "decimal s = foldl (\<lambda>n c. 10 * n + (of_char c - 48)) 0 s"

definition hex_value :: "char \<Rightarrow> nat option" where
  "hex_value c =
    (if is_digit c then Some (of_char c - 48)
     else if CHR ''a'' \<le> c \<and> c \<le> CHR ''f'' then Some (of_char c - 87)
     else if CHR ''A'' \<le> c \<and> c \<le> CHR ''F'' then Some (of_char c - 55)
     else None)"

definition hexadecimal :: "string \<Rightarrow> nat" where
  "hexadecimal s = foldl (\<lambda>n c. 16 * n + (case hex_value c of Some d \<Rightarrow> d | None \<Rightarrow> 0)) 0 s"

text \<open>\<open>repr\<close> of a string.\<close>

definition hex_digit :: "nat \<Rightarrow> char" where
  "hex_digit n = ''0123456789abcdef'' ! n"

definition repr_char :: "char \<Rightarrow> char \<Rightarrow> string" where
  "repr_char q c =
    (let n = (of_char c :: nat)
     in if c = q \<or> c = CHR 0x5C then [CHR 0x5C, c]
        else if n = 9 then [CHR 0x5C, CHR ''t'']
        else if n = 10 then [CHR 0x5C, CHR ''n'']
        else if n = 13 then [CHR 0x5C, CHR ''r'']
        else if n < 32 \<or> (127 \<le> n \<and> n \<le> 160) \<or> n = 173
        then [CHR 0x5C, CHR ''x'', hex_digit (n div 16), hex_digit (n mod 16)]
        else [c])"

definition py_repr :: "string \<Rightarrow> string" where
  "py_repr s =
    (let q = (if CHR 0x27 \<in> set s \<and> CHR 0x22 \<notin> set s then CHR 0x22 else CHR 0x27)
     in [q] @ concat (map (repr_char q) s) @ [q])"

section \<open>Addresses\<close>

datatype ip_addr = V4 "32 word" | V6 "128 word"

definition in_net :: "'a::len word \<Rightarrow> nat \<Rightarrow> 'a word \<Rightarrow> bool" where
  "in_net n l a \<longleftrightarrow> drop_bit (LENGTH('a) - l) a = drop_bit (LENGTH('a) - l) n"

definition quad :: "nat \<Rightarrow> nat \<Rightarrow> nat \<Rightarrow> nat \<Rightarrow> 32 word" where
  "quad a b c d = of_nat (((a * 256 + b) * 256 + c) * 256 + d)"

text \<open>The hextets of an IPv6 address, the first ones given, the others zero.\<close>

definition hextets :: "nat list \<Rightarrow> 128 word" where
  "hextets hs = of_nat (foldl (\<lambda>n h. n * 65536 + h) 0 (hs @ replicate (8 - length hs) 0))"

definition PRIVATE_V4 :: "(32 word \<times> nat) list" where
  "PRIVATE_V4 = [(quad 0 0 0 0, 8), (quad 10 0 0 0, 8), (quad 127 0 0 0, 8), (quad 169 254 0 0, 16),
     (quad 172 16 0 0, 12), (quad 192 0 0 0, 24), (quad 192 0 0 170, 31), (quad 192 0 2 0, 24),
     (quad 192 168 0 0, 16), (quad 198 18 0 0, 15), (quad 198 51 100 0, 24), (quad 203 0 113 0, 24),
     (quad 240 0 0 0, 4), (quad 255 255 255 255, 32)]"

definition PRIVATE_V4_EXCEPTIONS :: "(32 word \<times> nat) list" where
  "PRIVATE_V4_EXCEPTIONS = [(quad 192 0 0 9, 32), (quad 192 0 0 10, 32)]"

definition PRIVATE_V6 :: "(128 word \<times> nat) list" where
  "PRIVATE_V6 = [(1, 128), (0, 128), (hextets [0, 0, 0, 0, 0, 0xffff], 96), (hextets [0x64, 0xff9b, 1], 48),
     (hextets [0x100], 64), (hextets [0x2001], 23), (hextets [0x2001, 0xdb8], 32), (hextets [0x2002], 16),
     (hextets [0x3fff], 20), (hextets [0xfc00], 7), (hextets [0xfe80], 10)]"

definition PRIVATE_V6_EXCEPTIONS :: "(128 word \<times> nat) list" where
  "PRIVATE_V6_EXCEPTIONS = [(hextets [0x2001, 1, 0, 0, 0, 0, 0, 1], 128), (hextets [0x2001, 1, 0, 0, 0, 0, 0, 2], 128),
     (hextets [0x2001, 3], 32), (hextets [0x2001, 4, 0x112], 48), (hextets [0x2001, 0x20], 28), (hextets [0x2001, 0x30], 28)]"

definition RESERVED_V6 :: "(128 word \<times> nat) list" where
  "RESERVED_V6 = [(0, 8), (hextets [0x100], 8), (hextets [0x200], 7), (hextets [0x400], 6), (hextets [0x800], 5),
     (hextets [0x1000], 4), (hextets [0x4000], 3), (hextets [0x6000], 3), (hextets [0x8000], 3), (hextets [0xa000], 3),
     (hextets [0xc000], 3), (hextets [0xe000], 4), (hextets [0xf000], 5), (hextets [0xf800], 6), (hextets [0xfe00], 9)]"

definition in_any :: "('a::len word \<times> nat) list \<Rightarrow> 'a word \<Rightarrow> bool" where
  "in_any nets a = list_ex (\<lambda>(n, l). in_net n l a) nets"

definition ipv4_mapped :: "128 word \<Rightarrow> 32 word option" where
  "ipv4_mapped a = (if drop_bit 32 a = 0xffff then Some (ucast a) else None)"

text \<open>The properties of an address; an IPv4-mapped one has those of the address it maps.\<close>

definition via_mapped :: "(32 word \<Rightarrow> bool) \<Rightarrow> (128 word \<Rightarrow> bool) \<Rightarrow> ip_addr \<Rightarrow> bool" where
  "via_mapped p4 p6 ip = (case ip of V4 a \<Rightarrow> p4 a
     | V6 a \<Rightarrow> (case ipv4_mapped a of Some m \<Rightarrow> p4 m | None \<Rightarrow> p6 a))"

definition is_private :: "ip_addr \<Rightarrow> bool" where
  "is_private = via_mapped (\<lambda>a. in_any PRIVATE_V4 a \<and> \<not> in_any PRIVATE_V4_EXCEPTIONS a)
     (\<lambda>a. in_any PRIVATE_V6 a \<and> \<not> in_any PRIVATE_V6_EXCEPTIONS a)"

definition is_loopback :: "ip_addr \<Rightarrow> bool" where
  "is_loopback = via_mapped (in_net (quad 127 0 0 0) 8) (\<lambda>a. a = 1)"

definition is_link_local :: "ip_addr \<Rightarrow> bool" where
  "is_link_local = via_mapped (in_net (quad 169 254 0 0) 16) (in_net (hextets [0xfe80]) 10)"

definition is_reserved :: "ip_addr \<Rightarrow> bool" where
  "is_reserved = via_mapped (in_net (quad 240 0 0 0) 4) (in_any RESERVED_V6)"

definition is_multicast :: "ip_addr \<Rightarrow> bool" where
  "is_multicast = via_mapped (in_net (quad 224 0 0 0) 4) (in_net (hextets [0xff00]) 8)"

definition is_unspecified :: "ip_addr \<Rightarrow> bool" where
  "is_unspecified = via_mapped (\<lambda>a. a = 0) (\<lambda>a. a = 0)"

section \<open>The text of an address\<close>

definition parse_octet :: "string \<Rightarrow> nat option" where
  "parse_octet s =
    (if s = [] \<or> \<not> list_all is_digit s \<or> 3 < length s \<or> (s \<noteq> ''0'' \<and> hd s = CHR ''0'') \<or> 255 < decimal s
     then None else Some (decimal s))"

definition parse_v4 :: "string \<Rightarrow> 32 word option" where
  "parse_v4 s = (case map parse_octet (split_on CHR ''.'' s) of
     [Some a, Some b, Some c, Some d] \<Rightarrow> Some (quad a b c d) | _ \<Rightarrow> None)"

definition parse_hextet :: "string \<Rightarrow> nat option" where
  "parse_hextet s =
    (if s = [] \<or> \<not> list_all (\<lambda>c. hex_value c \<noteq> None) s \<or> 4 < length s then None else Some (hexadecimal s))"

text \<open>The parts between the colons as numbers, \<open>None\<close> standing for an empty part; a dotted quad at the end counts as two.\<close>

definition hextet_parts :: "string \<Rightarrow> nat option list option" where
  "hextet_parts s =
    (let parts = split_on CHR '':'' s;
         number = (\<lambda>p. if p = [] then Some None else map_option Some (parse_hextet p))
     in if length parts < 3 then None
        else if CHR ''.'' \<in> set (last parts) then
          (case parse_v4 (last parts) of
             None \<Rightarrow> None
           | Some q \<Rightarrow> map_option (\<lambda>ps. ps @ [Some (unat q div 65536), Some (unat q mod 65536)])
               (those (map number (butlast parts))))
        else those (map number parts))"

text \<open>The parts before and after the double colon; at most one, and nothing else may be empty.\<close>

definition assemble :: "nat option list \<Rightarrow> 128 word option" where
  "assemble ps =
    (if 9 < length ps then None
     else (case filter (\<lambda>i. ps ! i = None) [1..<length ps - 1] of
         [] \<Rightarrow> if length ps \<noteq> 8 \<or> None \<in> set ps then None else map_option hextets (those ps)
       | [i] \<Rightarrow>
           (let hi = take i ps; lo = drop (i + 1) ps;
                hi' = (if hd ps = None then tl hi else hi);
                lo' = (if last ps = None then butlast lo else lo)
            in if (hd ps = None \<and> hi' \<noteq> []) \<or> (last ps = None \<and> lo' \<noteq> []) \<or> 7 < length hi' + length lo' then None
               else (case (those hi', those lo') of
                   (Some h, Some l) \<Rightarrow> Some (hextets (h @ replicate (8 - length h - length l) 0 @ l))
                 | _ \<Rightarrow> None))
       | _ \<Rightarrow> None))"

text \<open>A zone may follow a percent sign; \<open>ip_address\<close> keeps it aside, and no property depends on it.\<close>

definition parse_v6 :: "string \<Rightarrow> 128 word option" where
  "parse_v6 s =
    (case partition_at CHR ''%'' s of
       None \<Rightarrow> Option.bind (hextet_parts s) assemble
     | Some (a, zone) \<Rightarrow>
         if zone = [] \<or> CHR ''%'' \<in> set zone then None else Option.bind (hextet_parts a) assemble)"

definition parse_ip :: "string \<Rightarrow> ip_addr option" where
  "parse_ip s = (case parse_v4 s of Some a \<Rightarrow> Some (V4 a) | None \<Rightarrow> map_option V6 (parse_v6 s))"

section \<open>URLs\<close>

record split_url =
  su_scheme :: string
  su_netloc :: string
  su_path :: string
  su_query :: string
  su_fragment :: string

definition is_scheme_char :: "char \<Rightarrow> bool" where
  "is_scheme_char c \<longleftrightarrow> is_alpha c \<or> is_digit c \<or> c \<in> {CHR ''+'', CHR ''-'', CHR ''.''}"

definition clean_url :: "string \<Rightarrow> string" where
  "clean_url u = filter (\<lambda>c. c \<notin> {CHR 0x09, CHR 0x0A, CHR 0x0D}) (dropWhile (\<lambda>c. c \<le> CHR '' '') u)"

definition split_scheme :: "string \<Rightarrow> string \<times> string" where
  "split_scheme u = (case partition_at CHR '':'' u of
     Some (a, b) \<Rightarrow> if a \<noteq> [] \<and> is_alpha (hd a) \<and> list_all is_scheme_char a then (lower a, b) else ([], u)
   | None \<Rightarrow> ([], u))"

definition in_netloc :: "char \<Rightarrow> bool" where
  "in_netloc c \<longleftrightarrow> c \<notin> {CHR ''/'', CHR ''?'', CHR ''#''}"

definition split_netloc :: "string \<Rightarrow> string \<times> string" where
  "split_netloc u = (if take 2 u = ''//'' then (takeWhile in_netloc (drop 2 u), dropWhile in_netloc (drop 2 u)) else ([], u))"

text \<open>What follows the last at sign, and the host and the port in it.\<close>

definition after_at :: "string \<Rightarrow> string" where
  "after_at s = rev (takeWhile (\<lambda>c. c \<noteq> CHR ''@'') (rev s))"

definition host_info :: "string \<Rightarrow> string \<times> string" where
  "host_info netloc =
    (case partition_at CHR ''['' (after_at netloc) of
       Some (_, bracketed) \<Rightarrow>
         (case partition_at CHR '']'' bracketed of
            Some (h, p) \<Rightarrow> (h, case partition_at CHR '':'' p of Some (_, port) \<Rightarrow> port | None \<Rightarrow> [])
          | None \<Rightarrow> (bracketed, []))
     | None \<Rightarrow>
         (case partition_at CHR '':'' (after_at netloc) of Some (h, p) \<Rightarrow> (h, p) | None \<Rightarrow> (after_at netloc, [])))"

text \<open>\<open>v1.x\<close>: the letter, hexadecimal digits, a dot, and something without a line feed.\<close>

definition is_future_host :: "string \<Rightarrow> bool" where
  "is_future_host s = (case partition_at CHR ''.'' (tl s) of
     None \<Rightarrow> False
   | Some (a, b) \<Rightarrow> a \<noteq> [] \<and> list_all (\<lambda>c. hex_value c \<noteq> None) a \<and> b \<noteq> [] \<and> CHR 0x0A \<notin> set b)"

definition bracketed_host_ok :: "string \<Rightarrow> bool" where
  "bracketed_host_ok h =
    (if starts_with ''v'' h then is_future_host h
     else (case parse_ip h of Some (V6 _) \<Rightarrow> True | _ \<Rightarrow> False))"

definition bracketed_netloc_ok :: "string \<Rightarrow> bool" where
  "bracketed_netloc_ok netloc =
    (case partition_at CHR ''['' (after_at netloc) of
       Some (ahead, bracketed) \<Rightarrow> ahead = [] \<and>
         (case partition_at CHR '']'' bracketed of
            Some (h, p) \<Rightarrow> (p = [] \<or> starts_with '':'' p) \<and> bracketed_host_ok h
          | None \<Rightarrow> bracketed_host_ok bracketed)
     | None \<Rightarrow> bracketed_host_ok (fst (host_info netloc)))"

definition cut_at :: "char \<Rightarrow> string \<Rightarrow> string \<times> string" where
  "cut_at c s = (case partition_at c s of Some (a, b) \<Rightarrow> (a, b) | None \<Rightarrow> (s, []))"

definition urlsplit :: "string \<Rightarrow> exn + split_url" where
  "urlsplit url =
    (let (scheme, u1) = split_scheme (clean_url url);
         (netloc, u2) = split_netloc u1;
         open_br = CHR ''['' \<in> set netloc; close_br = CHR '']'' \<in> set netloc
     in if open_br \<noteq> close_br \<or> (open_br \<and> \<not> bracketed_netloc_ok netloc)
        then Inl (ValueError ''Invalid IPv6 URL'')
        else
          (let (u3, fragment) = cut_at CHR ''#'' u2;
               (path, query) = cut_at CHR ''?'' u3
           in Inr \<lparr>su_scheme = scheme, su_netloc = netloc, su_path = path, su_query = query, su_fragment = fragment\<rparr>))"

definition url_hostname :: "split_url \<Rightarrow> string option" where
  "url_hostname u =
    (let h = fst (host_info (su_netloc u))
     in if h = [] then None
        else Some (case partition_at CHR ''%'' h of
            Some (a, zone) \<Rightarrow> lower a @ ''%'' @ zone | None \<Rightarrow> lower h))"

definition url_port :: "split_url \<Rightarrow> exn + nat option" where
  "url_port u =
    (let p = snd (host_info (su_netloc u))
     in if p = [] then Inr None
        else if \<not> list_all is_digit p then Inl (ValueError ''Port could not be cast to integer value'')
        else if 65535 < decimal p then Inl (ValueError ''Port out of range 0-65535'')
        else Inr (Some (decimal p)))"

text \<open>Reassembly around a network location that is not empty.\<close>

definition urlunsplit :: "string \<Rightarrow> string \<Rightarrow> string \<Rightarrow> string \<Rightarrow> string \<Rightarrow> string" where
  "urlunsplit scheme netloc path query fragment =
    (let rooted = (if path \<noteq> [] \<and> hd path \<noteq> CHR ''/'' then ''/'' @ path else path);
         u1 = ''//'' @ netloc @ rooted;
         u2 = (if scheme = [] then u1 else scheme @ '':'' @ u1);
         u3 = (if query = [] then u2 else u2 @ ''?'' @ query)
     in if fragment = [] then u3 else u3 @ ''#'' @ fragment)"

end
