(* ===== verification/Egress.thy ===== *)
theory Egress imports NetLib begin

text \<open>
  The guard against server-side request forgery of outbound webhooks (\<open>app/webhooks/egress.py\<close>): which
  addresses are public, and the target a URL is pinned to. Name resolution is an argument.
\<close>

section \<open>The guard\<close>

definition ALLOWED_SCHEMES :: "string list" where
  "ALLOWED_SCHEMES = [''http'', ''https'']"

definition default_port :: "string \<Rightarrow> nat" where
  "default_port scheme = (if scheme = ''http'' then 80 else 443)"

definition CGNAT_V4 :: "32 word" where
  "CGNAT_V4 = quad 100 64 0 0"

definition flagged :: "ip_addr \<Rightarrow> bool" where
  "flagged ip \<longleftrightarrow> is_private ip \<or> is_loopback ip \<or> is_link_local ip \<or> is_reserved ip \<or> is_multicast ip
     \<or> is_unspecified ip"

function is_public :: "ip_addr \<Rightarrow> bool" where
  "is_public (V4 a) = (if flagged (V4 a) then False else \<not> in_net CGNAT_V4 10 a)"
| "is_public (V6 a) = (if flagged (V6 a) then False
     else (case ipv4_mapped a of Some m \<Rightarrow> is_public (V4 m) | None \<Rightarrow> True))"
  by pat_completeness auto
termination by (relation "measure (\<lambda>ip. case ip of V4 _ \<Rightarrow> 0 | V6 _ \<Rightarrow> 1)") auto

text \<open>What the resolver answers: an error of the system, another exception, or the addresses.\<close>

datatype resolution = Unresolvable | ResolverRaised exn | Addresses "string list"

type_synonym resolver = "string \<Rightarrow> nat \<Rightarrow> resolution"

fun check_public :: "string \<Rightarrow> string list \<Rightarrow> exn + unit" where
  "check_public host [] = Inr ()"
| "check_public host (a # as) =
    (case parse_ip a of
       None \<Rightarrow> Inl (ValueError (py_repr a @ '' does not appear to be an IPv4 or IPv6 address''))
     | Some ip \<Rightarrow>
         if \<not> is_public ip then Inl (WebhookEgressError (host @ '' resolves to non-public address '' @ a))
         else check_public host as)"

definition resolve_public_ips :: "resolver \<Rightarrow> string \<Rightarrow> nat \<Rightarrow> exn + string list" where
  "resolve_public_ips resolve host port =
    (case resolve host port of
       Unresolvable \<Rightarrow> Inl (WebhookEgressError (''cannot resolve host: '' @ host))
     | ResolverRaised e \<Rightarrow> Inl e
     | Addresses infos \<Rightarrow>
         (let addresses = map (\<lambda>a. fst (cut_at CHR ''%'' a)) infos
          in if addresses = [] then Inl (WebhookEgressError (''no addresses for host: '' @ host))
             else and_then (check_public host addresses) (\<lambda>_. Inr addresses)))"

record pinned_target =
  pt_url :: string
  pt_host_header :: string
  pt_sni_hostname :: string

definition authority :: "string \<Rightarrow> nat option \<Rightarrow> string" where
  "authority ip port =
    (let a = (if CHR '':'' \<in> set ip then ''['' @ ip @ '']'' else ip)
     in case port of None \<Rightarrow> a | Some p \<Rightarrow> a @ '':'' @ nat_str p)"

definition resolve_pinned_target :: "resolver \<Rightarrow> string \<Rightarrow> exn + pinned_target" where
  "resolve_pinned_target resolve url =
    and_then (urlsplit url) (\<lambda>parts.
      if su_scheme parts \<notin> set ALLOWED_SCHEMES
      then Inl (WebhookEgressError (''unsupported scheme: '' @ py_repr (su_scheme parts)))
      else (case url_hostname parts of
          None \<Rightarrow> Inl (WebhookEgressError ''missing host'')
        | Some host \<Rightarrow>
            (case url_port parts of
               Inl _ \<Rightarrow> Inl (WebhookEgressError (''invalid port: '' @ py_repr url))
             | Inr port \<Rightarrow>
                 and_then (resolve_public_ips resolve host
                     (case port of Some p \<Rightarrow> if p = 0 then default_port (su_scheme parts) else p
                      | None \<Rightarrow> default_port (su_scheme parts)))
                   (\<lambda>addresses. Inr \<lparr>pt_url = urlunsplit (su_scheme parts) (authority (hd addresses) port)
                          (su_path parts) (su_query parts) (su_fragment parts),
                        pt_host_header = after_at (su_netloc parts), pt_sni_hostname = host\<rparr>))))"

definition assert_public_url :: "resolver \<Rightarrow> string \<Rightarrow> exn + unit" where
  "assert_public_url resolve url = and_then (resolve_pinned_target resolve url) (\<lambda>_. Inr ())"

section \<open>Networks as intervals\<close>

lemma uint_drop_bit: "uint (drop_bit j w) = uint w div 2 ^ j" for w :: "'a::len word"
proof -
  have "take_bit LENGTH('a) (uint w) = uint w" using uint_bounded [of w] by (simp add: take_bit_int_eq_self_iff)
  then show ?thesis unfolding unsigned_drop_bit_eq by (simp add: drop_bit_eq_div)
qed

lemma ipv4_mapped_uint: "ipv4_mapped a = (if uint a div 4294967296 = 65535 then Some (ucast a) else None)"
  unfolding ipv4_mapped_def word_uint_eq_iff uint_drop_bit by simp

lemma hextets_shift:
  "hextets hs = of_nat (foldl (\<lambda>n h. n * 65536 + h) 0 hs * 65536 ^ (8 - length hs))"
proof -
  have "foldl (\<lambda>n h. n * 65536 + h) n (replicate k 0) = n * 65536 ^ k" for n k :: nat
    by (induction k arbitrary: n) simp_all
  then show ?thesis by (simp add: hextets_def)
qed

lemma in_net_interval:
  fixes n a :: "'a::len word"
  assumes "l \<le> LENGTH('a)" "2 ^ (LENGTH('a) - l) dvd uint n"
  shows "in_net n l a \<longleftrightarrow> uint n \<le> uint a \<and> uint a < uint n + 2 ^ (LENGTH('a) - l)"
proof -
  let ?k = "(2::int) ^ (LENGTH('a) - l)"
  have k: "0 < ?k" by simp
  obtain q where q: "uint n = q * ?k" using assms(2) by (auto elim: dvdE simp: mult.commute)
  have "in_net n l a \<longleftrightarrow> uint a div ?k = q"
  proof -
    have "q * ?k div ?k = q" using k by simp
    then show ?thesis by (simp add: in_net_def word_uint_eq_iff uint_drop_bit q)
  qed
  also have "\<dots> \<longleftrightarrow> q * ?k \<le> uint a \<and> uint a < q * ?k + ?k"
  proof
    assume "uint a div ?k = q"
    then have "uint a = q * ?k + uint a mod ?k" by (metis div_mult_mod_eq)
    moreover have "0 \<le> uint a mod ?k" "uint a mod ?k < ?k" using k by simp_all
    ultimately show "q * ?k \<le> uint a \<and> uint a < q * ?k + ?k" by linarith
  next
    assume "q * ?k \<le> uint a \<and> uint a < q * ?k + ?k"
    then have "0 \<le> uint a - q * ?k" "uint a - q * ?k < ?k" by linarith+
    then have "(uint a - q * ?k) div ?k = 0" by (rule div_pos_pos_trivial)
    moreover have "uint a div ?k = q + (uint a - q * ?k) div ?k"
      using k div_mult_self1 [of ?k "uint a - q * ?k" q] by simp
    ultimately show "uint a div ?k = q" by simp
  qed
  finally show ?thesis using q by simp
qed

lemmas address_simps = in_net_interval hextets_shift quad_def ipv4_mapped_uint via_mapped_def in_any_def

lemmas property_defs = is_private_def is_loopback_def is_link_local_def is_reserved_def is_multicast_def
  is_unspecified_def

text \<open>The address blocks that are refused, as intervals, adjacent ones merged.\<close>

definition REFUSED_V4 :: "(32 word \<times> 32 word) list" where
  "REFUSED_V4 =
    [(quad 0 0 0 0, quad 0 255 255 255), (quad 10 0 0 0, quad 10 255 255 255),
     (quad 100 64 0 0, quad 100 127 255 255), (quad 127 0 0 0, quad 127 255 255 255),
     (quad 169 254 0 0, quad 169 254 255 255), (quad 172 16 0 0, quad 172 31 255 255),
     (quad 192 0 0 0, quad 192 0 0 8), (quad 192 0 0 11, quad 192 0 0 255), (quad 192 0 2 0, quad 192 0 2 255),
     (quad 192 168 0 0, quad 192 168 255 255), (quad 198 18 0 0, quad 198 19 255 255),
     (quad 198 51 100 0, quad 198 51 100 255), (quad 203 0 113 0, quad 203 0 113 255),
     (quad 224 0 0 0, quad 255 255 255 255)]"

section \<open>The text of an address in a URL\<close>

definition ip_char :: "char \<Rightarrow> bool" where
  "ip_char c \<longleftrightarrow> hex_value c \<noteq> None \<or> c = CHR ''.'' \<or> c = CHR '':''"

lemma split_on_chars: "set s \<subseteq> insert c (\<Union>p \<in> set (split_on c s). set p)"
proof (induction s)
  case Nil
  then show ?case by simp
next
  case (Cons x xs)
  then show ?case by (cases "split_on c xs") auto
qed

lemma split_on_nonempty [simp]: "split_on c s \<noteq> []"
  by (cases s) (auto split: list.split)

lemma split_on_absent: "c \<notin> set s \<Longrightarrow> split_on c s = [s]"
  by (induction s) auto

lemma parse_octet_chars: "parse_octet p = Some n \<Longrightarrow> c \<in> set p \<Longrightarrow> is_digit c"
  by (auto simp: parse_octet_def list_all_iff split: if_splits)

lemma parse_hextet_chars: "parse_hextet p = Some n \<Longrightarrow> c \<in> set p \<Longrightarrow> hex_value c \<noteq> None"
  by (auto simp: parse_hextet_def list_all_iff split: if_splits)

lemma digit_hex: "is_digit c \<Longrightarrow> hex_value c \<noteq> None"
  by (simp add: hex_value_def)

lemma parse_v4_chars:
  assumes "parse_v4 s = Some a" "c \<in> set s"
  shows "is_digit c \<or> c = CHR ''.''"
proof -
  have all: "parse_octet p \<noteq> None" if "p \<in> set (split_on CHR ''.'' s)" for p
    using assms(1) that by (auto simp: parse_v4_def split: list.splits option.splits)
  show ?thesis
  proof (cases "c = CHR ''.''")
    case False
    then obtain p where p: "p \<in> set (split_on CHR ''.'' s)" "c \<in> set p"
      using split_on_chars [of s "CHR ''.''"] assms(2) by auto
    then show ?thesis using all [OF p(1)] parse_octet_chars [of p] by auto
  qed simp
qed

lemma those_Some: "those xs = Some ys \<Longrightarrow> x \<in> set xs \<Longrightarrow> x \<noteq> None"
  by (induction xs arbitrary: ys) (auto split: option.splits)

lemma hextet_parts_chars:
  assumes "hextet_parts s = Some ps" "c \<in> set s"
  shows "ip_char c"
proof (cases "c = CHR '':''")
  case True
  then show ?thesis by (simp add: ip_char_def)
next
  case False
  define parts where "parts = split_on CHR '':'' s"
  define number where "number = (\<lambda>p :: string. if p = [] then Some None else map_option Some (parse_hextet p))"
  obtain p where p: "p \<in> set parts" "c \<in> set p"
    using split_on_chars [of s "CHR '':''"] assms(2) False unfolding parts_def by auto
  have num: "ip_char c" if "number p \<noteq> None"
    using that p(2) parse_hextet_chars [of p] unfolding number_def ip_char_def by (auto split: if_splits)
  have ne: "parts \<noteq> []" unfolding parts_def by simp
  have eq: "hextet_parts s = (if length parts < 3 then None
        else if CHR ''.'' \<in> set (last parts) then
          (case parse_v4 (last parts) of
             None \<Rightarrow> None
           | Some q \<Rightarrow> map_option (\<lambda>ps. ps @ [Some (unat q div 65536), Some (unat q mod 65536)])
               (those (map number (butlast parts))))
        else those (map number parts))"
    unfolding hextet_parts_def parts_def number_def Let_def ..
  show ?thesis
  proof (cases "CHR ''.'' \<in> set (last parts)")
    case True
    then obtain q qs where q: "parse_v4 (last parts) = Some q" "those (map number (butlast parts)) = Some qs"
      using assms(1) eq by (auto split: if_splits option.splits)
    have "p \<in> set (butlast parts) \<or> p = last parts" using p(1) ne by (metis append_butlast_last_id in_set_conv_decomp rotate1.simps(2) set_ConsD set_rotate1)
    then show ?thesis
    proof
      assume "p \<in> set (butlast parts)"
      then have "number p \<in> set (map number (butlast parts))" by simp
      from those_Some [OF q(2) this] show ?thesis by (rule num)
    next
      assume "p = last parts"
      then show ?thesis using parse_v4_chars [OF q(1)] p(2) digit_hex by (auto simp: ip_char_def)
    qed
  next
    case False
    then have "those (map number parts) = Some ps" using assms(1) eq by (auto split: if_splits)
    moreover have "number p \<in> set (map number parts)" using p(1) by simp
    ultimately have "number p \<noteq> None" by (rule those_Some)
    then show ?thesis by (rule num)
  qed
qed

lemma partition_at_None: "partition_at c s = None \<longleftrightarrow> c \<notin> set s"
  by (induction s) (auto split: option.splits)

lemma parse_ip_chars:
  assumes "parse_ip s = Some ip" "CHR ''%'' \<notin> set s" "c \<in> set s"
  shows "ip_char c"
proof (cases "parse_v4 s")
  case (Some a)
  then show ?thesis using parse_v4_chars [OF Some assms(3)] digit_hex by (auto simp: ip_char_def)
next
  case None
  then obtain a where "parse_v6 s = Some a" using assms(1) by (auto simp: parse_ip_def)
  then obtain ps where "hextet_parts s = Some ps"
    using assms(2) by (auto simp: parse_v6_def partition_at_None [symmetric] Option.bind_eq_Some_conv split: option.splits)
  then show ?thesis by (rule hextet_parts_chars [OF _ assms(3)])
qed

lemma parse_ip_colon:
  assumes "parse_ip s = Some ip" "CHR '':'' \<in> set s"
  shows "\<exists>a. ip = V6 a"
proof (cases "parse_v4 s")
  case (Some a)
  from parse_v4_chars [OF this assms(2)] show ?thesis by (simp add: is_digit_def less_eq_char_def)
next
  case None
  then show ?thesis using assms(1) by (auto simp: parse_ip_def)
qed

lemma parse_ip_nonempty: "parse_ip s = Some ip \<Longrightarrow> s \<noteq> []"
  by (auto simp: parse_ip_def parse_v4_def parse_octet_def parse_v6_def hextet_parts_def)

lemma ip_char_cases:
  assumes "ip_char c"
  shows "c \<notin> {CHR ''/'', CHR ''?'', CHR ''#'', CHR ''@'', CHR ''['', CHR '']'', CHR ''%'', CHR ''v'',
    CHR 0x09, CHR 0x0A, CHR 0x0D}" "CHR '' '' < c"
  using assms by (auto simp: ip_char_def hex_value_def is_digit_def less_eq_char_def less_char_def split: if_splits)

lemma nat_str_digits: "c \<in> set (nat_str n) \<Longrightarrow> is_digit c"
proof (induction n rule: nat_str.induct)
  case (1 n)
  have digit: "is_digit (digit_char d)" if "d < 10" for d
  proof -
    have "d \<in> {0, 1, 2, 3, 4, 5, 6, 7, 8, 9}" using that by auto
    then show ?thesis by (auto simp: digit_char_def is_digit_def less_eq_char_def)
  qed
  show ?case using 1 digit [of "n mod 10"] digit [of n] by (auto simp: nat_str.simps [of n] split: if_splits)
qed

lemma decimal_nat_str: "decimal (nat_str n) = n"
proof (induction n rule: nat_str.induct)
  case (1 n)
  have digit: "of_char (digit_char d) = (48 + d :: nat)" if "d < 10" for d
  proof -
    have "d \<in> {0, 1, 2, 3, 4, 5, 6, 7, 8, 9}" using that by auto
    then show ?thesis by (auto simp: digit_char_def)
  qed
  show ?case
  proof (cases "n < 10")
    case True
    then show ?thesis using digit [OF True] by (simp add: nat_str.simps [of n] decimal_def)
  next
    case False
    have "decimal (nat_str (n div 10)) = n div 10" using 1 False by simp
    then show ?thesis using False digit [of "n mod 10"]
      by (simp add: nat_str.simps [of n] decimal_def)
  qed
qed

lemma nat_str_nonempty [simp]: "nat_str n \<noteq> []"
  by (simp add: nat_str.simps [of n])


section \<open>The pinned URL is read back as it was meant\<close>

definition plain :: "string \<Rightarrow> bool" where
  "plain s \<longleftrightarrow> list_all (\<lambda>c. c \<notin> {CHR 0x09, CHR 0x0A, CHR 0x0D}) s"

lemma plain_append [simp]: "plain (a @ b) \<longleftrightarrow> plain a \<and> plain b"
  by (simp add: plain_def)

lemma plain_Cons [simp]: "plain (c # b) \<longleftrightarrow> c \<notin> {CHR 0x09, CHR 0x0A, CHR 0x0D} \<and> plain b"
  by (simp add: plain_def)

lemma plain_Nil [simp]: "plain []"
  by (simp add: plain_def)

lemma plain_clean [simp]: "plain (clean_url u)"
  by (simp add: plain_def clean_url_def list_all_iff)

lemma plain_partition: "plain s \<Longrightarrow> partition_at c s = Some (a, b) \<Longrightarrow> plain a \<and> plain b"
  using partition_at_Some [of c s a b] by simp

lemma plain_cut: "plain s \<Longrightarrow> plain (fst (cut_at c s)) \<and> plain (snd (cut_at c s))"
  by (auto simp: cut_at_def split: option.split dest: plain_partition)

lemma urlsplit_plain:
  assumes "urlsplit url = Inr p"
  shows "plain (su_path p)" "plain (su_query p)" "plain (su_fragment p)"
proof -
  obtain scheme u1 where s: "split_scheme (clean_url url) = (scheme, u1)" by (cases "split_scheme (clean_url url)")
  obtain netloc u2 where n: "split_netloc u1 = (netloc, u2)" by (cases "split_netloc u1")
  obtain u3 fragment where f: "cut_at CHR ''#'' u2 = (u3, fragment)" by (cases "cut_at CHR ''#'' u2")
  obtain path query where q: "cut_at CHR ''?'' u3 = (path, query)" by (cases "cut_at CHR ''?'' u3")
  have p: "su_path p = path" "su_query p = query" "su_fragment p = fragment"
    using assms s n f q by (auto simp: urlsplit_def Let_def split: if_splits)
  have "plain u1"
  proof (cases "partition_at CHR '':'' (clean_url url)")
    case None
    then show ?thesis using s plain_clean [of url] by (simp add: split_scheme_def)
  next
    case (Some x)
    then obtain y z where x: "partition_at CHR '':'' (clean_url url) = Some (y, z)" by (cases x) auto
    have "plain z" using plain_partition [OF plain_clean x] by (rule conjunct2)
    moreover have "u1 = z \<or> u1 = clean_url url" using s x by (auto simp: split_scheme_def split: if_splits)
    ultimately show ?thesis using plain_clean [of url] by blast
  qed
  moreover have "plain (dropWhile in_netloc x)" if "plain x" for x
    using that by (auto simp: plain_def list_all_iff dest: set_dropWhileD)
  moreover have "plain (drop 2 x)" if "plain x" for x
    using that by (auto simp: plain_def list_all_iff dest: in_set_dropD)
  ultimately have "plain u2" using n by (auto simp: split_netloc_def split: if_splits)
  then have "plain u3" "plain fragment" using plain_cut [of u2 "CHR ''#''"] f by simp_all
  then show "plain (su_path p)" "plain (su_query p)" "plain (su_fragment p)"
    using plain_cut [of u3 "CHR ''?''"] q p by simp_all
qed

lemma after_at_absent: "CHR ''@'' \<notin> set s \<Longrightarrow> after_at s = s"
proof -
  assume "CHR ''@'' \<notin> set s"
  then have "\<forall>c \<in> set (rev s). c \<noteq> CHR ''@''" by auto
  then have "takeWhile (\<lambda>c. c \<noteq> CHR ''@'') (rev s) = rev s" unfolding takeWhile_eq_all_conv .
  then show ?thesis unfolding after_at_def by (simp only: rev_rev_ident)
qed

lemma partition_at_skip: "c \<notin> set a \<Longrightarrow> partition_at c (a @ s) = map_option (\<lambda>(x, y). (a @ x, y)) (partition_at c s)"
  by (cases "partition_at c s"; induction a) auto

definition ip_text :: "string \<Rightarrow> ip_addr \<Rightarrow> bool" where
  "ip_text ip a \<longleftrightarrow> parse_ip ip = Some a \<and> CHR ''%'' \<notin> set ip"

lemma ip_textD: "ip_text ip a \<Longrightarrow> parse_ip ip = Some a" "ip_text ip a \<Longrightarrow> CHR ''%'' \<notin> set ip"
  by (simp_all add: ip_text_def)

lemma ip_chars:
  assumes ip: "ip_text ip a"
  shows "c \<in> set ip \<Longrightarrow> c \<notin> {CHR ''/'', CHR ''?'', CHR ''#'', CHR ''@'', CHR ''['', CHR '']'', CHR ''%'', CHR ''v'',
    CHR 0x09, CHR 0x0A, CHR 0x0D}"
  using ip_char_cases(1) [OF parse_ip_chars [OF ip_textD(1) [OF ip] ip_textD(2) [OF ip]]] .

lemma port_chars: "c \<in> set (nat_str n) \<Longrightarrow> c \<notin> {CHR ''/'', CHR ''?'', CHR ''#'', CHR ''@'', CHR ''['', CHR '']'', CHR ''%'', CHR '':'',
    CHR 0x09, CHR 0x0A, CHR 0x0D}"
  using nat_str_digits [of c n] by (auto simp: is_digit_def less_eq_char_def)

lemma not_in_subset: "c \<notin> A \<Longrightarrow> B \<subseteq> A \<Longrightarrow> c \<notin> B"
  by blast

lemma authority_set:
  "c \<in> set (authority ip port) \<Longrightarrow>
    c \<in> set ip \<or> c \<in> {CHR ''['', CHR '']'', CHR '':''} \<or> (\<exists>n. c \<in> set (nat_str n))"
  by (auto simp: authority_def Let_def split: if_splits option.splits)

lemma authority_chars:
  assumes ip: "ip_text ip a" and c: "c \<in> set (authority ip port)"
  shows "c \<notin> {CHR ''/'', CHR ''?'', CHR ''#'', CHR ''@'', CHR 0x09, CHR 0x0A, CHR 0x0D}"
  using authority_set [OF c]
proof (elim disjE exE)
  assume "c \<in> set ip"
  then show ?thesis by (rule not_in_subset [OF ip_chars [OF ip]]) simp
next
  assume "c \<in> {CHR ''['', CHR '']'', CHR '':''}"
  then show ?thesis by auto
next
  fix n assume "c \<in> set (nat_str n)"
  then show ?thesis by (rule not_in_subset [OF port_chars]) simp
qed

lemma authority_after:
  assumes ip: "ip_text ip a"
  shows "after_at (authority ip port) = authority ip port"
  using authority_chars [OF ip] by (intro after_at_absent) blast

lemma authority_bracket:
  assumes ip: "ip_text ip a"
  shows "CHR ''['' \<in> set (authority ip port) \<longleftrightarrow> CHR '':'' \<in> set ip"
    "CHR '']'' \<in> set (authority ip port) \<longleftrightarrow> CHR '':'' \<in> set ip"
  using ip_chars [OF ip] port_chars by (auto simp: authority_def Let_def split: option.split)

lemma authority_parts:
  assumes ip: "ip_text ip a"
  shows "host_info (authority ip port) = (ip, case port of None \<Rightarrow> [] | Some p \<Rightarrow> nat_str p)"
proof (cases "CHR '':'' \<in> set ip")
  case True
  then have au: "after_at (authority ip port) = CHR ''['' # ip @ CHR '']'' # (case port of None \<Rightarrow> [] | Some p \<Rightarrow> '':'' @ nat_str p)"
    unfolding authority_after [OF ip] by (simp add: authority_def split: option.split)
  have "CHR '']'' \<notin> set ip" using ip_chars [OF ip] by blast
  then show ?thesis unfolding host_info_def au by (simp add: partition_at_append split: option.split)
next
  case False
  then have au: "after_at (authority ip port) = ip @ (case port of None \<Rightarrow> [] | Some p \<Rightarrow> '':'' @ nat_str p)"
    unfolding authority_after [OF ip] by (simp add: authority_def split: option.split)
  have none: "partition_at CHR '':'' ip = None" using False by (simp add: partition_at_None)
  have "partition_at CHR ''['' (after_at (authority ip port)) = None"
    unfolding authority_after [OF ip] using authority_bracket(1) [OF ip] False by (simp add: partition_at_None)
  then show ?thesis unfolding host_info_def using none False
    by (simp only: option.case) (simp add: au partition_at_append split: option.split)
qed

lemma authority_ok:
  assumes ip: "ip_text ip a"
  shows "CHR '':'' \<in> set ip \<Longrightarrow> bracketed_netloc_ok (authority ip port)"
proof -
  assume colon: "CHR '':'' \<in> set ip"
  then have au: "after_at (authority ip port) = CHR ''['' # ip @ CHR '']'' # (case port of None \<Rightarrow> [] | Some p \<Rightarrow> '':'' @ nat_str p)"
    unfolding authority_after [OF ip] by (simp add: authority_def split: option.split)
  have br: "CHR '']'' \<notin> set ip" using ip_chars [OF ip] by blast
  obtain v where "a = V6 v" using parse_ip_colon [OF ip_textD(1) [OF ip] colon] by blast
  moreover have "\<not> starts_with ''v'' ip"
  proof
    assume "starts_with ''v'' ip"
    then have "CHR ''v'' \<in> set ip" by (auto simp: starts_with_iff)
    then show False using ip_chars [OF ip] by blast
  qed
  ultimately have "bracketed_host_ok ip" using ip_textD(1) [OF ip] by (simp add: bracketed_host_ok_def)
  then show ?thesis using br unfolding bracketed_netloc_ok_def au
    by (simp add: partition_at_append split: option.split)
qed

lemma http_scheme:
  assumes "scheme \<in> set ALLOWED_SCHEMES"
  shows "split_scheme (scheme @ CHR '':'' # rest) = (scheme, rest)" "clean_url (scheme @ rest) = scheme @ filter (\<lambda>c. c \<notin> {CHR 0x09, CHR 0x0A, CHR 0x0D}) rest"
  using assms
  by (auto simp: ALLOWED_SCHEMES_def split_scheme_def clean_url_def lower_def lower_char_def is_alpha_def
      is_scheme_char_def less_eq_char_def)

lemma split_netloc_authority:
  assumes "\<forall>c \<in> set au. in_netloc c" "tl' = [] \<or> \<not> in_netloc (hd tl')"
  shows "split_netloc (''//'' @ au @ tl') = (au, tl')"
  using assms by (cases tl') (auto simp: split_netloc_def takeWhile_append2 dropWhile_append2 takeWhile_eq_all_conv dropWhile_eq_Nil_conv)

lemma urlsplit_urlunsplit:
  assumes ip: "ip_text ip a" and scheme: "scheme \<in> set ALLOWED_SCHEMES"
    and plain: "plain path" "plain query" "plain fragment"
  shows "\<exists>p. urlsplit (urlunsplit scheme (authority ip port) path query fragment) = Inr p
    \<and> su_scheme p = scheme \<and> su_netloc p = authority ip port"
proof -
  let ?au = "authority ip port"
  define tail where "tail = (if path \<noteq> [] \<and> hd path \<noteq> CHR ''/'' then ''/'' @ path else path)
     @ (if query = [] then [] else ''?'' @ query) @ (if fragment = [] then [] else ''#'' @ fragment)"
  have sch: "scheme \<noteq> []" using scheme by (auto simp: ALLOWED_SCHEMES_def)
  have url: "urlunsplit scheme ?au path query fragment = scheme @ CHR '':'' # ''//'' @ ?au @ tail"
    using sch by (simp add: urlunsplit_def tail_def Let_def)
  have au_chars: "\<forall>c \<in> set ?au. c \<notin> {CHR ''/'', CHR ''?'', CHR ''#'', CHR ''@'', CHR 0x09, CHR 0x0A, CHR 0x0D}"
    using authority_chars [OF ip] by blast
  have "plain (CHR '':'' # ''//'' @ ?au @ tail)"
  proof -
    have "plain ?au" using au_chars unfolding plain_def list_all_iff by blast
    moreover have "plain tail" using plain unfolding tail_def by simp
    ultimately show ?thesis by simp
  qed
  then have "filter (\<lambda>c. c \<notin> {CHR 0x09, CHR 0x0A, CHR 0x0D}) (CHR '':'' # ''//'' @ ?au @ tail) = CHR '':'' # ''//'' @ ?au @ tail"
    unfolding plain_def list_all_iff filter_id_conv .
  then have clean: "clean_url (scheme @ CHR '':'' # ''//'' @ ?au @ tail) = scheme @ CHR '':'' # ''//'' @ ?au @ tail"
    unfolding http_scheme(2) [OF scheme] by (rule arg_cong)
  have "tail = [] \<or> \<not> in_netloc (hd tail)" by (cases path) (auto simp: tail_def in_netloc_def)
  moreover have "\<forall>c \<in> set ?au. in_netloc c" using au_chars by (auto simp: in_netloc_def)
  ultimately have net: "split_netloc (''//'' @ ?au @ tail) = (?au, tail)" by (intro split_netloc_authority)
  define rest where "rest = ''//'' @ ?au @ tail"
  have br: "(CHR ''['' \<in> set ?au) = (CHR '']'' \<in> set ?au)" using authority_bracket [OF ip] by blast
  have br_ok: "\<not> (CHR ''['' \<in> set ?au \<and> \<not> bracketed_netloc_ok ?au)"
    using authority_bracket [OF ip] authority_ok [OF ip] by blast
  have "urlsplit (scheme @ CHR '':'' # rest) = Inr \<lparr>su_scheme = scheme, su_netloc = ?au,
      su_path = fst (cut_at CHR ''?'' (fst (cut_at CHR ''#'' tail))),
      su_query = snd (cut_at CHR ''?'' (fst (cut_at CHR ''#'' tail))), su_fragment = snd (cut_at CHR ''#'' tail)\<rparr>"
    using br br_ok clean net unfolding rest_def [symmetric]
    by (simp add: urlsplit_def http_scheme(1) [OF scheme] split_beta)
  then show ?thesis unfolding url rest_def by simp
qed

end
