(* ===== verification/Delivery.thy ===== *)
theory Delivery imports Webhooks Egress begin

text \<open>
  The delivery of a webhook by the worker (\<open>deliver_webhook\<close> of \<open>app/jobs/tasks.py.jinja\<close>), the signature it
  carries (\<open>app/webhooks/security.py\<close>) and the audit log it writes (\<open>app/audit/service.py.jinja\<close>), with the
  reading route of the log (\<open>app/audit/router.py.jinja\<close>). HMAC-SHA256, name resolution and the answer of the HTTP
  client are arguments.
\<close>

section \<open>The body\<close>

text \<open>\<open>json.dumps\<close> with compact separators and sorted keys; everything outside printable ASCII is escaped.\<close>

definition json_char :: "char \<Rightarrow> string" where
  "json_char c =
    (let n = (of_char c :: nat)
     in if c = CHR 0x22 \<or> c = CHR 0x5C then [CHR 0x5C, c]
        else if n = 8 then [CHR 0x5C, CHR ''b'']
        else if n = 9 then [CHR 0x5C, CHR ''t'']
        else if n = 10 then [CHR 0x5C, CHR ''n'']
        else if n = 12 then [CHR 0x5C, CHR ''f'']
        else if n = 13 then [CHR 0x5C, CHR ''r'']
        else if n < 32 \<or> 127 \<le> n
        then [CHR 0x5C, CHR ''u'', CHR ''0'', CHR ''0'', hex_digit (n div 16), hex_digit (n mod 16)]
        else [c])"

definition json_string :: "string \<Rightarrow> string" where
  "json_string s = [CHR 0x22] @ concat (map json_char s) @ [CHR 0x22]"

fun json_dumps :: "json \<Rightarrow> string" where
  "json_dumps JNull = ''null''"
| "json_dumps (JBool b) = (if b then ''true'' else ''false'')"
| "json_dumps (JInt i) = int_str i"
| "json_dumps (JStr s) = json_string s"
| "json_dumps (JList xs) = ''['' @ join_with '','' (map json_dumps xs) @ '']''"
| "json_dumps (JDict kvs) = ''{'' @ join_with '','' (map (\<lambda>(k, s). json_string k @ '':'' @ s)
     (sort_key fst (map (\<lambda>(k, v). (k, json_dumps v)) kvs))) @ ''}''"

section \<open>The signature\<close>

definition SIGNATURE_HEADER :: string where
  "SIGNATURE_HEADER = ''X-Webhook-Signature''"

definition hexdigest :: "bytes \<Rightarrow> string" where
  "hexdigest d = concat (map (\<lambda>b. [hex_digit (of_char b div 16), hex_digit (of_char b mod 16)]) d)"

definition sign_payload :: "(bytes \<Rightarrow> bytes \<Rightarrow> bytes) \<Rightarrow> string \<Rightarrow> bytes \<Rightarrow> string" where
  "sign_payload hmac secret body = hexdigest (hmac (utf8 secret) body)"

definition removeprefix :: "string \<Rightarrow> string \<Rightarrow> string" where
  "removeprefix p s = (if starts_with p s then drop (length p) s else s)"

text \<open>\<open>hmac.compare_digest\<close> on text takes ASCII only.\<close>

definition compare_digest :: "string \<Rightarrow> string \<Rightarrow> exn + bool" where
  "compare_digest a b =
    (if list_all (\<lambda>c. (of_char c :: nat) < 128) a \<and> list_all (\<lambda>c. (of_char c :: nat) < 128) b then Inr (a = b)
     else Inl TypeError)"

definition verify_signature :: "(bytes \<Rightarrow> bytes \<Rightarrow> bytes) \<Rightarrow> string \<Rightarrow> bytes \<Rightarrow> string \<Rightarrow> exn + bool" where
  "verify_signature hmac secret body signature =
    compare_digest (sign_payload hmac secret body) (removeprefix ''sha256='' signature)"

section \<open>The audit log\<close>

record audit_log =
  al_id :: uuid
  al_org :: "uuid option"
  al_actor :: "string option"
  al_action :: string
  al_target :: "string option"
  al_meta :: "(string \<times> json) list option"
  al_created :: datetime

definition audit_record ::
  "uuid \<Rightarrow> datetime \<Rightarrow> string \<Rightarrow> string option \<Rightarrow> string option \<Rightarrow> uuid option \<Rightarrow> (string \<times> json) list
    \<Rightarrow> audit_log list \<Rightarrow> exn + audit_log \<times> audit_log list" where
  "audit_record new_id now action actor target org meta logs =
    (let entry = \<lparr>al_id = new_id, al_org = org, al_actor = actor, al_action = action, al_target = target,
         al_meta = (if meta = [] then None else Some meta), al_created = now\<rparr>
     in case insert_unique al_id entry logs of None \<Rightarrow> Inl IntegrityError | Some logs' \<Rightarrow> Inr (entry, logs'))"

record audit_log_page =
  ap_items :: "audit_log list"
  ap_total :: int
  ap_limit :: int
  ap_offset :: int

text \<open>The route: the caller's role comes first, then the bounds of the query parameters. The newest entries lead; among
  entries of one instant the order is that of their insertion.\<close>

definition newest_first :: "audit_log list \<Rightarrow> audit_log list" where
  "newest_first logs = sort_key (\<lambda>a. - al_created a) logs"

definition list_audit_logs ::
  "uuid \<Rightarrow> int \<Rightarrow> int \<Rightarrow> uuid \<Rightarrow> tenancy_db \<Rightarrow> audit_log list \<Rightarrow> exn + audit_log_page" where
  "list_audit_logs org limit offset caller tdb logs =
    and_then (require_role ADMIN org caller tdb) (\<lambda>_.
      if limit < 1 \<or> 200 < limit \<or> offset < 0 \<or> 1000000 < offset then Inl (HTTPException 422 ''Unprocessable'' [])
      else (let scoped = filter (\<lambda>a. al_org a = Some org) logs
        in Inr \<lparr>ap_items = take (nat limit) (drop (nat offset) (newest_first scoped)),
                ap_total = int (length scoped), ap_limit = limit, ap_offset = offset\<rparr>))"

section \<open>One delivery\<close>

record http_request =
  rq_url :: string
  rq_body :: bytes
  rq_headers :: "(string \<times> string) list"
  rq_sni :: string

text \<open>What the client answers: a response with its status, one of its transport errors, or another exception.\<close>

datatype http_outcome = Response int | TransportError | ClientRaised exn

datatype task_outcome = TaskDone | TaskRetry int | TaskRaised exn

record delivery_state =
  ds_endpoints :: "webhook_endpoint list"
  ds_logs :: "audit_log list"
  ds_posted :: "http_request list"

definition delivery_request ::
  "(bytes \<Rightarrow> bytes \<Rightarrow> bytes) \<Rightarrow> string \<Rightarrow> pinned_target \<Rightarrow> string \<Rightarrow> json \<Rightarrow> http_request" where
  "delivery_request hmac secret target event_type payload =
    (let body = utf8 (json_dumps payload)
     in \<lparr>rq_url = pt_url target, rq_body = body,
         rq_headers = [(''Content-Type'', ''application/json''), (''Host'', pt_host_header target),
           (SIGNATURE_HEADER, ''sha256='' @ sign_payload hmac secret body), (''X-Webhook-Event'', event_type)],
         rq_sni = pt_sni_hostname target\<rparr>)"

text \<open>The entry of a delivery is written in a session of its own, after which the task goes on.\<close>

definition audited ::
  "uuid \<Rightarrow> datetime \<Rightarrow> string \<Rightarrow> webhook_endpoint \<Rightarrow> (string \<times> json) list \<Rightarrow> task_outcome \<Rightarrow> delivery_state
    \<Rightarrow> task_outcome \<times> delivery_state" where
  "audited new_id now action w meta out st =
    (case audit_record new_id now action (Some ''system'') (Some (we_id w)) (Some (we_org w)) meta (ds_logs st) of
       Inl e \<Rightarrow> (TaskRaised e, st)
     | Inr (_, logs) \<Rightarrow> (out, st\<lparr>ds_logs := logs\<rparr>))"

definition deliver_webhook ::
  "(bytes \<Rightarrow> bytes \<Rightarrow> bytes) \<Rightarrow> resolver \<Rightarrow> (http_request \<Rightarrow> http_outcome) \<Rightarrow> uuid \<Rightarrow> datetime \<Rightarrow> int option
    \<Rightarrow> delivery_job \<Rightarrow> delivery_state \<Rightarrow> task_outcome \<times> delivery_state" where
  "deliver_webhook hmac resolve post new_id now job_try j st =
    (case lookup_by we_id (dj_endpoint j) (ds_endpoints st) of
       None \<Rightarrow> (TaskDone, st)
     | Some w \<Rightarrow>
         if \<not> we_active w then (TaskDone, st)
         else (case resolve_pinned_target resolve (we_url w) of
             Inl (WebhookEgressError msg) \<Rightarrow>
               audited new_id now ''webhook.delivery_blocked'' w
                 [(''event_type'', JStr (dj_type j)), (''reason'', JStr msg)] TaskDone st
           | Inl e \<Rightarrow> (TaskRaised e, st)
           | Inr target \<Rightarrow>
               (let rq = delivery_request hmac (we_secret w) target (dj_type j) (dj_payload j);
                    attempt = (case job_try of Some n \<Rightarrow> n | None \<Rightarrow> 1);
                    st1 = st\<lparr>ds_posted := ds_posted st @ [rq]\<rparr>;
                    failed = audited new_id now ''webhook.delivery_failed'' w
                      [(''event_type'', JStr (dj_type j)), (''attempt'', JInt attempt)] (TaskRetry (attempt * 5)) st1
                in case post rq of
                     ClientRaised e \<Rightarrow> (TaskRaised e, st1)
                   | TransportError \<Rightarrow> failed
                   | Response status \<Rightarrow>
                       if 200 \<le> status \<and> status < 300
                       then audited new_id now ''webhook.delivered'' w
                         [(''event_type'', JStr (dj_type j)), (''status'', JInt status)] TaskDone st1
                       else failed)))"

end
