(* ===== verification/WebhooksProps.thy ===== *)
theory WebhooksProps imports Webhooks begin

text \<open>
  Properties of the outbox: what a round of the relay publishes and enqueues, that a backlog drains, what
  an outage of the queue does, that concurrent workers never publish an event twice, and the emission
  of an event with the change it reports.
\<close>

section \<open>Rounds\<close>

lemma claim_events_sub: "set (claim_events limit locked rows) \<subseteq> {e \<in> set rows. pending e \<and> ob_id e \<notin> locked}"
  unfolding claim_events_def using set_take_subset by fastforce

lemma claim_events_distinct:
  assumes "unique_on ob_id rows" shows "distinct (map ob_id (claim_events limit locked rows))"
proof -
  let ?xs = "filter (\<lambda>e. pending e \<and> ob_id e \<notin> locked) rows"
  have "distinct (map ob_id ?xs)" using assms by (simp add: unique_on_def distinct_map_filter)
  then have "distinct (map ob_id (sort_key ob_created ?xs))"
    by (simp add: distinct_map)
  then show ?thesis by (simp add: claim_events_def take_map [symmetric] del: take_map)
qed

lemma claim_events_length:
  "length (claim_events limit {} rows) = min limit (length (filter pending rows))"
  by (simp add: claim_events_def min.commute)

lemma publish_events_ids:
  "publish_events enq endpoints now m es q = (Inr es', q') \<Longrightarrow> map ob_id es' = map ob_id es"
proof (induction es arbitrary: es' q)
  case Nil
  then show ?case by simp
next
  case (Cons e es)
  then show ?case by (auto split: prod.splits sum.splits fan_out_result.splits)
qed

lemma write_back_id [simp]: "map ob_id (write_back es rows) = map ob_id rows"
  by (auto simp: write_back_def split: option.split dest: lookup_by_SomeD)

lemma write_back_unique: "unique_on ob_id rows \<Longrightarrow> unique_on ob_id (write_back es rows)"
  unfolding unique_on_def write_back_id .

lemma write_back_member:
  assumes "e \<in> set (write_back es rows)"
  shows "e \<in> set es \<or> (e \<in> set rows \<and> ob_id e \<notin> ob_id ` set es)"
proof -
  obtain r where r: "r \<in> set rows" "e = (case lookup_by ob_id (ob_id r) es of None \<Rightarrow> r | Some f \<Rightarrow> f)"
    using assms by (auto simp: write_back_def)
  show ?thesis
  proof (cases "lookup_by ob_id (ob_id r) es")
    case None
    then have "ob_id r \<notin> ob_id ` set es" by (simp add: lookup_by_None)
    then show ?thesis using r None by simp
  next
    case (Some f)
    then show ?thesis using r(2) lookup_by_SomeD [OF Some] by simp
  qed
qed

lemma write_back_keeps: "e \<in> set rows \<Longrightarrow> ob_id e \<notin> ob_id ` set es \<Longrightarrow> e \<in> set (write_back es rows)"
  using lookup_by_None [of ob_id "ob_id e" es] unfolding write_back_def by (force simp: image_iff)

lemma write_back_takes:
  assumes "unique_on ob_id es" "e \<in> set es" "ob_id e \<in> ob_id ` set rows"
  shows "e \<in> set (write_back es rows)"
proof -
  obtain r where r: "r \<in> set rows" "ob_id r = ob_id e" using assms(3) by auto
  have "lookup_by ob_id (ob_id e) es = Some e" by (rule lookup_by_unique [OF assms(1,2)])
  then show ?thesis using r unfolding write_back_def by (force simp: image_iff)
qed

text \<open>No event is lost or misdirected by a round of the relay: an event it marks as published has a job
  queued for every active endpoint of its organization that subscribes to it, and every job it queues is
  for such an endpoint of an event that was pending.\<close>
theorem published_events_are_enqueued:
  assumes uniq: "unique_on ob_id rows" and run: "relay_outbox now endpoints rows q = (res, rows', q')"
  shows "\<exists>new. queued q' = queued q @ new
    \<and> (\<forall>e \<in> set rows'. ob_published e \<noteq> None \<longrightarrow> e \<in> set rows \<or> set (jobs_for endpoints e) \<subseteq> set new)
    \<and> (\<forall>j \<in> set new. \<exists>e \<in> set rows. pending e \<and> ob_source e = WEBHOOK_SOURCE
          \<and> (\<exists>w \<in> set endpoints. subscribed e w \<and> j = job_of e w))"
proof -
  let ?c = "claim_events 100 {} rows"
  obtain r q1 where pub: "publish_events enqueue endpoints now DEFAULT_MAX_ATTEMPTS ?c q = (r, q1)"
    by (cases "publish_events enqueue endpoints now DEFAULT_MAX_ATTEMPTS ?c q")
  from seam.publish_events_jobs [OF pub] obtain new where new: "queued q1 = queued q @ new"
    "set new \<subseteq> (\<Union>e \<in> set ?c. set (jobs_for endpoints e))"
    "\<And>es' e'. r = Inr es' \<Longrightarrow> e' \<in> set es' \<Longrightarrow> \<exists>e \<in> set ?c. \<exists>x. e' = settle now DEFAULT_MAX_ATTEMPTS x e
        \<and> (\<forall>y. x \<noteq> Crashed y) \<and> (x = Published \<longrightarrow> set (jobs_for endpoints e) \<subseteq> set new)" by blast
  have q': "q' = q1" and rows': "rows' = (case r of Inl _ \<Rightarrow> rows | Inr es' \<Rightarrow> write_back es' rows)"
    using run pub by (auto simp: relay_outbox_def drain_outbox_def split: sum.splits)
  have "e \<in> set rows \<or> set (jobs_for endpoints e) \<subseteq> set new" if e: "e \<in> set rows'" "ob_published e \<noteq> None" for e
  proof (cases r)
    case (Inl x)
    then show ?thesis using e(1) rows' by simp
  next
    case (Inr es')
    then consider "e \<in> set es'" | "e \<in> set rows" using e(1) rows' write_back_member by fastforce
    then show ?thesis
    proof cases
      case 1
      obtain f x where f: "f \<in> set ?c" "e = settle now DEFAULT_MAX_ATTEMPTS x f" "\<forall>y. x \<noteq> Crashed y"
        "x = Published \<longrightarrow> set (jobs_for endpoints f) \<subseteq> set new" using new(3) [OF Inr 1] by blast
      have "ob_published f = None" using claim_events_sub f(1) by (fastforce simp: pending_def)
      then have "x = Published" using f(2,3) e(2) by (cases x) (auto simp: settle_def Let_def split: if_splits)
      then show ?thesis using f(2,4) by simp
    qed simp
  qed
  moreover have "\<exists>e \<in> set rows. pending e \<and> ob_source e = WEBHOOK_SOURCE
          \<and> (\<exists>w \<in> set endpoints. subscribed e w \<and> j = job_of e w)" if "j \<in> set new" for j
  proof -
    obtain e where e: "e \<in> set ?c" "j \<in> set (jobs_for endpoints e)" using new(2) \<open>j \<in> set new\<close> by blast
    have "e \<in> set rows" "pending e" using claim_events_sub e(1) by fastforce+
    then show ?thesis using e(2) by (auto simp: jobs_for_def split: if_splits)
  qed
  ultimately show ?thesis using new(1) q' by blast
qed

section \<open>A queue that accepts\<close>

lemma loop_healthy:
  "upcoming q = [] \<Longrightarrow> fan_out_loop enqueue e ws q = (Published,
    q\<lparr>queued := queued q @ map (job_of e) (filter (\<lambda>w. ob_type e \<in> set (split_ws (we_event_types w))) ws)\<rparr>)"
  by (induction ws arbitrary: q) (simp_all add: enqueue_def)

lemma fan_out_healthy:
  "upcoming q = [] \<Longrightarrow> fan_out enqueue endpoints e q = (Published, q\<lparr>queued := queued q @ jobs_for endpoints e\<rparr>)"
  by (simp add: fan_out_def jobs_for_def loop_healthy subscribed_def [abs_def] conj_assoc)

lemma publish_healthy:
  "upcoming q = [] \<Longrightarrow> publish_events enqueue endpoints now m es q =
    (Inr (map (ob_published_update (\<lambda>_. Some now)) es), q\<lparr>queued := queued q @ concat (map (jobs_for endpoints) es)\<rparr>)"
  by (induction es arbitrary: q) (simp_all add: fan_out_healthy settle_def)

lemma relay_healthy:
  assumes "upcoming q = []"
  shows "relay_outbox now endpoints rows q =
    (Inr (int (min 100 (length (filter pending rows)))),
     write_back (map (ob_published_update (\<lambda>_. Some now)) (claim_events 100 {} rows)) rows,
     q\<lparr>queued := queued q @ concat (map (jobs_for endpoints) (claim_events 100 {} rows))\<rparr>)"
  by (simp add: relay_outbox_def drain_outbox_def publish_healthy [OF assms] filter_map comp_def
      claim_events_length)


fun drain_rounds ::
  "'q enqueue_fn \<Rightarrow> webhook_endpoint list \<Rightarrow> datetime list \<Rightarrow> outbox_event list \<Rightarrow> 'q \<Rightarrow> outbox_event list \<times> 'q" where
  "drain_rounds enq endpoints [] rows q = (rows, q)"
| "drain_rounds enq endpoints (t # ts) rows q =
    (case drain_outbox enq 100 DEFAULT_MAX_ATTEMPTS t endpoints rows q of
       (_, rows', q') \<Rightarrow> drain_rounds enq endpoints ts rows' q')"

lemma write_back_map:
  assumes uniq: "unique_on ob_id rows" and sub: "set c \<subseteq> set rows" and dist: "distinct (map ob_id c)"
    and key: "\<And>e. ob_id (f e) = ob_id e"
  shows "write_back (map f c) rows = map (\<lambda>r. if r \<in> set c then f r else r) rows"
proof -
  have "(case lookup_by ob_id (ob_id r) (map f c) of None \<Rightarrow> r | Some e \<Rightarrow> e) = (if r \<in> set c then f r else r)"
    if "r \<in> set rows" for r
  proof (cases "r \<in> set c")
    case True
    have "unique_on ob_id (map f c)" using dist key by (simp add: unique_on_def comp_def)
    from lookup_by_unique [OF this, of "f r"] True show ?thesis by (simp add: key)
  next
    case False
    have "ob_id r \<notin> ob_id ` set (map f c)"
    proof
      assume "ob_id r \<in> ob_id ` set (map f c)"
      then obtain e where "e \<in> set c" "ob_id r = ob_id e" using key by auto
      then show False using unique_onD [OF uniq that, of e] sub False by auto
    qed
    then have "lookup_by ob_id (ob_id r) (map f c) = None" unfolding lookup_by_None .
    then show ?thesis using False by simp
  qed
  then show ?thesis by (simp add: write_back_def)
qed

lemma claimed_facts:
  assumes "unique_on ob_id rows"
  shows "set (claim_events 100 {} rows) \<subseteq> set rows" "distinct (map ob_id (claim_events 100 {} rows))"
    "distinct (claim_events 100 {} rows)" "\<And>e. e \<in> set (claim_events 100 {} rows) \<Longrightarrow> pending e"
  using claim_events_sub [of 100 "{}" rows] claim_events_distinct [OF assms, of 100 "{}"]
  by (blast, blast, simp add: distinct_map, blast)

lemma pending_left:
  assumes uniq: "unique_on ob_id rows" and f: "\<And>e. ob_id (f e) = ob_id e" "\<And>e. \<not> pending (f e)"
  shows "length (filter pending (write_back (map f (claim_events 100 {} rows)) rows))
    = length (filter pending rows) - 100"
proof -
  let ?c = "claim_events 100 {} rows"
  note c = claimed_facts [OF uniq]
  have dist: "distinct rows" using uniq by (simp add: unique_on_def distinct_map)
  have split: "length (filter pending rows) = length (filter (\<lambda>e. e \<in> set ?c) (filter pending rows))
      + length (filter (\<lambda>e. e \<notin> set ?c) (filter pending rows))"
    using sum_length_filter_compl [of "\<lambda>e. e \<in> set ?c" "filter pending rows"] by simp
  have "set (filter (\<lambda>e. e \<in> set ?c) (filter pending rows)) = set ?c" using c(1,4) by auto
  then have "length (filter (\<lambda>e. e \<in> set ?c) (filter pending rows)) = length ?c"
    using dist c(3) by (metis distinct_card distinct_filter)
  moreover have "filter pending (map (\<lambda>r. if r \<in> C then f r else r) xs) = filter (\<lambda>e. e \<notin> C) (filter pending xs)"
    for C xs using f(2) by (induction xs) auto
  then have "filter pending (write_back (map f ?c) rows) = filter (\<lambda>e. e \<notin> set ?c) (filter pending rows)"
    unfolding write_back_map [OF uniq c(1,2) f(1)] .
  ultimately show ?thesis using split by (simp add: claim_events_length)
qed

lemma round_healthy:
  assumes uniq: "unique_on ob_id rows" and up: "upcoming q = []"
    and run: "drain_outbox enqueue 100 DEFAULT_MAX_ATTEMPTS t endpoints rows q = (res, rows', q')"
  shows "unique_on ob_id rows'" "upcoming q' = []" "set (queued q) \<subseteq> set (queued q')"
    "length (filter pending rows') = length (filter pending rows) - 100"
    "\<And>e. e \<in> set rows \<Longrightarrow> e \<in> set rows' \<or> (pending e \<and> e\<lparr>ob_published := Some t\<rparr> \<in> set rows'
        \<and> set (jobs_for endpoints e) \<subseteq> set (queued q'))"
    "\<And>e. e \<in> set rows \<Longrightarrow> \<not> pending e \<Longrightarrow> e \<in> set rows'"
proof -
  let ?c = "claim_events 100 {} rows" and ?f = "ob_published_update (\<lambda>_. Some t)"
  note c = claimed_facts [OF uniq]
  have run': "rows' = write_back (map ?f ?c) rows" "q' = q\<lparr>queued := queued q @ concat (map (jobs_for endpoints) ?c)\<rparr>"
    using run relay_healthy [OF up, of t endpoints rows] by (simp_all add: relay_outbox_def)
  have rows': "rows' = map (\<lambda>r. if r \<in> set ?c then ?f r else r) rows"
    unfolding run'(1) by (rule write_back_map [OF uniq c(1,2)]) simp
  show "unique_on ob_id rows'" unfolding run'(1) by (rule write_back_unique [OF uniq])
  show "upcoming q' = []" "set (queued q) \<subseteq> set (queued q')" using up run'(2) by simp_all
  show "length (filter pending rows') = length (filter pending rows) - 100"
    unfolding run'(1) by (rule pending_left [OF uniq]) (simp_all add: pending_def)
  fix e assume e: "e \<in> set rows"
  then have moved: "(if e \<in> set ?c then ?f e else e) \<in> set rows'" unfolding rows' by simp
  show "e \<in> set rows' \<or> (pending e \<and> e\<lparr>ob_published := Some t\<rparr> \<in> set rows'
        \<and> set (jobs_for endpoints e) \<subseteq> set (queued q'))"
    using moved c(4) [of e] run'(2) by (cases "e \<in> set ?c") auto
  show "e \<in> set rows'" if "\<not> pending e" using moved c(4) [of e] that by (auto split: if_splits)
qed

lemma rounds_drain:
  assumes "unique_on ob_id rows" "upcoming q = []" "length (filter pending rows) \<le> 100 * length ts"
    and "drain_rounds enqueue endpoints ts rows q = (rows', q')"
  shows "filter pending rows' = [] \<and> (\<forall>e \<in> set rows. pending e \<longrightarrow>
    (\<exists>t \<in> set ts. e\<lparr>ob_published := Some t\<rparr> \<in> set rows') \<and> set (jobs_for endpoints e) \<subseteq> set (queued q'))"
proof -
  have "filter pending rows' = [] \<and> set (queued q) \<subseteq> set (queued q') \<and>
    (\<forall>e \<in> set rows. \<not> pending e \<longrightarrow> e \<in> set rows') \<and> (\<forall>e \<in> set rows. pending e \<longrightarrow>
    (\<exists>t \<in> set ts. e\<lparr>ob_published := Some t\<rparr> \<in> set rows') \<and> set (jobs_for endpoints e) \<subseteq> set (queued q'))"
    using assms
  proof (induction ts arbitrary: rows q)
    case Nil
    then have "filter pending rows = []" by simp
    then show ?case using Nil by (auto simp: filter_empty_conv)
  next
    case (Cons t ts)
    obtain res rows1 q1 where r: "drain_outbox enqueue 100 DEFAULT_MAX_ATTEMPTS t endpoints rows q = (res, rows1, q1)"
      by (cases "drain_outbox enqueue 100 DEFAULT_MAX_ATTEMPTS t endpoints rows q")
    note h = round_healthy [OF Cons.prems(1,2) r]
    have less: "length (filter pending rows1) \<le> 100 * length ts" using h(4) Cons.prems(3) by simp
    have rest: "drain_rounds enqueue endpoints ts rows1 q1 = (rows', q')" using Cons.prems(4) r by simp
    note IH = Cons.IH [OF h(1,2) less rest]
    have "(\<exists>u \<in> set (t # ts). e\<lparr>ob_published := Some u\<rparr> \<in> set rows') \<and> set (jobs_for endpoints e) \<subseteq> set (queued q')"
      if e: "e \<in> set rows" "pending e" for e
    proof (cases "e \<in> set rows1")
      case True
      then show ?thesis using IH e(2) by auto
    next
      case False
      then have m: "e\<lparr>ob_published := Some t\<rparr> \<in> set rows1" "set (jobs_for endpoints e) \<subseteq> set (queued q1)"
        using h(5) [OF e(1)] by blast+
      moreover have "\<not> pending (e\<lparr>ob_published := Some t\<rparr>)" by (simp add: pending_def)
      ultimately show ?thesis using IH by auto
    qed
    moreover have "e \<in> set rows'" if "e \<in> set rows" "\<not> pending e" for e using IH h(6) [OF that] that(2) by blast
    ultimately show ?case using IH h(3) by blast
  qed
  then show ?thesis by blast
qed

text \<open>C30. Every backlog drains: with a queue that accepts, after one round per hundred pending events no
  event is pending, and each that was is marked published with its jobs queued.\<close>
theorem backlog_drains:
  assumes "unique_on ob_id rows" "upcoming q = []" "length (filter pending rows) \<le> 100 * length ts"
    and "drain_rounds enqueue endpoints ts rows q = (rows', q')"
  shows "filter pending rows' = [] \<and> (\<forall>e \<in> set rows. pending e \<longrightarrow>
    (\<exists>t \<in> set ts. e\<lparr>ob_published := Some t\<rparr> \<in> set rows') \<and> set (jobs_for endpoints e) \<subseteq> set (queued q'))"
  using assms by (rule rounds_drain)


section \<open>A queue that refuses\<close>

definition refusing :: "'q enqueue_fn \<Rightarrow> bool" where
  "refusing enq \<longleftrightarrow> (\<forall>j q. fst (enq j q) = Inr False)"

lemma refusingD: "refusing enq \<Longrightarrow> \<exists>q'. enq j q = (Inr False, q')"
  unfolding refusing_def by (metis prod.collapse)

text \<open>How an event fares in a round while every submission is refused.\<close>

definition refused :: "webhook_endpoint list \<Rightarrow> outbox_event \<Rightarrow> fan_out_result" where
  "refused endpoints e = (case jobs_for endpoints e of
     [] \<Rightarrow> Published | j # _ \<Rightarrow> Deferred (''queue unavailable (endpoint '' @ dj_endpoint j @ '')''))"

lemma loop_refused:
  assumes down: "refusing enq"
  shows "fst (fan_out_loop enq e ws q) =
    (case filter (\<lambda>w. ob_type e \<in> set (split_ws (we_event_types w))) ws of
       [] \<Rightarrow> Published | w # _ \<Rightarrow> Deferred (''queue unavailable (endpoint '' @ we_id w @ '')''))"
proof (induction ws)
  case Nil
  then show ?case by simp
next
  case (Cons w ws)
  obtain q' where "enq (job_of e w) q = (Inr False, q')" using refusingD [OF down] by blast
  then show ?case using Cons by simp
qed

lemma fan_out_refused:
  assumes down: "refusing enq"
  shows "fst (fan_out enq endpoints e q) = refused endpoints e"
proof -
  have "(case map (job_of e) ws of [] \<Rightarrow> Published | j # _ \<Rightarrow> Deferred (''queue unavailable (endpoint '' @ dj_endpoint j @ '')''))
      = (case ws of [] \<Rightarrow> Published | w # _ \<Rightarrow> Deferred (''queue unavailable (endpoint '' @ we_id w @ '')''))" for ws
    by (simp add: job_of_def split: list.split)
  then show ?thesis
    by (simp add: fan_out_def refused_def jobs_for_def loop_refused [OF down] subscribed_def [abs_def] conj_assoc)
qed

lemma refused_not_crashed: "refused endpoints e \<noteq> Crashed x"
  by (simp add: refused_def split: list.split)

lemma publish_refused:
  assumes down: "refusing enq"
  shows "fst (publish_events enq endpoints now m es q) = Inr (map (\<lambda>e. settle now m (refused endpoints e) e) es)"
proof (induction es arbitrary: q)
  case Nil
  then show ?case by simp
next
  case (Cons e es)
  obtain q' where fan: "fan_out enq endpoints e q = (refused endpoints e, q')"
    using fan_out_refused [OF down, of endpoints e q] by (cases "fan_out enq endpoints e q") simp
  obtain q'' where "publish_events enq endpoints now m es q' = (Inr (map (\<lambda>e. settle now m (refused endpoints e) e) es), q'')"
    using Cons.IH [of q'] by (cases "publish_events enq endpoints now m es q'") simp
  then show ?case using fan refused_not_crashed [of endpoints e]
    by (cases "refused endpoints e") auto
qed

lemma drain_refused:
  assumes "refusing enq"
  shows "\<exists>n q'. drain_outbox enq 100 DEFAULT_MAX_ATTEMPTS now endpoints rows q
    = (n, write_back (map (\<lambda>e. settle now DEFAULT_MAX_ATTEMPTS (refused endpoints e) e) (claim_events 100 {} rows)) rows, q')"
proof -
  obtain q' where "publish_events enq endpoints now DEFAULT_MAX_ATTEMPTS (claim_events 100 {} rows) q
      = (Inr (map (\<lambda>e. settle now DEFAULT_MAX_ATTEMPTS (refused endpoints e) e) (claim_events 100 {} rows)), q')"
    using publish_refused [OF assms, of endpoints now DEFAULT_MAX_ATTEMPTS "claim_events 100 {} rows" q]
    by (cases "publish_events enq endpoints now DEFAULT_MAX_ATTEMPTS (claim_events 100 {} rows) q") simp
  then show ?thesis by (simp add: drain_outbox_def)
qed

text \<open>One round moves a small backlog one attempt on.\<close>

lemma refused_round:
  assumes down: "refusing enq"
    and uniq: "unique_on ob_id rows" and small: "length (filter pending rows) \<le> 100"
    and e: "e \<in> set rows" "pending e" "jobs_for endpoints e \<noteq> []" "ob_attempts e = a" "a < 5"
  obtains n rows' q' e' where
    "drain_outbox enq 100 DEFAULT_MAX_ATTEMPTS now endpoints rows q = (n, rows', q')"
    "unique_on ob_id rows'" "length (filter pending rows') \<le> 100"
    "e' \<in> set rows'" "ob_id e' = ob_id e" "jobs_for endpoints e' \<noteq> []" "ob_attempts e' = a + 1"
    "ob_published e' = None" "(ob_failed e' = None) = (a + 1 < 5)"
proof -
  let ?f = "\<lambda>e. settle now DEFAULT_MAX_ATTEMPTS (refused endpoints e) e" and ?c = "claim_events 100 {} rows"
  note c = claimed_facts [OF uniq]
  obtain n q' where run: "drain_outbox enq 100 DEFAULT_MAX_ATTEMPTS now endpoints rows q = (n, write_back (map ?f ?c) rows, q')"
    using drain_refused [OF down, of now endpoints rows q] by (elim exE) (rule that)
  have rows': "write_back (map ?f ?c) rows = map (\<lambda>r. if r \<in> set ?c then ?f r else r) rows"
    by (rule write_back_map [OF uniq c(1,2)]) simp
  have "claim_events 100 {} rows = sort_key ob_created (filter pending rows)"
    using small by (simp add: claim_events_def)
  then have claimed: "r \<in> set ?c \<longleftrightarrow> r \<in> set rows \<and> pending r" for r by auto
  obtain j js where j: "jobs_for endpoints e = j # js" using e(3) by (cases "jobs_for endpoints e") auto
  show thesis
  proof (rule that [OF run write_back_unique [OF uniq]])
    have "pending (?f r) \<Longrightarrow> pending r" if "pending r" for r using that .
    have "length (filter pending (map (\<lambda>r. if r \<in> set ?c then ?f r else r) xs)) \<le> length (filter pending xs)"
      if "set xs \<subseteq> set rows" for xs
      using that by (induction xs) (auto simp: claimed)
    then show "length (filter pending (write_back (map ?f ?c) rows)) \<le> 100"
      using small unfolding rows' by (meson order_trans order_refl)
    show "?f e \<in> set (write_back (map ?f ?c) rows)" unfolding rows' using e(1,2) claimed by force
    show "ob_attempts (?f e) = a + 1" "ob_published (?f e) = None" "(ob_failed (?f e) = None) = (a + 1 < 5)"
      using e(2,4) j by (auto simp: refused_def settle_def Let_def pending_def DEFAULT_MAX_ATTEMPTS_def)
  qed (use e(3) in simp_all)
qed

lemma refused_rounds:
  assumes down: "refusing enq"
    and "unique_on ob_id rows" "length (filter pending rows) \<le> 100"
    and "e \<in> set rows" "pending e" "jobs_for endpoints e \<noteq> []" "ob_attempts e + int (length ts) = 5" "ts \<noteq> []"
  shows "unique_on ob_id (fst (drain_rounds enq endpoints ts rows q)) \<and>
    (\<exists>e' \<in> set (fst (drain_rounds enq endpoints ts rows q)). ob_id e' = ob_id e \<and> ob_published e' = None \<and> ob_failed e' \<noteq> None)"
  using assms(2-)
proof (induction ts arbitrary: rows q e)
  case Nil
  then show ?case by simp
next
  case (Cons t ts)
  have less: "ob_attempts e < 5" using Cons.prems(6) by simp
  obtain n rows' q' e' where r: "drain_outbox enq 100 DEFAULT_MAX_ATTEMPTS t endpoints rows q = (n, rows', q')"
    and ok: "unique_on ob_id rows'" "length (filter pending rows') \<le> 100"
    and e': "e' \<in> set rows'" "ob_id e' = ob_id e" "jobs_for endpoints e' \<noteq> []" "ob_attempts e' = ob_attempts e + 1"
      "ob_published e' = None" "(ob_failed e' = None) = (ob_attempts e + 1 < 5)"
    by (rule refused_round [where now = t and q = q, OF down Cons.prems(1-5) refl less])
  show ?case
  proof (cases "ts = []")
    case True
    then show ?thesis using r ok(1) e' Cons.prems(6) by auto
  next
    case False
    have "pending e'" using e'(5,6) Cons.prems(6) False by (cases ts) (auto simp: pending_def)
    moreover have "ob_attempts e' + int (length ts) = 5" using e'(4) Cons.prems(6) by simp
    ultimately show ?thesis using Cons.IH [OF ok e'(1) _ e'(3) _ False] r e'(2) by simp
  qed
qed

text \<open>A round of any worker, whatever the queue and the endpoints are by then.\<close>

inductive relay_round :: "outbox_event list \<Rightarrow> outbox_event list \<Rightarrow> bool" where
  "relay_outbox now endpoints rows q = (res, rows', q') \<Longrightarrow> relay_round rows rows'"

lemma relay_round_keeps:
  "relay_round rows rows' \<Longrightarrow> unique_on ob_id rows \<Longrightarrow>
    unique_on ob_id rows' \<and> (\<forall>e \<in> set rows. \<not> pending e \<longrightarrow> e \<in> set rows')"
proof (induction rule: relay_round.induct)
  case (1 now endpoints rows q res rows' q')
  note c = claimed_facts [OF 1(2)]
  have "rows' = rows \<or> (\<exists>es q1. publish_events enqueue endpoints now DEFAULT_MAX_ATTEMPTS (claim_events 100 {} rows) q
      = (Inr es, q1) \<and> rows' = write_back es rows)"
    using 1(1) by (auto simp: relay_outbox_def drain_outbox_def split: prod.splits sum.splits)
  then show ?case
  proof (elim disjE exE conjE)
    fix es q1 assume pub: "publish_events enqueue endpoints now DEFAULT_MAX_ATTEMPTS (claim_events 100 {} rows) q = (Inr es, q1)"
      and rows': "rows' = write_back es rows"
    have ids: "ob_id ` set es = ob_id ` set (claim_events 100 {} rows)"
      using publish_events_ids [OF pub] by (metis set_map)
    have "e \<in> set rows'" if e: "e \<in> set rows" "\<not> pending e" for e
    proof -
      have "ob_id e \<notin> ob_id ` set es"
      proof
        assume "ob_id e \<in> ob_id ` set es"
        then obtain f where "f \<in> set (claim_events 100 {} rows)" "ob_id e = ob_id f" unfolding ids by auto
        then show False using unique_onD [OF 1(2) e(1), of f] c(1) c(4) [of f] e(2) by auto
      qed
      then show ?thesis unfolding rows' by (rule write_back_keeps [OF e(1)])
    qed
    then show ?thesis using write_back_unique [OF 1(2)] rows' by blast
  qed (use 1(2) in simp)
qed

text \<open>An outage of the queue loses events: when every submission is refused during five rounds of the
  relay, each pending event that has a subscriber is dead-lettered, if at most a hundred are pending,
  and no later round, after the queue is back, ever publishes it.\<close>
theorem outage_dead_letters:
  assumes down: "refusing enq"
    and uniq: "unique_on ob_id rows" and small: "length (filter pending rows) \<le> 100"
    and e: "e \<in> set rows" "pending e" "jobs_for endpoints e \<noteq> []" "ob_attempts e = 0"
    and five: "length ts = 5" and later: "relay_round\<^sup>*\<^sup>* (fst (drain_rounds enq endpoints ts rows q)) rows'"
  shows "\<exists>e' \<in> set rows'. ob_id e' = ob_id e \<and> ob_published e' = None \<and> ob_failed e' \<noteq> None"
proof -
  have "ob_attempts e + int (length ts) = 5" "ts \<noteq> []" using e(4) five by auto
  from refused_rounds [OF down uniq small e(1-3) this, of q]
  obtain e' where e': "e' \<in> set (fst (drain_rounds enq endpoints ts rows q))" "ob_id e' = ob_id e"
      "ob_published e' = None" "ob_failed e' \<noteq> None"
    and uniq1: "unique_on ob_id (fst (drain_rounds enq endpoints ts rows q))" by blast
  have "\<not> pending e'" using e'(4) by (simp add: pending_def)
  with later uniq1 e'(1) have "e' \<in> set rows' \<and> unique_on ob_id rows'"
  proof (induction rule: rtranclp_induct)
    case base
    then show ?case by simp
  next
    case (step y z)
    then show ?case using relay_round_keeps [OF step(2)] by blast
  qed
  then show ?thesis using e'(2-4) by blast
qed


section \<open>Concurrent workers\<close>

text \<open>
  Rounds of several workers interleave between the statement that claims and locks the rows and the
  commit: \<open>rw_running\<close> are the rows the rounds hold, \<open>rw_log\<close> the ids in the order they were published. A
  round may also die, which writes nothing and drops its locks.
\<close>

record relay_world =
  rw_rows :: "outbox_event list"
  rw_running :: "outbox_event list list"
  rw_log :: "uuid list"

inductive relay_reach :: "relay_world \<Rightarrow> bool" where
  starts: "unique_on ob_id rows \<Longrightarrow> relay_reach \<lparr>rw_rows = rows, rw_running = [], rw_log = []\<rparr>"
| emits: "relay_reach w \<Longrightarrow> ob_id e \<notin> ob_id ` set (rw_rows w) \<Longrightarrow> relay_reach (w\<lparr>rw_rows := rw_rows w @ [e]\<rparr>)"
| claims: "relay_reach w \<Longrightarrow> relay_reach (w\<lparr>rw_running := rw_running w
     @ [claim_events limit (ob_id ` set (concat (rw_running w))) (rw_rows w)]\<rparr>)"
| commits: "relay_reach w \<Longrightarrow> rw_running w = xs @ c # ys \<Longrightarrow>
     publish_events enqueue endpoints now m c q = (Inr es, q') \<Longrightarrow>
     relay_reach \<lparr>rw_rows = write_back es (rw_rows w), rw_running = xs @ ys,
       rw_log = rw_log w @ map ob_id (filter (\<lambda>e. ob_published e \<noteq> None) es)\<rparr>"
| dies: "relay_reach w \<Longrightarrow> rw_running w = xs @ c # ys \<Longrightarrow> relay_reach (w\<lparr>rw_running := xs @ ys\<rparr>)"

lemma distinct_middle: "distinct (A @ B @ C) \<Longrightarrow> set B \<inter> set (A @ C) = {} \<and> distinct (A @ C) \<and> distinct B"
  by auto

lemma distinct_middle_map:
  assumes "distinct (map f (concat (xs @ c # ys)))"
  shows "f ` set c \<inter> f ` set (concat (xs @ ys)) = {}" "distinct (map f (concat (xs @ ys)))" "distinct (map f c)"
  using distinct_middle [of "map f (concat xs)" "map f c" "map f (concat ys)"] assms
  by (simp_all only: concat_append concat.simps map_append set_append set_map image_Un)

definition relay_ok :: "relay_world \<Rightarrow> bool" where
  "relay_ok w \<longleftrightarrow> unique_on ob_id (rw_rows w) \<and> distinct (map ob_id (concat (rw_running w)))
     \<and> (\<forall>e \<in> set (concat (rw_running w)). e \<in> set (rw_rows w) \<and> pending e)
     \<and> distinct (rw_log w) \<and> (\<forall>i \<in> set (rw_log w). \<exists>r \<in> set (rw_rows w). ob_id r = i \<and> \<not> pending r)"

lemma claim_apart: "A \<subseteq> {e \<in> R. P e \<and> f e \<notin> S} \<Longrightarrow> S \<inter> f ` A = {}"
  by auto

lemma relay_ok_claim:
  assumes ok: "relay_ok w"
  shows "relay_ok (w\<lparr>rw_running := rw_running w
     @ [claim_events limit (ob_id ` set (concat (rw_running w))) (rw_rows w)]\<rparr>)"
proof -
  let ?run = "concat (rw_running w)"
  let ?c = "claim_events limit (ob_id ` set ?run) (rw_rows w)"
  have sub: "set ?c \<subseteq> {e \<in> set (rw_rows w). pending e \<and> ob_id e \<notin> ob_id ` set ?run}" by (rule claim_events_sub)
  have "unique_on ob_id (rw_rows w)" using ok by (simp add: relay_ok_def)
  then have "distinct (map ob_id ?c)" by (rule claim_events_distinct)
  moreover have "ob_id ` set ?run \<inter> ob_id ` set ?c = {}" by (rule claim_apart [OF sub])
  moreover have "distinct (map ob_id ?run)" using ok unfolding relay_ok_def by (elim conjE)
  ultimately have "distinct (map ob_id ?run @ map ob_id ?c)" by (simp only: distinct_append set_map)
  moreover have "\<forall>e \<in> set (?run @ ?c). e \<in> set (rw_rows w) \<and> pending e"
  proof
    fix e assume "e \<in> set (?run @ ?c)"
    then consider "e \<in> set ?run" | "e \<in> set ?c" unfolding set_append by blast
    then show "e \<in> set (rw_rows w) \<and> pending e"
    proof cases
      case 1
      then show ?thesis using ok unfolding relay_ok_def by (elim conjE) (rule bspec)
    next
      case 2
      then show ?thesis using sub by blast
    qed
  qed
  ultimately show ?thesis using ok by (simp add: relay_ok_def)
qed

lemma relay_ok_commit:
  assumes ok: "relay_ok w" and run: "rw_running w = xs @ c # ys"
    and pub: "publish_events enqueue endpoints now m c q = (Inr es, q')"
  shows "relay_ok \<lparr>rw_rows = write_back es (rw_rows w), rw_running = xs @ ys,
       rw_log = rw_log w @ map ob_id (filter (\<lambda>e. ob_published e \<noteq> None) es)\<rparr>"
proof -
  let ?rows = "write_back es (rw_rows w)"
  have uniq: "unique_on ob_id (rw_rows w)" using ok by (simp add: relay_ok_def)
  have ids: "map ob_id es = map ob_id c" by (rule publish_events_ids [OF pub])
  then have id_set: "ob_id ` set es = ob_id ` set c" by (metis set_map)
  have "distinct (map ob_id (concat (xs @ c # ys)))" using ok unfolding relay_ok_def run by (elim conjE)
  note dist = distinct_middle_map [OF this]
  have held: "e \<in> set (rw_rows w) \<and> pending e" if "e \<in> set c \<union> set (concat (xs @ ys))" for e
    using ok run that by (auto simp: relay_ok_def)
  have keep: "e \<in> set ?rows" if "e \<in> set (rw_rows w)" "ob_id e \<notin> ob_id ` set c" for e
    using write_back_keeps [OF that(1)] that(2) id_set by blast
  have es_dist: "distinct (map ob_id es)" using dist(3) ids by simp
  have in_rows: "e \<in> set ?rows" if "e \<in> set es" for e
  proof (rule write_back_takes [OF _ that])
    show "unique_on ob_id es" using es_dist by (simp add: unique_on_def)
    have "ob_id e \<in> ob_id ` set c" using that id_set by blast
    then show "ob_id e \<in> ob_id ` set (rw_rows w)" using held by auto
  qed
  have running: "\<forall>e \<in> set (concat (xs @ ys)). e \<in> set ?rows \<and> pending e"
  proof
    fix e assume e: "e \<in> set (concat (xs @ ys))"
    then have "ob_id e \<notin> ob_id ` set c" using dist(1) by blast
    moreover have "e \<in> set (rw_rows w) \<and> pending e" by (rule held) (use e in blast)
    ultimately show "e \<in> set ?rows \<and> pending e" using keep by blast
  qed
  have apart: "ob_id e \<notin> set (rw_log w)" if "e \<in> set c" for e
  proof
    assume "ob_id e \<in> set (rw_log w)"
    then obtain r where r: "r \<in> set (rw_rows w)" "ob_id r = ob_id e" "\<not> pending r" using ok by (auto simp: relay_ok_def)
    have e: "e \<in> set (rw_rows w)" "pending e" using held [of e] that by auto
    show False using unique_onD [OF uniq r(1) e(1) r(2)] r(3) e(2) by simp
  qed
  let ?new = "map ob_id (filter (\<lambda>e. ob_published e \<noteq> None) es)"
  have "set ?new \<subseteq> ob_id ` set c" using id_set by auto
  then have "set (rw_log w) \<inter> set ?new = {}" using apart by blast
  moreover have "distinct ?new" using es_dist by (simp add: distinct_map_filter)
  ultimately have log: "distinct (rw_log w @ ?new)" using ok by (simp add: relay_ok_def)
  have logged: "\<exists>r \<in> set ?rows. ob_id r = i \<and> \<not> pending r" if i: "i \<in> set (rw_log w @ ?new)" for i
  proof -
    consider "i \<in> set (rw_log w)" | e where "e \<in> set es" "ob_published e \<noteq> None" "i = ob_id e" using i by auto
    then show ?thesis
    proof cases
      case 1
      then obtain r where r: "r \<in> set (rw_rows w)" "ob_id r = i" "\<not> pending r" using ok by (auto simp: relay_ok_def)
      have "ob_id r \<notin> ob_id ` set c" using apart 1 r(2) by auto
      then show ?thesis using keep r by blast
    next
      case 2
      then show ?thesis using in_rows by (auto simp: pending_def)
    qed
  qed
  show ?thesis using dist(2) write_back_unique [OF uniq] running log logged
    unfolding relay_ok_def relay_world.simps by blast
qed

text \<open>C8. Concurrent workers never publish an event twice, and never work on the same event at the same
  time, however their rounds interleave and wherever they die.\<close>
theorem events_published_once:
  assumes "relay_reach w"
  shows "distinct (rw_log w) \<and> distinct (map ob_id (concat (rw_running w)))"
proof -
  from assms have "relay_ok w"
  proof (induction rule: relay_reach.induct)
    case (starts rows)
    then show ?case by (simp add: relay_ok_def)
  next
    case (emits w e)
    then show ?case by (auto simp: relay_ok_def unique_on_def)
  next
    case (claims w limit)
    then show ?case by (intro relay_ok_claim)
  next
    case (commits w xs c ys endpoints now m q es q')
    then show ?case by (intro relay_ok_commit)
  next
    case (dies w xs c ys)
    then have "distinct (map ob_id (concat (xs @ c # ys)))" unfolding relay_ok_def by (elim conjE) simp
    from distinct_middle_map(2) [OF this] dies show ?case unfolding relay_ok_def by (simp, blast)
  qed
  then show ?thesis unfolding relay_ok_def by (elim conjE) (rule conjI)
qed

section \<open>Emission and routes\<close>

text \<open>A membership and its event are one: adding a member either writes both, the event pending for the
  relay with the member in its payload, or neither.\<close>
theorem member_event_atomic:
  "case add_member_emitting new_mb new_row fresh now org target role caller db rows of
     (Inl e, db', rows') \<Rightarrow> db' = db \<and> rows' = rows
   | (Inr m, db', rows') \<Rightarrow> memberships db' = memberships db @ [m] \<and> mb_org m = org \<and> mb_user m = target
       \<and> (\<exists>e. rows' = rows @ [e] \<and> pending e \<and> ob_source e = WEBHOOK_SOURCE \<and> ob_type e = ''member.added''
            \<and> ob_org e = Some org \<and> ob_payload e = JDict [(''id'', JStr (ob_event_id e)),
                (''event_type'', JStr ''member.added''), (''organization_id'', JStr org),
                (''data'', JDict [(''user_id'', JStr target), (''role'', JStr role)])])"
  by (auto simp: add_member_emitting_def add_member_def dispatch_def insert_unique_def pending_def Let_def
      split: sum.splits prod.splits option.splits if_splits)


lemma patch_endpoint_simps [simp]: "we_id (patch_endpoint p w) = we_id w" "we_org (patch_endpoint p w) = we_org w"
  by (simp_all add: patch_endpoint_def)

lemma find_endpoint_Inr: "find_endpoint org i ws = Inr w \<Longrightarrow> w \<in> set ws \<and> we_id w = i \<and> we_org w = org"
  by (auto simp: find_endpoint_def split: option.splits dest: find_SomeD)

lemma guarded_endpoint:
  assumes "and_then (require_role ADMIN org caller tdb) (\<lambda>_. find_endpoint org i ws) = Inr w"
  shows "manager org caller tdb" "w \<in> set ws" "we_id w = i" "we_org w = org"
  using assms by (auto simp: and_then_Inr dest: require_admin_manager find_endpoint_Inr)

text \<open>The webhook endpoints of an organization change only at the hand of its administrators and owners,
  through its own routes.\<close>
theorem only_managers_change_endpoints:
  assumes uniq: "unique_on we_id ws" and changed: "w \<in> set ws \<longleftrightarrow> w \<notin> set ws'"
    and ws': "ws' = snd (create_webhook_endpoint new_id random now org p caller tdb ws)
      \<or> ws' = snd (update_webhook_endpoint org i u caller tdb ws)
      \<or> ws' = snd (delete_webhook_endpoint org i caller tdb ws)"
  shows "manager org caller tdb \<and> we_org w = org"
  using ws'
proof (elim disjE)
  assume "ws' = snd (create_webhook_endpoint new_id random now org p caller tdb ws)"
  then show ?thesis using changed
    by (auto simp: create_webhook_endpoint_def Let_def insert_unique_Some dest: require_admin_manager
        split: sum.splits option.splits)
next
  assume ws': "ws' = snd (update_webhook_endpoint org i u caller tdb ws)"
  obtain w0 where g: "and_then (require_role ADMIN org caller tdb) (\<lambda>_. find_endpoint org i ws) = Inr w0"
    and upd: "ws' = update_where (\<lambda>x. we_id x = i) (patch_endpoint u) ws"
    using ws' changed by (auto simp: update_webhook_endpoint_def split: sum.splits)
  note w0 = guarded_endpoint [OF g]
  have only: "x = w0" if "x \<in> set ws" "we_id x = i" for x using unique_onD [OF uniq that(1) w0(2)] that(2) w0(3) by simp
  have "we_org w = org"
  proof (cases "w \<in> set ws")
    case True
    then have "w \<notin> set ws'" using changed by blast
    moreover have "(if we_id w = i then patch_endpoint u w else w) \<in> set ws'"
      unfolding upd by (rule in_update_where [OF True])
    ultimately have "we_id w = i" by (cases "we_id w = i") simp_all
    then show ?thesis using only True w0(4) by simp
  next
    case False
    then have "w \<in> set ws'" using changed by blast
    then obtain x where x: "x \<in> set ws" "w = (if we_id x = i then patch_endpoint u x else x)"
      unfolding upd set_update_where by (elim imageE) (rule that)
    have "we_id x = i" using x False by (cases "we_id x = i") simp_all
    then show ?thesis using only [OF x(1)] x(2) w0(4) by simp
  qed
  then show ?thesis using w0(1) by blast
next
  assume ws': "ws' = snd (delete_webhook_endpoint org i caller tdb ws)"
  obtain w0 where g: "and_then (require_role ADMIN org caller tdb) (\<lambda>_. find_endpoint org i ws) = Inr w0"
    and del: "ws' = delete_where (\<lambda>x. we_id x = i) ws"
    using ws' changed by (auto simp: delete_webhook_endpoint_def split: sum.splits)
  note w0 = guarded_endpoint [OF g]
  have w: "w \<in> set ws" "we_id w = i" using changed del by auto
  then have "w = w0" using unique_onD [OF uniq w(1) w0(2)] w0(3) by simp
  then show ?thesis using w0(1,4) by simp
qed

text \<open>What is registered is what is read back: every member gets the endpoint that was created, with its
  list of event types when these are words, although the table keeps them joined in one string.\<close>
theorem endpoint_roundtrip:
  assumes "create_webhook_endpoint new_id random now org p caller tdb ws = (Inr r, ws')"
    and "list_all word_ok (ec_event_types p)" "get_current_membership org reader tdb = Inr m"
  shows "get_webhook_endpoint org new_id reader tdb ws' = Inr r \<and> er_event_types r = ec_event_types p
    \<and> er_url r = ec_url p \<and> er_active r = ec_active p"
proof -
  let ?w = "\<lparr>we_id = new_id, we_org = org, we_url = ec_url p,
      we_secret = (case ec_secret p of Some (c # cs) \<Rightarrow> c # cs | _ \<Rightarrow> random),
      we_event_types = join_with '' '' (ec_event_types p), we_active = ec_active p, we_created = now\<rparr>"
  have new: "new_id \<notin> we_id ` set ws" "ws' = ws @ [?w]" "r = endpoint_to_read ?w"
    using assms(1) by (auto simp: create_webhook_endpoint_def Let_def insert_unique_Some split: sum.splits option.splits)
  have "find (\<lambda>w. we_id w = new_id \<and> we_org w = org) ws = None" using new(1) by (auto simp: find_None_iff)
  then have "find (\<lambda>w. we_id w = new_id \<and> we_org w = org) (ws @ [?w]) = Some ?w"
    by (induction ws) (auto split: if_splits)
  then have "get_webhook_endpoint org new_id reader tdb ws' = Inr r"
    using assms(3) new(2,3) by (simp add: get_webhook_endpoint_def find_endpoint_def)
  then show ?thesis using new(3) split_join [OF assms(2)] by (simp add: endpoint_to_read_def)
qed

section \<open>Instances\<close>

definition demo_endpoint :: webhook_endpoint where
  "demo_endpoint = \<lparr>we_id = ''w1'', we_org = ''o1'', we_url = ''https://x.test/h'', we_secret = ''s'',
     we_event_types = ''member.added org.gone'', we_active = True, we_created = 0\<rparr>"

definition demo_outbox :: "string \<Rightarrow> outbox_event" where
  "demo_outbox i = \<lparr>ob_id = i, ob_source = ''webhook'', ob_event_id = i, ob_type = ''member.added'', ob_org = Some ''o1'',
     ob_payload = JDict [(''id'', JStr i)], ob_attempts = 0, ob_last_error = None, ob_published = None,
     ob_failed = None, ob_created = 0\<rparr>"

lemmas webhook_eval = demo_endpoint_def demo_outbox_def WEBHOOK_SOURCE_def pending_def

lemma demo_outbox_simps [simp]: "ob_id (demo_outbox i) = i" "pending (demo_outbox i)"
  by (simp_all add: webhook_eval)

lemma demo_subscribed: "subscribed (demo_outbox i) demo_endpoint"
proof -
  have "split_ws ''member.added org.gone'' = [''member.added'', ''org.gone'']" by code_simp
  then show ?thesis by (simp add: subscribed_def demo_outbox_def demo_endpoint_def)
qed

lemma demo_jobs: "jobs_for [demo_endpoint] (demo_outbox i) = [job_of (demo_outbox i) demo_endpoint]"
  using demo_subscribed by (simp add: jobs_for_def demo_outbox_def WEBHOOK_SOURCE_def)

definition demo_queue :: job_queue where
  "demo_queue = \<lparr>queued = [], upcoming = []\<rparr>"

lemma demo_unique: "unique_on ob_id [demo_outbox i]"
  by (simp add: unique_on_def)

lemma demo_claimed: "claim_events 100 {} [demo_outbox i] = [demo_outbox i]"
  by (simp add: claim_events_def)

lemma demo_round: "relay_outbox 9 [demo_endpoint] [demo_outbox ''e1''] demo_queue =
  (Inr 1, [(demo_outbox ''e1'')\<lparr>ob_published := Some 9\<rparr>],
   \<lparr>queued = [job_of (demo_outbox ''e1'') demo_endpoint], upcoming = []\<rparr>)"
  using relay_healthy [of demo_queue 9 "[demo_endpoint]" "[demo_outbox ''e1'']"]
  by (simp add: demo_claimed demo_jobs demo_queue_def write_back_def)

lemma published_events_are_enqueued_witness:
  "set (jobs_for [demo_endpoint] ((demo_outbox ''e1'')\<lparr>ob_published := Some 9\<rparr>))
    \<subseteq> {job_of (demo_outbox ''e1'') demo_endpoint}"
  using published_events_are_enqueued [OF demo_unique demo_round] by (auto simp: demo_queue_def demo_outbox_def)

lemma backlog_drains_witness:
  "filter pending (fst (drain_rounds enqueue [demo_endpoint] [9] [demo_outbox ''e1''] demo_queue)) = []"
proof -
  let ?r = "drain_rounds enqueue [demo_endpoint] [9] [demo_outbox ''e1''] demo_queue"
  have "upcoming demo_queue = []" "length (filter pending [demo_outbox ''e1'']) \<le> 100 * length [9 :: datetime]"
    by (simp_all add: demo_queue_def)
  from backlog_drains [OF demo_unique this, of "[demo_endpoint]" "fst ?r" "snd ?r"] show ?thesis by simp
qed

lemma outage_dead_letters_witness:
  "\<exists>e' \<in> set (fst (drain_rounds (\<lambda>j (q :: unit). (Inr False, q)) [demo_endpoint] [1, 2, 3, 4, 5] [demo_outbox ''e1''] ())).
    ob_id e' = ''e1'' \<and> ob_published e' = None \<and> ob_failed e' \<noteq> None"
proof -
  have "refusing (\<lambda>j (q :: unit). (Inr False, q))" by (simp add: refusing_def)
  moreover have "length (filter pending [demo_outbox ''e1'']) \<le> 100" "demo_outbox ''e1'' \<in> set [demo_outbox ''e1'']"
    "pending (demo_outbox ''e1'')" "jobs_for [demo_endpoint] (demo_outbox ''e1'') \<noteq> []"
    "ob_attempts (demo_outbox ''e1'') = 0" "length [1, 2, 3, 4, 5 :: datetime] = 5"
    by (simp_all add: demo_jobs, simp_all add: webhook_eval)
  ultimately show ?thesis
    using outage_dead_letters [OF _ demo_unique _ _ _ _ _ _ rtranclp.rtrancl_refl, of "\<lambda>j (q :: unit). (Inr False, q)"
        "''e1''" "demo_outbox ''e1''" "[demo_endpoint]" "[1, 2, 3, 4, 5]" "()"]
    by (simp add: demo_outbox_def)
qed

lemma events_published_once_witness:
  "distinct (rw_log \<lparr>rw_rows = [(demo_outbox ''e1'')\<lparr>ob_published := Some 9\<rparr>], rw_running = [[]], rw_log = [''e1'']\<rparr>)"
proof -
  let ?w0 = "\<lparr>rw_rows = [demo_outbox ''e1''], rw_running = [], rw_log = []\<rparr>"
  let ?w1 = "\<lparr>rw_rows = [demo_outbox ''e1''], rw_running = [[demo_outbox ''e1'']], rw_log = []\<rparr>"
  let ?w2 = "\<lparr>rw_rows = [demo_outbox ''e1''], rw_running = [[demo_outbox ''e1''], []], rw_log = []\<rparr>"
  have "relay_reach ?w0" by (rule relay_reach.starts [OF demo_unique])
  from relay_reach.claims [OF this, of 100] have w1: "relay_reach ?w1" by (simp add: demo_claimed)
  have "claim_events 100 {''e1''} [demo_outbox ''e1''] = []" by (simp add: claim_events_def demo_outbox_def)
  with relay_reach.claims [OF w1, of 100] have w2: "relay_reach ?w2" by (simp add: demo_outbox_def)
  have pub: "publish_events enqueue [demo_endpoint] 9 5 [demo_outbox ''e1''] demo_queue
      = (Inr [(demo_outbox ''e1'')\<lparr>ob_published := Some 9\<rparr>],
         demo_queue\<lparr>queued := queued demo_queue @ concat (map (jobs_for [demo_endpoint]) [demo_outbox ''e1''])\<rparr>)"
    using publish_healthy [of demo_queue "[demo_endpoint]" 9 5 "[demo_outbox ''e1'']"] by (simp add: demo_queue_def)
  have "rw_running ?w2 = [] @ [demo_outbox ''e1''] # [[]]" by simp
  from events_published_once [OF relay_reach.commits [OF w2 this pub]]
  show ?thesis by (simp add: write_back_def demo_outbox_def)
qed

definition hook_payload :: endpoint_create where
  "hook_payload = \<lparr>ec_url = ''https://x.test/h'', ec_event_types = [''member.added'', ''org.gone''],
     ec_secret = Some ''s'', ec_active = True\<rparr>"

lemma only_managers_change_endpoints_witness: "manager ''o1'' ''bob'' acme_db"
proof -
  have uniq: "unique_on we_id []" by simp
  have "\<exists>w. w \<in> set [] \<longleftrightarrow> w \<notin> set (snd (create_webhook_endpoint ''w1'' ''r'' 0 ''o1'' hook_payload ''bob'' acme_db []))"
    by (simp add: create_webhook_endpoint_def tenancy_eval)
  then obtain w where "w \<in> set [] \<longleftrightarrow> w \<notin> set (snd (create_webhook_endpoint ''w1'' ''r'' 0 ''o1'' hook_payload ''bob'' acme_db []))"
    by blast
  from only_managers_change_endpoints [OF uniq this disjI1 [OF refl]] show ?thesis by (rule conjunct1)
qed

lemma endpoint_roundtrip_witness:
  "map_sum id er_event_types (get_webhook_endpoint ''o1'' ''w1'' ''ann'' acme_db
      (snd (create_webhook_endpoint ''w1'' ''r'' 0 ''o1'' hook_payload ''bob'' acme_db [])))
    = Inr [''member.added'', ''org.gone'']"
proof -
  obtain r ws where c: "create_webhook_endpoint ''w1'' ''r'' 0 ''o1'' hook_payload ''bob'' acme_db [] = (Inr r, ws)"
    by (simp add: create_webhook_endpoint_def tenancy_eval)
  have words: "list_all word_ok (ec_event_types hook_payload)" by (simp add: hook_payload_def) code_simp
  obtain m where m: "get_current_membership ''o1'' ''ann'' acme_db = Inr m" by (simp add: tenancy_eval)
  from endpoint_roundtrip [OF c words m] c show ?thesis by (simp add: hook_payload_def)
qed

end
