(* ===== verification/EgressProps.thy ===== *)
theory EgressProps imports Egress begin

text \<open>
  Properties of the egress guard: which addresses are public, that a mapped address is judged by the
  address it maps, and that a pinned target, read back as a client would read it, dials a public address.
\<close>

section \<open>Public addresses\<close>

text \<open>The private networks, without those inside another one and with the exceptions cut out.\<close>

lemma private_v4_intervals:
  "is_private (V4 a) \<longleftrightarrow> uint a < 0x1000000 \<or> (0x0A000000 \<le> uint a \<and> uint a < 0x0B000000)
    \<or> (0x7F000000 \<le> uint a \<and> uint a < 0x80000000) \<or> (0xA9FE0000 \<le> uint a \<and> uint a < 0xA9FF0000)
    \<or> (0xAC100000 \<le> uint a \<and> uint a < 0xAC200000) \<or> (0xC0000000 \<le> uint a \<and> uint a < 0xC0000009)
    \<or> (0xC000000B \<le> uint a \<and> uint a < 0xC0000100) \<or> (0xC0000200 \<le> uint a \<and> uint a < 0xC0000300)
    \<or> (0xC0A80000 \<le> uint a \<and> uint a < 0xC0A90000) \<or> (0xC6120000 \<le> uint a \<and> uint a < 0xC6140000)
    \<or> (0xC6336400 \<le> uint a \<and> uint a < 0xC6336500) \<or> (0xCB007100 \<le> uint a \<and> uint a < 0xCB007200)
    \<or> 0xF0000000 \<le> uint a"
proof -
  have u: "0 \<le> uint a" "uint a < 4294967296" using uint_lt_0 [of a] uint_bounded [of a] by simp_all
  then show ?thesis
    by (simp add: is_private_def via_mapped_def PRIVATE_V4_def PRIVATE_V4_EXCEPTIONS_def in_any_def
        in_net_interval quad_def) presburger
qed

lemma flagged_v4_intervals:
  "flagged (V4 a) \<longleftrightarrow> is_private (V4 a) \<or> 0xE0000000 \<le> uint a"
proof -
  have u: "0 \<le> uint a" "uint a < 4294967296" using uint_lt_0 [of a] uint_bounded [of a] by simp_all
  have zero: "a = 0 \<longleftrightarrow> uint a = 0" by (simp add: word_uint_eq_iff)
  from u show ?thesis
    by (simp add: flagged_def private_v4_intervals is_loopback_def is_link_local_def is_reserved_def is_multicast_def
        is_unspecified_def via_mapped_def in_net_interval quad_def zero) presburger
qed

text \<open>C29. An IPv4 address is public exactly when it is in none of the refused intervals: the six properties of
  \<open>ipaddress\<close> and the CGNAT network together cut out those fourteen blocks and nothing else.\<close>

lemma is_public_v4_intervals:
  "is_public (V4 a) \<longleftrightarrow> \<not> list_ex (\<lambda>(lo, hi). lo \<le> a \<and> a \<le> hi) REFUSED_V4"
proof -
  have u: "0 \<le> uint a" "uint a < 4294967296" using uint_lt_0 [of a] uint_bounded [of a] by simp_all
  then show ?thesis
    by (simp add: flagged_v4_intervals private_v4_intervals CGNAT_V4_def in_net_interval quad_def REFUSED_V4_def
        word_le_def) presburger
qed


text \<open>An IPv4-mapped IPv6 address is public exactly when the IPv4 address it embeds is.\<close>

lemma mapped_judged_by_v4:
  assumes "ipv4_mapped x = Some m"
  shows "is_public (V6 x) = is_public (V4 m)"
proof -
  have "flagged (V6 x) = flagged (V4 m)"
    using assms
    by (simp add: flagged_def is_private_def is_loopback_def is_link_local_def is_reserved_def is_multicast_def
        is_unspecified_def via_mapped_def)
  then show ?thesis using assms by simp
qed

lemma mapped_judged_by_v4_witness:
  "ipv4_mapped (hextets [0, 0, 0, 0, 0, 0xffff, 0x0a00, 1]) = Some (quad 10 0 0 1)
    \<and> \<not> is_public (V6 (hextets [0, 0, 0, 0, 0, 0xffff, 0x0a00, 1]))"
proof -
  have m: "ipv4_mapped (hextets [0, 0, 0, 0, 0, 0xffff, 0x0a00, 1]) = Some (quad 10 0 0 1)"
    by (simp add: address_simps)
  have "\<not> is_public (V4 (quad 10 0 0 1))"
    by (simp add: flagged_def is_private_def PRIVATE_V4_def PRIVATE_V4_EXCEPTIONS_def address_simps)
  then show ?thesis using m mapped_judged_by_v4 [OF m] by simp
qed

text \<open>A site-local IPv6 address (\<open>fec0::1\<close>) is not globally routable, and the guard lets it pass.\<close>

lemma site_local_passes: "is_public (V6 (hextets [0xfec0, 0, 0, 0, 0, 0, 0, 1]))"
proof -
  define a where "a = hextets [0xfec0, 0, 0, 0, 0, 0, 0, 1]"
  have u: "uint a = 0xfec00000000000000000000000000001" by (simp add: a_def hextets_shift)
  then have m: "ipv4_mapped a = None" by (simp add: ipv4_mapped_uint)
  have "\<not> in_any RESERVED_V6 a" using u by (simp add: RESERVED_V6_def in_any_def in_net_interval hextets_shift)
  moreover have "\<not> in_any PRIVATE_V6 a" using u by (simp add: PRIVATE_V6_def in_any_def in_net_interval hextets_shift)
  moreover have "\<not> in_net (hextets [0xfe80]) 10 a" "\<not> in_net (hextets [0xff00]) 8 a"
    using u by (simp_all add: in_net_interval hextets_shift)
  moreover have "a \<noteq> 0" "a \<noteq> 1" using u by auto
  ultimately have "\<not> flagged (V6 a)" using m by (simp add: flagged_def property_defs via_mapped_def)
  then show ?thesis using m by (simp add: a_def)
qed

section \<open>Lower case\<close>

lemma of_lower_char:
  "of_char (lower_char c) = (let n = of_char c in if 65 \<le> n \<and> n \<le> 90 then n + 32 else n :: nat)"
  by (simp add: lower_char_def Let_def)

lemma lower_char_hex:
  "is_digit (lower_char c) = is_digit c" "hex_value (lower_char c) = hex_value c"
  "lower_char c = CHR '':'' \<longleftrightarrow> c = CHR '':''" "lower_char c = CHR ''.'' \<longleftrightarrow> c = CHR ''.''" "lower_char c = CHR ''%'' \<longleftrightarrow> c = CHR ''%''"
  "is_digit c \<Longrightarrow> lower_char c = c"
proof -
  show "is_digit (lower_char c) = is_digit c" "hex_value (lower_char c) = hex_value c"
    by (simp_all add: hex_value_def is_digit_def less_eq_char_def of_lower_char Let_def)
  show "lower_char c = CHR '':'' \<longleftrightarrow> c = CHR '':''" "lower_char c = CHR ''.'' \<longleftrightarrow> c = CHR ''.''" "lower_char c = CHR ''%'' \<longleftrightarrow> c = CHR ''%''"
    unfolding of_char_eq_iff [where ?'a = nat, symmetric] of_lower_char by (simp_all add: Let_def)
  show "is_digit c \<Longrightarrow> lower_char c = c"
    by (simp add: is_digit_def less_eq_char_def lower_char_def Let_def)
qed

lemma lower_length [simp]: "length (lower s) = length s"
  by (simp add: lower_def)

lemma lower_Nil [simp]: "lower s = [] \<longleftrightarrow> s = []"
  by (simp add: lower_def)

lemma lower_digits: "list_all is_digit (lower s) = list_all is_digit s"
  by (simp add: lower_def list_all_iff lower_char_hex)

lemma lower_digits_id: "list_all is_digit s \<Longrightarrow> lower s = s"
  by (simp add: lower_def list_all_iff lower_char_hex map_idI)

lemma split_on_lower:
  assumes "\<And>x. lower_char x = c \<longleftrightarrow> x = c"
  shows "split_on c (lower s) = map lower (split_on c s)"
  using assms by (induction s) (auto simp: lower_def split: list.split)

lemma parse_octet_lower: "parse_octet (lower s) = parse_octet s"
proof (cases "list_all is_digit s")
  case True
  then show ?thesis by (simp add: lower_digits_id)
next
  case False
  then show ?thesis by (simp add: parse_octet_def lower_digits)
qed

lemma parse_v4_lower: "parse_v4 (lower s) = parse_v4 s"
  by (simp add: parse_v4_def split_on_lower lower_char_hex comp_def parse_octet_lower)

lemma parse_hextet_lower: "parse_hextet (lower s) = parse_hextet s"
proof -
  have "foldl (\<lambda>n c. 16 * n + (case hex_value c of Some d \<Rightarrow> d | None \<Rightarrow> 0)) n (lower s)
      = foldl (\<lambda>n c. 16 * n + (case hex_value c of Some d \<Rightarrow> d | None \<Rightarrow> 0)) n s" for n
    by (induction s arbitrary: n) (simp_all add: lower_def lower_char_hex)
  then show ?thesis
    by (simp add: parse_hextet_def hexadecimal_def) (simp add: lower_def list_all_iff lower_char_hex)
qed

lemma mem_lower:
  assumes "\<And>x. lower_char x = c \<longleftrightarrow> x = c"
  shows "c \<in> set (lower s) \<longleftrightarrow> c \<in> set s"
proof
  assume "c \<in> set (lower s)"
  then obtain x where "x \<in> set s" "lower_char x = c" by (auto simp: lower_def)
  then show "c \<in> set s" by (simp add: assms)
next
  have "lower_char c = c" by (simp add: assms)
  moreover assume "c \<in> set s"
  ultimately show "c \<in> set (lower s)" unfolding lower_def set_map by (rule image_eqI [OF sym])
qed

lemmas dot_lower = mem_lower [of "CHR ''.''", OF lower_char_hex(4)]
lemmas percent_lower = mem_lower [of "CHR ''%''", OF lower_char_hex(5)]

lemma hextet_parts_lower: "hextet_parts (lower s) = hextet_parts s"
proof -
  define parts where "parts = split_on CHR '':'' s"
  define number where "number = (\<lambda>p :: string. if p = [] then Some None else map_option Some (parse_hextet p))"
  have num: "map number (map lower ps) = map number ps" for ps
    by (simp add: number_def parse_hextet_lower)
  have ne: "parts \<noteq> []" by (simp add: parts_def)
  have "split_on CHR '':'' (lower s) = map lower parts" by (simp add: split_on_lower lower_char_hex parts_def)
  then show ?thesis
    unfolding hextet_parts_def parts_def [symmetric] number_def [symmetric] Let_def map_butlast [symmetric] num
      length_map last_map [OF ne] dot_lower parse_v4_lower by (simp only: num map_butlast [symmetric] length_map last_map [OF ne] dot_lower parse_v4_lower)
qed

lemma ip_text_lower: "ip_text ip a \<Longrightarrow> ip_text (lower ip) a"
proof -
  assume ip: "ip_text ip a"
  then have "partition_at CHR ''%'' ip = None" by (simp add: ip_text_def partition_at_None)
  moreover have "partition_at CHR ''%'' (lower ip) = None"
    using ip by (simp add: ip_text_def partition_at_None percent_lower)
  ultimately have "parse_v6 (lower ip) = parse_v6 ip" by (simp add: parse_v6_def hextet_parts_lower)
  then have "parse_ip (lower ip) = parse_ip ip" unfolding parse_ip_def parse_v4_lower by (rule ssubst) (rule refl)
  then show ?thesis using ip by (simp add: ip_text_def percent_lower)
qed

section \<open>Pinned targets\<close>

lemma check_public_all:
  "check_public host as = Inr () \<Longrightarrow> s \<in> set as \<Longrightarrow> \<exists>a. parse_ip s = Some a \<and> is_public a"
  by (induction as) (auto split: option.splits if_splits)

lemma cut_at_absent: "c \<notin> set (fst (cut_at c s))"
  by (auto simp: cut_at_def partition_at_None split: option.split dest: partition_at_Some)

lemma resolve_public_ips_ok:
  assumes "resolve_public_ips resolve host n = Inr ips"
  shows "ips \<noteq> []" "\<forall>s \<in> set ips. \<exists>a. ip_text s a \<and> is_public a"
    "\<exists>infos. resolve host n = Addresses infos \<and> ips = map (\<lambda>a. fst (cut_at CHR ''%'' a)) infos"
proof -
  obtain infos where r: "resolve host n = Addresses infos"
    using assms by (cases "resolve host n") (simp_all add: resolve_public_ips_def)
  have ips: "ips = map (\<lambda>a. fst (cut_at CHR ''%'' a)) infos" and ne: "ips \<noteq> []" and ok: "check_public host ips = Inr ()"
    using assms by (auto simp: resolve_public_ips_def r Let_def and_then_Inr split: if_splits)
  show "ips \<noteq> []" by (rule ne)
  show "\<exists>infos. resolve host n = Addresses infos \<and> ips = map (\<lambda>a. fst (cut_at CHR ''%'' a)) infos"
    using r ips by blast
  show "\<forall>s \<in> set ips. \<exists>a. ip_text s a \<and> is_public a"
    using check_public_all [OF ok] ips cut_at_absent unfolding ip_text_def by auto
qed

lemma url_port_authority:
  assumes "ip_text ip a" "su_netloc p = authority ip port" "\<forall>n. port = Some n \<longrightarrow> n \<le> 65535"
  shows "url_port p = Inr port"
proof (cases port)
  case None
  then show ?thesis by (simp add: url_port_def assms(2) authority_parts [OF assms(1)])
next
  case (Some n)
  have "list_all is_digit (nat_str n)" by (auto simp: list_all_iff nat_str_digits)
  then show ?thesis using assms(3) Some
    by (simp add: url_port_def assms(2) authority_parts [OF assms(1)] decimal_nat_str)
qed

lemma url_hostname_authority:
  assumes "ip_text ip a" "su_netloc p = authority ip port"
  shows "url_hostname p = Some (lower ip)"
proof -
  have "ip \<noteq> []" using ip_textD(1) [OF assms(1)] by (rule parse_ip_nonempty)
  moreover have "partition_at CHR ''%'' ip = None" using ip_textD(2) [OF assms(1)] by (simp add: partition_at_None)
  ultimately show ?thesis by (simp add: url_hostname_def assms(2) authority_parts [OF assms(1)])
qed

lemma url_port_bound: "url_port p = Inr (Some n) \<Longrightarrow> n \<le> 65535"
  by (auto simp: url_port_def Let_def split: if_splits)

lemma pinned_facts:
  assumes "resolve_pinned_target resolve url = Inr t"
  shows "\<exists>parts port infos p ip a. urlsplit url = Inr parts \<and> url_hostname parts = Some (pt_sni_hostname t)
    \<and> url_port parts = Inr port
    \<and> (\<exists>n. resolve (pt_sni_hostname t) n = Addresses infos)
    \<and> list_all (\<lambda>s. case parse_ip (fst (cut_at CHR ''%'' s)) of None \<Rightarrow> False | Some b \<Rightarrow> is_public b) infos
    \<and> urlsplit (pt_url t) = Inr p \<and> su_scheme p = su_scheme parts \<and> su_scheme p \<in> set ALLOWED_SCHEMES
    \<and> url_hostname p = Some ip \<and> parse_ip ip = Some a \<and> is_public a \<and> url_port p = Inr port
    \<and> infos \<noteq> [] \<and> ip = lower (fst (cut_at CHR ''%'' (hd infos))) \<and> parse_ip (fst (cut_at CHR ''%'' (hd infos))) = Some a"
proof -
  obtain parts where parts: "urlsplit url = Inr parts"
    using assms by (auto simp: resolve_pinned_target_def and_then_Inr)
  then have sch: "su_scheme parts \<in> set ALLOWED_SCHEMES"
    using assms by (auto simp: resolve_pinned_target_def and_then_Inr split: if_splits)
  obtain host where host: "url_hostname parts = Some host"
    using assms parts sch by (auto simp: resolve_pinned_target_def and_then_Inr split: option.splits)
  obtain port where port: "url_port parts = Inr port"
    using assms parts sch host by (auto simp: resolve_pinned_target_def and_then_Inr split: sum.splits)
  define n where "n = (case port of Some p \<Rightarrow> if p = 0 then default_port (su_scheme parts) else p
      | None \<Rightarrow> default_port (su_scheme parts))"
  obtain ips where ips: "resolve_public_ips resolve host n = Inr ips"
    and t: "t = \<lparr>pt_url = urlunsplit (su_scheme parts) (authority (hd ips) port) (su_path parts) (su_query parts)
        (su_fragment parts), pt_host_header = after_at (su_netloc parts), pt_sni_hostname = host\<rparr>"
    using assms by (auto simp: resolve_pinned_target_def and_then_Inr parts sch host port n_def)
  obtain infos where infos: "resolve host n = Addresses infos" "ips = map (\<lambda>a. fst (cut_at CHR ''%'' a)) infos"
    using resolve_public_ips_ok(3) [OF ips] by blast
  have "hd ips \<in> set ips" using resolve_public_ips_ok(1) [OF ips] by simp
  then obtain a where a: "ip_text (hd ips) a" "is_public a" using resolve_public_ips_ok(2) [OF ips] by blast
  obtain p where p: "urlsplit (pt_url t) = Inr p" "su_scheme p = su_scheme parts" "su_netloc p = authority (hd ips) port"
    using urlsplit_urlunsplit [OF a(1) sch urlsplit_plain [OF parts]] unfolding t by auto
  have "list_all (\<lambda>s. case parse_ip (fst (cut_at CHR ''%'' s)) of None \<Rightarrow> False | Some b \<Rightarrow> is_public b) infos"
    using resolve_public_ips_ok(2) [OF ips] unfolding infos(2) list_all_iff ip_text_def by auto
  moreover have "url_hostname p = Some (lower (hd ips))" using a(1) p(3) by (rule url_hostname_authority)
  moreover have "url_port p = Inr port"
    using a(1) p(3) url_port_bound [of parts] port by (intro url_port_authority) auto
  moreover have "infos \<noteq> []" "hd ips = fst (cut_at CHR ''%'' (hd infos))"
    using resolve_public_ips_ok(1) [OF ips] infos(2) by (simp_all add: hd_map)
  moreover have "parse_ip (hd ips) = Some a" using a(1) by (rule ip_textD(1))
  moreover have "parse_ip (lower (hd ips)) = Some a" using ip_text_lower [OF a(1)] by (rule ip_textD(1))
  moreover have "pt_sni_hostname t = host" by (simp add: t)
  ultimately show ?thesis using parts host port infos(1) p(1,2) sch a(2) by auto
qed


text \<open>C19. A pinned target dials a public address: every address the host of the URL resolves to is public, and
  its URL, split again the way a client does, has the scheme and the port of the given one and, as its host, the
  text (without zone, in lower case) of the first of these addresses. The name for TLS is the original host.\<close>

lemma pinned_target_is_public:
  assumes "resolve_pinned_target resolve url = Inr t"
  shows "\<exists>parts port infos p ip a. urlsplit url = Inr parts \<and> url_hostname parts = Some (pt_sni_hostname t)
    \<and> url_port parts = Inr port
    \<and> (\<exists>n. resolve (pt_sni_hostname t) n = Addresses infos)
    \<and> list_all (\<lambda>s. case parse_ip (fst (cut_at CHR ''%'' s)) of None \<Rightarrow> False | Some b \<Rightarrow> is_public b) infos
    \<and> urlsplit (pt_url t) = Inr p \<and> su_scheme p = su_scheme parts \<and> su_scheme p \<in> set ALLOWED_SCHEMES
    \<and> url_hostname p = Some ip \<and> parse_ip ip = Some a \<and> is_public a \<and> url_port p = Inr port
    \<and> infos \<noteq> [] \<and> ip = lower (fst (cut_at CHR ''%'' (hd infos))) \<and> parse_ip (fst (cut_at CHR ''%'' (hd infos))) = Some a"
  using assms by (rule pinned_facts)

definition one_address :: "string \<Rightarrow> nat \<Rightarrow> resolution" where
  "one_address host n = (if host = ''hooks.example'' then Addresses [''8.8.8.8''] else Unresolvable)"

definition hooks_parts :: split_url where
  "hooks_parts = \<lparr>su_scheme = ''https'', su_netloc = ''hooks.example:8443'', su_path = ''/in'', su_query = [],
     su_fragment = []\<rparr>"

lemma hooks_url:
  "urlsplit ''https://hooks.example:8443/in'' = Inr hooks_parts" "su_scheme hooks_parts = ''https''"
  "url_hostname hooks_parts = Some ''hooks.example''" "url_port hooks_parts = Inr (Some 8443)"
  by (simp_all add: urlsplit_def clean_url_def split_scheme_def is_scheme_char_def is_alpha_def is_digit_def
      less_eq_char_def split_netloc_def in_netloc_def after_at_def cut_at_def hooks_parts_def url_hostname_def
      url_port_def host_info_def decimal_def lower_def lower_char_def)

lemma pinned_example:
  "resolve_pinned_target one_address ''https://hooks.example:8443/in'' = Inr \<lparr>pt_url = ''https://8.8.8.8:8443/in'',
    pt_host_header = ''hooks.example:8443'', pt_sni_hostname = ''hooks.example''\<rparr>"
proof -
  have "is_public (V4 (quad 8 8 8 8))"
    by (simp add: flagged_def property_defs PRIVATE_V4_def CGNAT_V4_def address_simps)
  then have "resolve_public_ips one_address ''hooks.example'' 8443 = Inr [''8.8.8.8'']"
    by (simp add: resolve_public_ips_def one_address_def parse_ip_def parse_v4_def parse_octet_def decimal_def
        is_digit_def less_eq_char_def cut_at_def)
  then show ?thesis
    by (simp add: resolve_pinned_target_def hooks_url ALLOWED_SCHEMES_def)
      (simp add: hooks_parts_def authority_def nat_str.simps digit_char_def urlunsplit_def after_at_def)
qed

lemma pinned_target_is_public_witness:
  "\<exists>t p ip a. resolve_pinned_target one_address ''https://hooks.example:8443/in'' = Inr t
    \<and> urlsplit (pt_url t) = Inr p \<and> url_hostname p = Some ip \<and> parse_ip ip = Some a \<and> is_public a"
  using pinned_target_is_public [OF pinned_example] pinned_example by blast

section \<open>Refusals\<close>

lemma check_public_refuses:
  assumes "list_all (\<lambda>s. parse_ip s \<noteq> None) as" "list_ex (\<lambda>s. case parse_ip s of Some b \<Rightarrow> \<not> is_public b | None \<Rightarrow> False) as"
  shows "\<exists>s \<in> set as. check_public host as = Inl (WebhookEgressError (host @ '' resolves to non-public address '' @ s))
    \<and> (\<exists>b. parse_ip s = Some b \<and> \<not> is_public b)"
  using assms by (induction as) (auto split: option.splits)

text \<open>One non-public address among those a host resolves to is enough to refuse the host, and the error names
  the host and one such address, wherever in the answer it stands.\<close>

lemma one_private_address_refuses:
  assumes "resolve host n = Addresses infos" "list_all (\<lambda>s. parse_ip s \<noteq> None) infos"
    "list_all (\<lambda>s. CHR ''%'' \<notin> set s) infos"
    "list_ex (\<lambda>s. case parse_ip s of Some b \<Rightarrow> \<not> is_public b | None \<Rightarrow> False) infos"
  shows "\<exists>s \<in> set infos. resolve_public_ips resolve host n
      = Inl (WebhookEgressError (host @ '' resolves to non-public address '' @ s))
    \<and> (\<exists>b. parse_ip s = Some b \<and> \<not> is_public b)"
proof -
  have "fst (cut_at CHR ''%'' s) = s" if "s \<in> set infos" for s
  proof -
    have "partition_at CHR ''%'' s = None" using assms(3) that by (simp add: list_all_iff partition_at_None)
    then show ?thesis by (simp add: cut_at_def)
  qed
  then have same: "map (\<lambda>a. fst (cut_at CHR ''%'' a)) infos = infos" by (simp add: map_idI)
  have ne: "infos \<noteq> []" using assms(4) by auto
  obtain s where s: "s \<in> set infos" "\<exists>b. parse_ip s = Some b \<and> \<not> is_public b"
      "check_public host infos = Inl (WebhookEgressError (host @ '' resolves to non-public address '' @ s))"
    using check_public_refuses [OF assms(2) assms(4), of host] by blast
  from s(3) have "resolve_public_ips resolve host n
      = Inl (WebhookEgressError (host @ '' resolves to non-public address '' @ s))"
    unfolding resolve_public_ips_def assms(1) by (simp add: same ne)
  then show ?thesis using s(1,2) by blast
qed

definition rebound :: "string \<Rightarrow> nat \<Rightarrow> resolution" where
  "rebound host n = Addresses [''8.8.8.8'', ''10.0.0.1'']"

lemma one_private_address_refuses_witness:
  "\<exists>s \<in> {''8.8.8.8'', ''10.0.0.1''}. resolve_public_ips rebound ''evil.example'' 443
      = Inl (WebhookEgressError (''evil.example resolves to non-public address '' @ s))"
proof -
  have p: "parse_ip ''8.8.8.8'' = Some (V4 (quad 8 8 8 8))" "parse_ip ''10.0.0.1'' = Some (V4 (quad 10 0 0 1))"
    by (simp_all add: parse_ip_def parse_v4_def parse_octet_def decimal_def is_digit_def less_eq_char_def)
  have "\<not> is_public (V4 (quad 10 0 0 1))"
    by (simp add: flagged_def is_private_def PRIVATE_V4_def PRIVATE_V4_EXCEPTIONS_def address_simps)
  then show ?thesis
    using one_private_address_refuses [of rebound "''evil.example''" 443 "[''8.8.8.8'', ''10.0.0.1'']"] p
    by (auto simp: rebound_def)
qed

text \<open>A URL that opens a bracket and does not close it leaves the guard with the error of \<open>urlsplit\<close>.\<close>

lemma unclosed_bracket_escapes: "resolve_pinned_target resolve ''http://[::1'' = Inl (ValueError ''Invalid IPv6 URL'')"
  by (simp add: resolve_pinned_target_def urlsplit_def clean_url_def split_scheme_def is_scheme_char_def is_alpha_def
      less_eq_char_def split_netloc_def in_netloc_def)

end
