(* ===== verification/DeliveryProps.thy ===== *)
theory DeliveryProps imports Delivery WebhooksProps EgressProps begin

text \<open>
  Properties of the delivery: what a signature accepts, where a request goes and what it carries, what becomes of
  the task, the path of an event from the outbox to its receiver, and the audit log as a growing, paged list.
\<close>

section \<open>Signatures\<close>

lemma hex_digit_char: "n < 16 \<Longrightarrow> (of_char (hex_digit n) :: nat) < 128 \<and> hex_digit n \<noteq> CHR ''s''"
proof -
  assume "n < 16"
  then have "n \<in> set [0..<16]" by simp
  then show ?thesis by (auto simp: hex_digit_def upt_rec)
qed

lemma hexdigest_chars: "c \<in> set (hexdigest d) \<Longrightarrow> (of_char c :: nat) < 128 \<and> c \<noteq> CHR ''s''"
proof -
  assume "c \<in> set (hexdigest d)"
  then obtain b where "b \<in> set d" "c = hex_digit (of_char b div 16) \<or> c = hex_digit (of_char b mod 16)"
    by (auto simp: hexdigest_def)
  moreover have "of_char b div 16 < (16 :: nat)"
  proof -
    have "of_char b < (256 :: nat)" by (metis of_char_mod_256 mod_less_divisor zero_less_numeral)
    then show ?thesis by (simp add: div_less_iff_less_mult)
  qed
  ultimately show ?thesis using hex_digit_char by auto
qed

lemma hexdigest_ascii: "list_all (\<lambda>c. (of_char c :: nat) < 128) (hexdigest d)"
  using hexdigest_chars by (auto simp: list_all_iff)

lemma removeprefix_hexdigest: "removeprefix ''sha256='' (hexdigest d) = hexdigest d"
proof -
  have "CHR ''s'' \<notin> set (hexdigest d)" using hexdigest_chars by blast
  then have "\<not> starts_with ''sha256='' (hexdigest d)" by (auto simp: starts_with_iff)
  then show ?thesis by (simp add: removeprefix_def)
qed

lemma sign_verifies:
  "verify_signature hmac secret body (sign_payload hmac secret body) = Inr True"
  "verify_signature hmac secret body (''sha256='' @ sign_payload hmac secret body) = Inr True"
proof -
  have "compare_digest (hexdigest d) (hexdigest d) = Inr True" for d by (simp add: compare_digest_def hexdigest_ascii)
  moreover have "removeprefix ''sha256='' (''sha256='' @ s) = s" for s by (simp add: removeprefix_def)
  ultimately show "verify_signature hmac secret body (sign_payload hmac secret body) = Inr True"
    "verify_signature hmac secret body (''sha256='' @ sign_payload hmac secret body) = Inr True"
    by (simp_all only: verify_signature_def sign_payload_def removeprefix_hexdigest)
qed

text \<open>C39. A signature is accepted exactly when it is the hexadecimal HMAC of the body under the secret, bare or behind
  \<open>sha256=\<close>.\<close>

theorem signature_roundtrip:
  "verify_signature hmac secret body signature = Inr True
    \<longleftrightarrow> signature \<in> {sign_payload hmac secret body, ''sha256='' @ sign_payload hmac secret body}"
proof
  assume v: "verify_signature hmac secret body signature = Inr True"
  then have eq: "removeprefix ''sha256='' signature = sign_payload hmac secret body"
    by (auto simp: verify_signature_def compare_digest_def split: if_splits)
  show "signature \<in> {sign_payload hmac secret body, ''sha256='' @ sign_payload hmac secret body}"
  proof (cases "starts_with ''sha256='' signature")
    case True
    then obtain t where "signature = ''sha256='' @ t" unfolding starts_with_iff by blast
    then show ?thesis using eq by (simp add: removeprefix_def)
  next
    case False
    then show ?thesis using eq by (simp add: removeprefix_def)
  qed
next
  assume "signature \<in> {sign_payload hmac secret body, ''sha256='' @ sign_payload hmac secret body}"
  then show "verify_signature hmac secret body signature = Inr True" using sign_verifies by blast
qed

section \<open>One delivery\<close>

lemma audited_posted [simp]: "ds_posted (snd (audited new_id now action w meta out st)) = ds_posted st"
  by (simp add: audited_def split: sum.splits prod.splits)

lemma audited_fresh:
  assumes "new_id \<notin> al_id ` set (ds_logs st)" "meta \<noteq> []"
  shows "audited new_id now action w meta out st = (out, st\<lparr>ds_logs := ds_logs st @
    [\<lparr>al_id = new_id, al_org = Some (we_org w), al_actor = Some ''system'', al_action = action,
      al_target = Some (we_id w), al_meta = Some meta, al_created = now\<rparr>]\<rparr>)"
  using assms by (simp add: audited_def audit_record_def Let_def insert_unique_def)

text \<open>What a delivery posts: nothing, or one request to the pinned target of an active endpoint.\<close>

lemma deliver_posts:
  "ds_posted (snd (deliver_webhook hmac resolve post new_id now job_try j st)) = ds_posted st
   \<or> (\<exists>w t. lookup_by we_id (dj_endpoint j) (ds_endpoints st) = Some w \<and> we_active w
        \<and> resolve_pinned_target resolve (we_url w) = Inr t
        \<and> ds_posted (snd (deliver_webhook hmac resolve post new_id now job_try j st))
            = ds_posted st @ [delivery_request hmac (we_secret w) t (dj_type j) (dj_payload j)])"
proof (cases "lookup_by we_id (dj_endpoint j) (ds_endpoints st)")
  case None
  then show ?thesis by (simp add: deliver_webhook_def)
next
  case (Some w)
  show ?thesis
  proof (cases "we_active w")
    case False
    then show ?thesis using Some by (simp add: deliver_webhook_def)
  next
    case True
    show ?thesis
    proof (cases "resolve_pinned_target resolve (we_url w)")
      case (Inl e)
      then show ?thesis using Some True by (cases e) (simp_all add: deliver_webhook_def)
    next
      case (Inr t)
      then have "ds_posted (snd (deliver_webhook hmac resolve post new_id now job_try j st))
            = ds_posted st @ [delivery_request hmac (we_secret w) t (dj_type j) (dj_payload j)]"
        using Some True by (simp add: deliver_webhook_def Let_def split: http_outcome.split)
      then show ?thesis using Some True Inr by blast
    qed
  qed
qed

lemma delivery_request_signed:
  "\<exists>sig. (SIGNATURE_HEADER, sig) \<in> set (rq_headers (delivery_request hmac secret t ty p))
    \<and> verify_signature hmac secret (rq_body (delivery_request hmac secret t ty p)) sig = Inr True"
  using sign_verifies(2) [of hmac secret "utf8 (json_dumps p)"] by (auto simp: delivery_request_def Let_def)

text \<open>C7. A delivery posts nothing, or one request: it goes to an active endpoint, its URL has a public address as
  its host, TLS is bound to the host of the endpoint's URL, its body is the JSON of the payload, and its signature
  header verifies under the secret of the endpoint.\<close>

theorem delivery_is_safe:
  assumes run: "deliver_webhook hmac resolve post new_id now job_try j st = (out, st')"
    and posted: "ds_posted st' \<noteq> ds_posted st"
  shows "\<exists>w r p parts ip a sig. ds_posted st' = ds_posted st @ [r]
    \<and> lookup_by we_id (dj_endpoint j) (ds_endpoints st) = Some w \<and> we_active w
    \<and> urlsplit (rq_url r) = Inr p \<and> url_hostname p = Some ip \<and> parse_ip ip = Some a \<and> is_public a
    \<and> urlsplit (we_url w) = Inr parts \<and> url_hostname parts = Some (rq_sni r)
    \<and> rq_body r = utf8 (json_dumps (dj_payload j))
    \<and> (SIGNATURE_HEADER, sig) \<in> set (rq_headers r)
    \<and> verify_signature hmac (we_secret w) (rq_body r) sig = Inr True"
proof -
  obtain w t where w: "lookup_by we_id (dj_endpoint j) (ds_endpoints st) = Some w" "we_active w"
    and t: "resolve_pinned_target resolve (we_url w) = Inr t"
    and p: "ds_posted st' = ds_posted st @ [delivery_request hmac (we_secret w) t (dj_type j) (dj_payload j)]"
    using deliver_posts [of hmac resolve post new_id now job_try j st] run posted by auto
  define r where "r = delivery_request hmac (we_secret w) t (dj_type j) (dj_payload j)"
  have r: "rq_url r = pt_url t" "rq_sni r = pt_sni_hostname t" "rq_body r = utf8 (json_dumps (dj_payload j))"
    by (simp_all add: r_def delivery_request_def Let_def)
  obtain sig where sig: "(SIGNATURE_HEADER, sig) \<in> set (rq_headers r)"
    "verify_signature hmac (we_secret w) (rq_body r) sig = Inr True"
    using delivery_request_signed unfolding r_def by blast
  obtain parts p' ip a where pub: "urlsplit (we_url w) = Inr parts" "url_hostname parts = Some (pt_sni_hostname t)"
    "urlsplit (pt_url t) = Inr p'" "url_hostname p' = Some ip" "parse_ip ip = Some a" "is_public a"
    using pinned_facts [OF t] by blast
  show ?thesis using p w r sig pub unfolding r_def [symmetric] by auto
qed

definition is_success :: "http_outcome \<Rightarrow> bool" where
  "is_success answer = (case answer of Response s \<Rightarrow> 200 \<le> s \<and> s < 300 | _ \<Rightarrow> False)"

text \<open>C34. The outcome of a posted delivery: a 2xx answer completes the task, anything else, a redirect and a
  transport error among them, asks for a retry after five seconds per attempt; either way one audit entry is added.\<close>

theorem delivery_outcome:
  assumes w: "lookup_by we_id (dj_endpoint j) (ds_endpoints st) = Some w" "we_active w"
    and t: "resolve_pinned_target resolve (we_url w) = Inr t"
    and fresh: "new_id \<notin> al_id ` set (ds_logs st)"
    and answer: "post (delivery_request hmac (we_secret w) t (dj_type j) (dj_payload j)) = answer"
      "\<forall>e. answer \<noteq> ClientRaised e"
  shows "\<exists>entry st'. deliver_webhook hmac resolve post new_id now (Some n) j st
      = (if is_success answer then TaskDone else TaskRetry (n * 5), st')
    \<and> ds_posted st' = ds_posted st @ [delivery_request hmac (we_secret w) t (dj_type j) (dj_payload j)]
    \<and> ds_logs st' = ds_logs st @ [entry] \<and> al_org entry = Some (we_org w)
    \<and> al_action entry = (if is_success answer then ''webhook.delivered'' else ''webhook.delivery_failed'')"
  using assms(6) audited_fresh [OF fresh]
  by (cases answer) (simp_all add: deliver_webhook_def w t Let_def answer(1) is_success_def audited_fresh fresh)

text \<open>A target the guard refuses is never posted to and never retried; the refusal is audited with its reason.\<close>

theorem blocked_delivery_is_final:
  assumes w: "lookup_by we_id (dj_endpoint j) (ds_endpoints st) = Some w" "we_active w"
    and t: "resolve_pinned_target resolve (we_url w) = Inl (WebhookEgressError msg)"
    and fresh: "new_id \<notin> al_id ` set (ds_logs st)"
  shows "\<exists>entry st'. deliver_webhook hmac resolve post new_id now job_try j st = (TaskDone, st')
    \<and> ds_posted st' = ds_posted st \<and> ds_logs st' = ds_logs st @ [entry]
    \<and> al_action entry = ''webhook.delivery_blocked'' \<and> al_target entry = Some (we_id w)
    \<and> al_meta entry = Some [(''event_type'', JStr (dj_type j)), (''reason'', JStr msg)]"
  using audited_fresh [OF fresh] by (simp add: deliver_webhook_def w t)

text \<open>A URL that resolves while the resolver works is refused while it is down.\<close>

definition no_resolver :: resolver where
  "no_resolver host port = Unresolvable"

lemma resolver_down:
  assumes "resolve_pinned_target working url = Inr t"
  shows "\<exists>msg. resolve_pinned_target no_resolver url = Inl (WebhookEgressError msg)"
  using assms by (auto simp: resolve_pinned_target_def and_then_Inr and_then_def resolve_public_ips_def no_resolver_def split: if_splits option.splits sum.splits)

text \<open>An outage of name resolution ends every delivery that is attempted during it for good: the job of a sound
  endpoint is completed without a request and without a retry, although a failing receiver is retried.\<close>

theorem dns_outage_drops_delivery:
  assumes w: "lookup_by we_id (dj_endpoint j) (ds_endpoints st) = Some w" "we_active w"
    and sound: "resolve_pinned_target working (we_url w) = Inr t"
    and fresh: "new_id \<notin> al_id ` set (ds_logs st)"
  shows "\<exists>st'. deliver_webhook hmac no_resolver post new_id now job_try j st = (TaskDone, st') \<and> ds_posted st' = ds_posted st"
proof -
  obtain msg where "resolve_pinned_target no_resolver (we_url w) = Inl (WebhookEgressError msg)"
    using resolver_down [OF sound] by blast
  then show ?thesis using audited_fresh [OF fresh] by (simp add: deliver_webhook_def w)
qed

text \<open>From the outbox to the receiver: with a queue that accepts, an event that is pending is handed over within one round of
  the relay per hundred pending events, and the job queued for a subscriber posts, at each attempt, one request: the event's
  payload to the pinned target of the subscriber, signed with its secret. A 2xx answer completes the job, and any other
  has it tried again.\<close>

theorem event_reaches_subscriber:
  assumes uniq: "unique_on ob_id rows" and q: "upcoming q = []" and rounds: "length (filter pending rows) \<le> 100 * length ts"
    and relay: "drain_rounds enqueue endpoints ts rows q = (rows', q')"
    and e: "e \<in> set rows" "pending e" "ob_source e = WEBHOOK_SOURCE"
    and w: "unique_on we_id endpoints" "w \<in> set endpoints" "subscribed e w"
    and t: "resolve_pinned_target resolve (we_url w) = Inr t"
    and st: "ds_endpoints st = endpoints" "new_id \<notin> al_id ` set (ds_logs st)"
    and rq: "rq = delivery_request hmac (we_secret w) t (ob_type e) (ob_payload e)"
  shows "\<exists>j out st'. j \<in> set (queued q') \<and> (\<exists>now \<in> set ts. e\<lparr>ob_published := Some now\<rparr> \<in> set rows')
    \<and> deliver_webhook hmac resolve client new_id later (Some n) j st = (out, st') \<and> ds_posted st' = ds_posted st @ [rq]
    \<and> (case client rq of Response status \<Rightarrow> out = (if 200 \<le> status \<and> status < 300 then TaskDone else TaskRetry (n * 5))
        | TransportError \<Rightarrow> out = TaskRetry (n * 5) | ClientRaised x \<Rightarrow> out = TaskRaised x)"
proof -
  have "job_of e w \<in> set (jobs_for endpoints e)" using e(3) w(2,3) by (simp add: jobs_for_def)
  then have "job_of e w \<in> set (queued q')" "\<exists>now \<in> set ts. e\<lparr>ob_published := Some now\<rparr> \<in> set rows'"
    using rounds_drain [OF uniq q rounds relay] e(1,2) by blast+
  moreover have "lookup_by we_id (we_id w) (ds_endpoints st) = Some w" "we_active w"
    using lookup_by_unique [OF w(1,2)] st(1) w(3) by (simp_all add: subscribed_def)
  then have "\<exists>out st'. deliver_webhook hmac resolve client new_id later (Some n) (job_of e w) st = (out, st')
    \<and> ds_posted st' = ds_posted st @ [rq]
    \<and> (case client rq of Response status \<Rightarrow> out = (if 200 \<le> status \<and> status < 300 then TaskDone else TaskRetry (n * 5))
        | TransportError \<Rightarrow> out = TaskRetry (n * 5) | ClientRaised x \<Rightarrow> out = TaskRaised x)"
    by (cases "client rq") (simp_all add: deliver_webhook_def job_of_def t Let_def rq audited_fresh st(2))
  ultimately show ?thesis by blast
qed

section \<open>The audit log\<close>

lemma concat_pages: "concat (map (\<lambda>k. take l (drop (k * l) xs)) [0..<n]) = take (n * l) xs"
proof (induction n)
  case 0
  then show ?case by simp
next
  case (Suc n)
  then show ?case by (simp add: take_add add.commute [of l])
qed

text \<open>Deliveries only append to the audit log, whatever they meet.\<close>

theorem audit_only_grows:
  "\<exists>new. ds_logs (snd (deliver_webhook hmac resolve post new_id now job_try j st)) = ds_logs st @ new
    \<and> length new \<le> 1 \<and> list_all (\<lambda>a. al_actor a = Some ''system'' \<and> al_target a = Some (dj_endpoint j)) new"
proof -
  let ?entries = "\<lambda>w new. list_all (\<lambda>a. al_actor a = Some ''system'' \<and> al_target a = Some (we_id w)) new"
  have grows: "\<exists>new. ds_logs (snd (audited new_id now action w meta out s)) = ds_logs s @ new \<and> length new \<le> 1
      \<and> ?entries w new" for action w meta out s
    by (auto simp: audited_def audit_record_def Let_def insert_unique_def split: sum.split)
  show ?thesis
  proof (cases "lookup_by we_id (dj_endpoint j) (ds_endpoints st)")
    case None
    then show ?thesis by (simp add: deliver_webhook_def)
  next
    case (Some w)
    then have id: "we_id w = dj_endpoint j" using lookup_by_SomeD by metis
    have "\<exists>new. ds_logs (snd (deliver_webhook hmac resolve post new_id now job_try j st)) = ds_logs st @ new
        \<and> length new \<le> 1 \<and> ?entries w new"
    proof (cases "resolve_pinned_target resolve (we_url w)")
      case (Inl e)
      then show ?thesis using Some grows [of _ w _ _ st] by (cases e) (simp_all add: deliver_webhook_def)
    next
      case (Inr t)
      let ?rq = "delivery_request hmac (we_secret w) t (dj_type j) (dj_payload j)"
      show ?thesis using Some Inr grows [of _ w _ _ "st\<lparr>ds_posted := ds_posted st @ [?rq]\<rparr>"]
        by (cases "post ?rq") (simp_all add: deliver_webhook_def Let_def)
    qed
    then show ?thesis unfolding id .
  qed
qed

text \<open>Pages of the audit log, read one after the other, give the log of the organization, newest first, without gaps
  and repetitions; nothing of another organization is in them.\<close>

theorem audit_pages_cover:
  assumes may: "require_role ADMIN org caller tdb = Inr m" and limit: "1 \<le> limit" "limit \<le> 200"
    and n: "int (n - 1) * limit \<le> 1000000" "int (length (filter (\<lambda>a. al_org a = Some org) logs)) \<le> int n * limit"
  shows "\<exists>pages. map (\<lambda>k. list_audit_logs org limit (int k * limit) caller tdb logs) [0..<n] = map Inr pages
    \<and> concat (map ap_items pages) = newest_first (filter (\<lambda>a. al_org a = Some org) logs)"
proof -
  define all where "all = newest_first (filter (\<lambda>a. al_org a = Some org) logs)"
  define page where "page = (\<lambda>k. \<lparr>ap_items = take (nat limit) (drop (k * nat limit) all),
    ap_total = int (length (filter (\<lambda>a. al_org a = Some org) logs)), ap_limit = limit, ap_offset = int k * limit\<rparr>)"
  have "list_audit_logs org limit (int k * limit) caller tdb logs = Inr (page k)" if "k < n" for k
  proof -
    have "int k \<le> int (n - 1)" using that by linarith
    then have "int k * limit \<le> int (n - 1) * limit" using limit(1) by (intro mult_right_mono) auto
    then have "int k * limit \<le> 1000000" using n(1) by linarith
    moreover have "\<not> int k * limit < 0" using limit(1) by (simp add: mult_less_0_iff)
    moreover have "nat (int k * limit) = k * nat limit" using limit(1) by (simp add: nat_mult_distrib)
    ultimately show ?thesis using limit may by (simp add: list_audit_logs_def Let_def page_def all_def)
  qed
  then have "map (\<lambda>k. list_audit_logs org limit (int k * limit) caller tdb logs) [0..<n] = map Inr (map page [0..<n])"
    by simp
  moreover have "concat (map ap_items (map page [0..<n])) = all"
  proof -
    have "map ap_items (map page [0..<n]) = map (\<lambda>k. take (nat limit) (drop (k * nat limit) all)) [0..<n]"
      by (simp add: page_def)
    moreover have "length all \<le> n * nat limit"
    proof -
      have "int (length all) \<le> int n * limit" using n(2) by (simp add: all_def newest_first_def)
      also have "\<dots> = int (n * nat limit)" using limit(1) by simp
      finally show ?thesis by linarith
    qed
    ultimately show ?thesis using concat_pages [of "nat limit" all n] by (simp only: take_all)
  qed
  ultimately show ?thesis unfolding all_def by blast
qed

section \<open>Instances\<close>

definition demo_hmac :: "bytes \<Rightarrow> bytes \<Rightarrow> bytes" where
  "demo_hmac key body = take 2 (key @ body)"

definition hooked :: webhook_endpoint where
  "hooked = demo_endpoint\<lparr>we_url := ''https://hooks.example:8443/in''\<rparr>"

definition hooked_state :: delivery_state where
  "hooked_state = \<lparr>ds_endpoints = [hooked], ds_logs = [], ds_posted = []\<rparr>"

definition hooked_target :: pinned_target where
  "hooked_target = \<lparr>pt_url = ''https://8.8.8.8:8443/in'', pt_host_header = ''hooks.example:8443'',
     pt_sni_hostname = ''hooks.example''\<rparr>"

definition hooked_job :: delivery_job where
  "hooked_job = job_of (demo_outbox ''e1'') hooked"

lemma hooked_found:
  "lookup_by we_id (dj_endpoint hooked_job) (ds_endpoints hooked_state) = Some hooked" "we_active hooked"
  "resolve_pinned_target one_address (we_url hooked) = Inr hooked_target"
  "''l1'' \<notin> al_id ` set (ds_logs hooked_state)"
  using pinned_example
  by (simp_all add: hooked_job_def job_of_def hooked_state_def hooked_def demo_endpoint_def hooked_target_def)

lemma delivery_outcome_witness:
  "\<exists>st'. deliver_webhook demo_hmac one_address (\<lambda>_. Response 302) ''l1'' 9 (Some 3) hooked_job hooked_state
      = (TaskRetry 15, st') \<and> length (ds_posted st') = 1 \<and> length (ds_logs st') = 1"
proof -
  have "\<forall>e. Response 302 \<noteq> ClientRaised e" by simp
  from delivery_outcome [where post = "\<lambda>_. Response 302", OF hooked_found refl this, of demo_hmac 9 3]
  show ?thesis by (auto simp: is_success_def) (auto simp: hooked_state_def)
qed

lemma delivery_is_safe_witness:
  "\<exists>st' r p ip a. deliver_webhook demo_hmac one_address (\<lambda>_. Response 200) ''l1'' 9 None hooked_job hooked_state = (TaskDone, st')
    \<and> ds_posted st' = [r] \<and> urlsplit (rq_url r) = Inr p \<and> url_hostname p = Some ip \<and> parse_ip ip = Some a \<and> is_public a"
proof -
  have empty: "ds_logs hooked_state = []" "ds_posted hooked_state = []" by (simp_all add: hooked_state_def)
  obtain st' where run: "deliver_webhook demo_hmac one_address (\<lambda>_. Response 200) ''l1'' 9 None hooked_job hooked_state = (TaskDone, st')"
    and "ds_posted st' \<noteq> ds_posted hooked_state"
    by (simp add: deliver_webhook_def hooked_found Let_def audited_fresh empty)
  from delivery_is_safe [OF this] run empty(2) show ?thesis by auto
qed

lemma blocked_delivery_is_final_witness:
  "\<exists>st'. deliver_webhook demo_hmac (\<lambda>h n. Unresolvable) (\<lambda>_. Response 200) ''l1'' 9 None hooked_job hooked_state
    = (TaskDone, st') \<and> ds_posted st' = []"
proof -
  have "resolve_pinned_target (\<lambda>h n. Unresolvable) (we_url hooked) = Inl (WebhookEgressError ''cannot resolve host: hooks.example'')"
    by (simp add: hooked_def demo_endpoint_def resolve_pinned_target_def hooks_url ALLOWED_SCHEMES_def resolve_public_ips_def)
  from blocked_delivery_is_final [OF hooked_found(1,2) this hooked_found(4), of demo_hmac "\<lambda>_. Response 200" 9 None]
  show ?thesis by (auto simp: hooked_state_def)
qed

lemma dns_outage_drops_delivery_witness:
  "\<exists>st'. deliver_webhook demo_hmac no_resolver (\<lambda>_. Response 200) ''l1'' 9 None hooked_job hooked_state
    = (TaskDone, st') \<and> ds_posted st' = []"
  using dns_outage_drops_delivery [OF hooked_found, of demo_hmac "\<lambda>_. Response 200" 9 None]
  by (simp add: hooked_state_def)

lemma event_reaches_subscriber_witness:
  "\<exists>j st'. j \<in> set (queued (snd (drain_rounds enqueue [hooked] [9] [demo_outbox ''e1''] demo_queue)))
    \<and> deliver_webhook demo_hmac one_address (\<lambda>_. Response 200) ''l1'' 10 (Some 1) j hooked_state = (TaskDone, st')
    \<and> ds_posted st' = [delivery_request demo_hmac ''s'' hooked_target ''member.added'' (JDict [(''id'', JStr ''e1'')])]"
proof -
  let ?run = "drain_rounds enqueue [hooked] [9] [demo_outbox ''e1''] demo_queue"
  have few: "upcoming demo_queue = []" "length (filter pending [demo_outbox ''e1'']) \<le> 100 * length [9 :: datetime]"
    and run: "?run = (fst ?run, snd ?run)"
    and e: "demo_outbox ''e1'' \<in> set [demo_outbox ''e1'']" "ob_source (demo_outbox ''e1'') = WEBHOOK_SOURCE"
    and w: "unique_on we_id [hooked]" "hooked \<in> set [hooked]" and st: "ds_endpoints hooked_state = [hooked]"
    by (simp_all add: demo_queue_def webhook_eval unique_on_def hooked_state_def)
  have sub: "subscribed (demo_outbox ''e1'') hooked" using demo_subscribed by (simp add: hooked_def subscribed_def)
  have vals: "ob_type (demo_outbox ''e1'') = ''member.added''" "we_secret hooked = ''s''" "ds_posted hooked_state = []"
    "ob_payload (demo_outbox ''e1'') = JDict [(''id'', JStr ''e1'')]"
    by (simp_all add: demo_outbox_def hooked_def demo_endpoint_def hooked_state_def)
  from event_reaches_subscriber [OF demo_unique few run e(1) demo_outbox_simps(2) e(2) w sub hooked_found(3) st
      hooked_found(4) refl, where hmac = demo_hmac and client = "\<lambda>_. Response 200" and later = 10 and n = 1]
  show ?thesis unfolding vals append_Nil by auto
qed

definition demo_log :: "datetime \<Rightarrow> audit_log" where
  "demo_log t = \<lparr>al_id = int_str t, al_org = Some ''o1'', al_actor = None, al_action = ''x'', al_target = None,
     al_meta = None, al_created = t\<rparr>"

lemma audit_pages_cover_witness:
  "\<exists>pages. map (\<lambda>k. list_audit_logs ''o1'' 1 (int k * 1) ''bob'' acme_db (map demo_log [3, 7])) [0..<2] = map Inr pages
    \<and> map al_created (concat (map ap_items pages)) = [7, 3]"
proof -
  have "require_role ADMIN ''o1'' ''bob'' acme_db = Inr \<lparr>mb_id = ''m2'', mb_org = ''o1'', mb_user = ''bob'', mb_role = ADMIN\<rparr>"
    by (simp add: tenancy_eval)
  moreover have "filter (\<lambda>a. al_org a = Some ''o1'') (map demo_log [3, 7]) = map demo_log [3, 7]" by (simp add: demo_log_def)
  moreover have "map al_created (newest_first (map demo_log [3, 7])) = [7, 3]" by (simp add: newest_first_def demo_log_def)
  ultimately show ?thesis
    using audit_pages_cover [of "''o1''" "''bob''" acme_db _ 1 2 "map demo_log [3, 7]"] by auto
qed

end
