(* ===== verification/Storage.thy ===== *)
theory Storage imports Tenancy begin

text \<open>
  Object storage (\<open>app/storage/keys.py\<close>, \<open>client.py\<close>, \<open>schemas.py\<close> and the organization-scoped routes of
  \<open>router.py.jinja\<close>). The S3 service behind the client is an argument that answers calls and has a state.
\<close>

section \<open>Keys\<close>

definition lstrip_slash :: "string \<Rightarrow> string" where
  "lstrip_slash key = dropWhile (\<lambda>c. c = CHR ''/'') key"

text \<open>No organization and an empty one are treated alike.\<close>

definition given :: "string option \<Rightarrow> string option" where
  "given org = (case org of Some (c # cs) \<Rightarrow> Some (c # cs) | _ \<Rightarrow> None)"

definition tenant_prefix :: "string option \<Rightarrow> string" where
  "tenant_prefix org = (case given org of Some o' \<Rightarrow> ''orgs/'' @ o' @ ''/'' | None \<Rightarrow> [])"

definition build_key :: "string \<Rightarrow> string option \<Rightarrow> string" where
  "build_key key org =
    (let cleaned = lstrip_slash key
     in case given org of Some o' \<Rightarrow> ''orgs/'' @ o' @ ''/'' @ cleaned | None \<Rightarrow> cleaned)"

definition relative_key :: "string \<Rightarrow> string option \<Rightarrow> string" where
  "relative_key stored org =
    (case given org of
       Some o' \<Rightarrow>
         (let prefix = ''orgs/'' @ o' @ ''/''
          in if starts_with prefix stored then drop (length prefix) stored else stored)
     | None \<Rightarrow> stored)"

section \<open>The client\<close>

record storage_config =
  s3_bucket :: "string option"
  s3_presign_expiry_seconds :: int

datatype s3_call =
    PutObject (call_bucket: string) (call_key: string) bytes "string option"
  | GetObject (call_bucket: string) (call_key: string)
  | DeleteObject (call_bucket: string) (call_key: string)
  | ListObjects (call_bucket: string) (call_key: string)
  | PresignPut (call_bucket: string) (call_key: string) "string option" int
  | PresignGet (call_bucket: string) (call_key: string) int

text \<open>An answer without contents has no \<open>Contents\<close> entry.\<close>

datatype s3_answer = Done | Body bytes | Contents "string list option" | Url string

type_synonym 's s3 = "s3_call \<Rightarrow> 's \<Rightarrow> (exn + s3_answer) \<times> 's"

definition bucket_name :: "storage_config \<Rightarrow> exn + string" where
  "bucket_name cfg = (case s3_bucket cfg of Some (c # cs) \<Rightarrow> Inr (c # cs)
     | _ \<Rightarrow> Inl (RuntimeError ''S3_BUCKET is not configured''))"

text \<open>Every helper names the bucket first and then makes one call. An answer has the shape its call asks for; what the
  reader of another shape would raise is given for completeness.\<close>

definition with_bucket ::
  "storage_config \<Rightarrow> (string \<Rightarrow> s3_call) \<Rightarrow> (s3_answer \<Rightarrow> exn + 'a) \<Rightarrow> 's s3 \<Rightarrow> 's \<Rightarrow> (exn + 'a) \<times> 's" where
  "with_bucket cfg call read s3 st =
    (case bucket_name cfg of
       Inl e \<Rightarrow> (Inl e, st)
     | Inr b \<Rightarrow> (case s3 (call b) st of (Inl e, st') \<Rightarrow> (Inl e, st') | (Inr a, st') \<Rightarrow> (read a, st')))"

definition put_object :: "storage_config \<Rightarrow> string \<Rightarrow> bytes \<Rightarrow> string option \<Rightarrow> 's s3 \<Rightarrow> 's \<Rightarrow> (exn + unit) \<times> 's" where
  "put_object cfg key data content_type =
    with_bucket cfg (\<lambda>b. PutObject b key data content_type) (\<lambda>_. Inr ())"

definition get_object :: "storage_config \<Rightarrow> string \<Rightarrow> 's s3 \<Rightarrow> 's \<Rightarrow> (exn + bytes) \<times> 's" where
  "get_object cfg key =
    with_bucket cfg (\<lambda>b. GetObject b key) (\<lambda>a. case a of Body d \<Rightarrow> Inr d | _ \<Rightarrow> Inl (KeyError ''Body''))"

definition remove_object :: "storage_config \<Rightarrow> string \<Rightarrow> 's s3 \<Rightarrow> 's \<Rightarrow> (exn + unit) \<times> 's" where
  "remove_object cfg key = with_bucket cfg (\<lambda>b. DeleteObject b key) (\<lambda>_. Inr ())"

definition list_keys :: "storage_config \<Rightarrow> string \<Rightarrow> 's s3 \<Rightarrow> 's \<Rightarrow> (exn + string list) \<times> 's" where
  "list_keys cfg prefix =
    with_bucket cfg (\<lambda>b. ListObjects b prefix) (\<lambda>a. case a of Contents (Some ks) \<Rightarrow> Inr ks | _ \<Rightarrow> Inr [])"

definition presigned_put_url ::
  "storage_config \<Rightarrow> string \<Rightarrow> int \<Rightarrow> string option \<Rightarrow> 's s3 \<Rightarrow> 's \<Rightarrow> (exn + string) \<times> 's" where
  "presigned_put_url cfg key expires_in content_type =
    with_bucket cfg (\<lambda>b. PresignPut b key content_type expires_in)
      (\<lambda>a. case a of Url u \<Rightarrow> Inr u | _ \<Rightarrow> Inl TypeError)"

definition presigned_get_url :: "storage_config \<Rightarrow> string \<Rightarrow> int \<Rightarrow> 's s3 \<Rightarrow> 's \<Rightarrow> (exn + string) \<times> 's" where
  "presigned_get_url cfg key expires_in =
    with_bucket cfg (\<lambda>b. PresignGet b key expires_in) (\<lambda>a. case a of Url u \<Rightarrow> Inr u | _ \<Rightarrow> Inl TypeError)"

section \<open>Routes\<close>

record presigned_response =
  ps_key :: string
  ps_url :: string
  ps_expires_in :: int

definition for_member ::
  "uuid \<Rightarrow> uuid \<Rightarrow> tenancy_db \<Rightarrow> ('s \<Rightarrow> (exn + 'a) \<times> 's) \<Rightarrow> 's \<Rightarrow> (exn + 'a) \<times> 's" where
  "for_member org caller tdb route st =
    (case get_current_membership org caller tdb of Inl e \<Rightarrow> (Inl e, st) | Inr _ \<Rightarrow> route st)"

definition answer_url :: "storage_config \<Rightarrow> string \<Rightarrow> (exn + string) \<times> 's \<Rightarrow> (exn + presigned_response) \<times> 's" where
  "answer_url cfg key r =
    (case r of
       (Inl e, st) \<Rightarrow> (Inl e, st)
     | (Inr u, st) \<Rightarrow> (Inr \<lparr>ps_key = key, ps_url = u, ps_expires_in = s3_presign_expiry_seconds cfg\<rparr>, st))"

text \<open>The body is checked after the membership: its key is not empty.\<close>

definition create_upload_url ::
  "storage_config \<Rightarrow> uuid \<Rightarrow> string \<Rightarrow> string option \<Rightarrow> uuid \<Rightarrow> tenancy_db \<Rightarrow> 's s3 \<Rightarrow> 's
    \<Rightarrow> (exn + presigned_response) \<times> 's" where
  "create_upload_url cfg org key content_type caller tdb s3 =
    for_member org caller tdb (\<lambda>st.
      if key = [] then (Inl (HTTPException 422 ''Unprocessable Entity'' []), st)
      else answer_url cfg key
        (presigned_put_url cfg (build_key key (Some org)) (s3_presign_expiry_seconds cfg) content_type s3 st))"

definition list_objects :: "storage_config \<Rightarrow> uuid \<Rightarrow> uuid \<Rightarrow> tenancy_db \<Rightarrow> 's s3 \<Rightarrow> 's \<Rightarrow> (exn + string list) \<times> 's" where
  "list_objects cfg org caller tdb s3 =
    for_member org caller tdb (\<lambda>st.
      case list_keys cfg (tenant_prefix (Some org)) s3 st of
        (Inl e, st') \<Rightarrow> (Inl e, st')
      | (Inr ks, st') \<Rightarrow> (Inr (map (\<lambda>k. relative_key k (Some org)) ks), st'))"

definition create_download_url ::
  "storage_config \<Rightarrow> uuid \<Rightarrow> string \<Rightarrow> uuid \<Rightarrow> tenancy_db \<Rightarrow> 's s3 \<Rightarrow> 's \<Rightarrow> (exn + presigned_response) \<times> 's" where
  "create_download_url cfg org key caller tdb s3 =
    for_member org caller tdb (\<lambda>st. answer_url cfg key
      (presigned_get_url cfg (build_key key (Some org)) (s3_presign_expiry_seconds cfg) s3 st))"

definition delete_object ::
  "storage_config \<Rightarrow> uuid \<Rightarrow> string \<Rightarrow> uuid \<Rightarrow> tenancy_db \<Rightarrow> 's s3 \<Rightarrow> 's \<Rightarrow> (exn + unit) \<times> 's" where
  "delete_object cfg org key caller tdb s3 =
    for_member org caller tdb (remove_object cfg (build_key key (Some org)) s3)"

end
