(* ===== verification/StorageProps.thy ===== *)
theory StorageProps imports Storage begin

text \<open>
  Properties of object storage: keys and their tenant prefix, the isolation of tenants in every call the routes
  make, and the listing that stops at the first page.
\<close>

section \<open>Keys\<close>

lemma build_key_prefix: "build_key key org = tenant_prefix org @ lstrip_slash key"
  by (simp add: build_key_def tenant_prefix_def Let_def split: option.split)

lemma relative_key_prefix: "relative_key (tenant_prefix org @ s) org = s"
proof (cases "given org")
  case None
  then show ?thesis by (simp add: relative_key_def tenant_prefix_def)
next
  case (Some o')
  have "starts_with (''orgs/'' @ o' @ ''/'') ((''orgs/'' @ o' @ ''/'') @ s)" by (rule starts_with_append)
  then show ?thesis using Some by (simp add: relative_key_def tenant_prefix_def Let_def)
qed

text \<open>The stored form of a key leads back to it up to its leading slashes, and two keys share a stored form exactly
  when they differ in leading slashes only, with and without an organization.\<close>

theorem key_roundtrip:
  "relative_key (build_key key org) org = lstrip_slash key
    \<and> (build_key key org = build_key key' org \<longleftrightarrow> lstrip_slash key = lstrip_slash key')"
  by (simp add: build_key_prefix relative_key_prefix)

definition tenant_id :: "uuid \<Rightarrow> bool" where
  "tenant_id org \<longleftrightarrow> org \<noteq> [] \<and> CHR ''/'' \<notin> set org"

lemma tenant_prefix_id: "tenant_id org \<Longrightarrow> tenant_prefix (Some org) = ''orgs/'' @ org @ ''/''"
  by (cases org) (simp_all add: tenant_id_def tenant_prefix_def given_def)

lemma prefixes_apart:
  assumes "tenant_id org" "tenant_id other" "org \<noteq> other"
  shows "tenant_prefix (Some org) @ a \<noteq> tenant_prefix (Some other) @ b"
proof
  assume eq: "tenant_prefix (Some org) @ a = tenant_prefix (Some other) @ b"
  have "org @ CHR ''/'' # a = other @ CHR ''/'' # b"
    using eq by (simp add: tenant_prefix_id assms(1,2))
  then have "org = other" using split_at_inject [of "CHR ''/''" org other a b] assms(1,2) by (simp add: tenant_id_def)
  then show False using assms(3) by simp
qed

section \<open>Isolation\<close>

text \<open>A service that answers as given and keeps the calls it gets.\<close>

definition logged :: "(s3_call \<Rightarrow> exn + s3_answer) \<Rightarrow> s3_call list s3" where
  "logged answer c calls = (answer c, calls @ [c])"

text \<open>What one request adds to the calls: nothing, or one call of a member within the prefix of the organization.\<close>

definition within_tenant :: "uuid \<Rightarrow> uuid \<Rightarrow> tenancy_db \<Rightarrow> s3_call list \<Rightarrow> bool" where
  "within_tenant org caller tdb calls \<longleftrightarrow>
    calls = [] \<or> (\<exists>c s m. calls = [c] \<and> call_key c = tenant_prefix (Some org) @ s
      \<and> get_current_membership org caller tdb = Inr m)"

lemma with_bucket_calls:
  "snd (with_bucket cfg call read (logged answer) []) = [] \<or> (\<exists>b. snd (with_bucket cfg call read (logged answer) []) = [call b])"
  by (cases "bucket_name cfg") (auto simp: with_bucket_def logged_def split: sum.split)

lemma for_member_within:
  assumes "route [] = with_bucket cfg call read (logged answer) []" "\<And>b. call_key (call b) = tenant_prefix (Some org) @ s"
    "\<And>r. snd (wrap r) = snd r"
  shows "within_tenant org caller tdb (snd (for_member org caller tdb (\<lambda>st. wrap (route st)) []))"
proof (cases "get_current_membership org caller tdb")
  case (Inl e)
  then show ?thesis by (simp add: for_member_def within_tenant_def)
next
  case (Inr m)
  show ?thesis
    using with_bucket_calls [of cfg call read answer] assms Inr unfolding for_member_def within_tenant_def
    by (auto simp: assms(1))
qed

lemma answer_url_calls [simp]: "snd (answer_url cfg key r) = snd r"
  by (simp add: answer_url_def split: prod.split sum.split)

lemma routes_within_tenant:
  "within_tenant org caller tdb (snd (create_upload_url cfg org key ct caller tdb (logged answer) []))"
  "within_tenant org caller tdb (snd (create_download_url cfg org key caller tdb (logged answer) []))"
  "within_tenant org caller tdb (snd (delete_object cfg org key caller tdb (logged answer) []))"
  "within_tenant org caller tdb (snd (list_objects cfg org caller tdb (logged answer) []))"
proof -
  show "within_tenant org caller tdb (snd (create_upload_url cfg org key ct caller tdb (logged answer) []))"
  proof (cases "key = []")
    case True
    then show ?thesis by (simp add: create_upload_url_def for_member_def within_tenant_def split: sum.split)
  next
    case False
    show ?thesis unfolding create_upload_url_def presigned_put_url_def if_not_P [OF False]
      by (rule for_member_within [where s = "lstrip_slash key"]) (rule refl, simp_all add: build_key_prefix)
  qed
  show "within_tenant org caller tdb (snd (create_download_url cfg org key caller tdb (logged answer) []))"
    unfolding create_download_url_def presigned_get_url_def
    by (rule for_member_within [where s = "lstrip_slash key"]) (rule refl, simp_all add: build_key_prefix)
  show "within_tenant org caller tdb (snd (delete_object cfg org key caller tdb (logged answer) []))"
    unfolding delete_object_def remove_object_def
    by (rule for_member_within [where s = "lstrip_slash key" and wrap = "\<lambda>r. r"]) (rule refl, simp_all add: build_key_prefix)
  show "within_tenant org caller tdb (snd (list_objects cfg org caller tdb (logged answer) []))"
    unfolding list_objects_def list_keys_def
    by (rule for_member_within [where s = "[]" and wrap = "\<lambda>r. case r of (Inl e, st') \<Rightarrow> (Inl e, st')
          | (Inr ks, st') \<Rightarrow> (Inr (map (\<lambda>k. relative_key k (Some org)) ks), st')"])
      (rule refl, simp, simp split: prod.split sum.split)
qed

text \<open>C20. Tenants are isolated: whatever S3 answers, no route of one organization makes a call that names or lists a key
  of another, and none makes a call for somebody who is not a member.\<close>

theorem storage_isolated:
  assumes "tenant_id org" "tenant_id other" "org \<noteq> other"
    and "calls \<in> {snd (create_upload_url cfg org key ct caller tdb (logged answer) []),
        snd (create_download_url cfg org key caller tdb (logged answer) []),
        snd (delete_object cfg org key caller tdb (logged answer) []),
        snd (list_objects cfg org caller tdb (logged answer) [])}"
    and "c \<in> set calls"
  shows "\<not> starts_with (call_key c) (build_key key' (Some other)) \<and> (\<exists>m. get_current_membership org caller tdb = Inr m)"
proof -
  have "within_tenant org caller tdb calls" using assms(4) by (elim insertE emptyE) (simp_all add: routes_within_tenant)
  then obtain s m where s: "call_key c = tenant_prefix (Some org) @ s" "get_current_membership org caller tdb = Inr m"
    using assms(5) by (auto simp: within_tenant_def)
  have "\<not> starts_with (tenant_prefix (Some org) @ s) (tenant_prefix (Some other) @ lstrip_slash key')"
    unfolding starts_with_iff using prefixes_apart [OF assms(1,2,3)] by (metis append.assoc)
  then show ?thesis using s by (simp add: build_key_prefix)
qed

section \<open>Long listings\<close>

text \<open>A listing ends with the first page: when S3, as documented, answers at most a thousand keys and the organization
  has more, some of its objects are in no listing, and the caller is not told.\<close>

theorem listing_stops_at_first_page:
  assumes member: "get_current_membership org caller tdb = Inr m" and bucket: "bucket_name cfg = Inr b"
    and page: "svc (ListObjects b (tenant_prefix (Some org))) st
      = (Inr (Contents (Some (take 1000 (filter (starts_with (tenant_prefix (Some org))) keys)))), st)"
    and many: "distinct keys" "1000 < length (filter (starts_with (tenant_prefix (Some org))) keys)"
  shows "\<exists>ks k. list_objects cfg org caller tdb svc st = (Inr ks, st) \<and> length ks = 1000
    \<and> k \<in> set keys \<and> starts_with (tenant_prefix (Some org)) k \<and> relative_key k (Some org) \<notin> set ks"
proof -
  let ?p = "tenant_prefix (Some org)"
  let ?all = "filter (starts_with ?p) keys"
  let ?rel = "\<lambda>k. relative_key k (Some org)"
  have inj: "inj_on ?rel (set ?all)"
    by (rule inj_onI) (auto simp: starts_with_iff relative_key_prefix)
  have "drop 1000 ?all \<noteq> []" using many(2) by simp
  then obtain k where k: "k \<in> set (drop 1000 ?all)" by (meson last_in_set)
  have d: "distinct ?all" using many(1) by simp
  have "k \<notin> set (take 1000 ?all)" using k set_take_disj_set_drop_if_distinct [OF d, of 1000 1000] by blast
  moreover have mem: "k \<in> set ?all" using k by (rule in_set_dropD)
  ultimately have "?rel k \<notin> ?rel ` set (take 1000 ?all)"
    using inj_on_image_mem_iff [OF inj mem] set_take_subset [of 1000 ?all] by blast
  moreover have "list_objects cfg org caller tdb svc st = (Inr (map ?rel (take 1000 ?all)), st)"
    by (simp add: list_objects_def for_member_def member list_keys_def with_bucket_def bucket page)
  moreover have "length (map ?rel (take 1000 ?all)) = 1000" using many(2) by simp
  ultimately show ?thesis using mem by (intro exI [of _ "map ?rel (take 1000 ?all)"] exI [of _ k]) simp
qed

section \<open>Instances\<close>

definition demo_storage :: storage_config where
  "demo_storage = \<lparr>s3_bucket = Some ''b'', s3_presign_expiry_seconds = 900\<rparr>"

lemma ann_member: "get_current_membership ''o1'' ''ann'' acme_db
  = Inr \<lparr>mb_id = ''m1'', mb_org = ''o1'', mb_user = ''ann'', mb_role = OWNER\<rparr>"
  by (simp add: tenancy_eval)

lemma storage_isolated_witness:
  "snd (delete_object demo_storage ''o1'' ''/../o2/k'' ''ann'' acme_db (logged (\<lambda>_. Inr Done)) [])
      = [DeleteObject ''b'' ''orgs/o1/../o2/k'']
    \<and> \<not> starts_with ''orgs/o1/../o2/k'' (build_key ''k'' (Some ''o2''))"
proof -
  have run: "snd (delete_object demo_storage ''o1'' ''/../o2/k'' ''ann'' acme_db (logged (\<lambda>_. Inr Done)) [])
      = [DeleteObject ''b'' ''orgs/o1/../o2/k'']"
    by (simp add: delete_object_def for_member_def ann_member remove_object_def with_bucket_def bucket_name_def
        demo_storage_def logged_def build_key_def given_def lstrip_slash_def)
  have "tenant_id ''o1''" "tenant_id ''o2''" "''o1'' \<noteq> ''o2''" by (simp_all add: tenant_id_def)
  from storage_isolated [OF this, where c = "DeleteObject ''b'' ''orgs/o1/../o2/k''" and cfg = demo_storage
      and key = "''/../o2/k''" and caller = "''ann''" and tdb = acme_db and answer = "\<lambda>_. Inr Done"
      and calls = "[DeleteObject ''b'' ''orgs/o1/../o2/k'']" and key' = "''k''"]
  show ?thesis using run by simp
qed

definition many_keys :: "string list" where
  "many_keys = map (\<lambda>n. ''orgs/o1/'' @ replicate n CHR ''x'') [0..<1001]"

lemma listing_stops_at_first_page_witness:
  "\<exists>k \<in> set many_keys. \<exists>ks. list_objects demo_storage ''o1'' ''ann'' acme_db
      (\<lambda>c st. (Inr (Contents (Some (take 1000 (filter (starts_with (call_key c)) many_keys)))), st)) ()
    = (Inr ks, ()) \<and> relative_key k (Some ''o1'') \<notin> set ks"
proof -
  have p: "tenant_prefix (Some ''o1'') = ''orgs/o1/''" by (simp add: tenant_prefix_def given_def)
  have "filter (starts_with ''orgs/o1/'') many_keys = many_keys"
    unfolding filter_id_conv many_keys_def using starts_with_append [of "''orgs/o1/''"] by auto
  then have "1000 < length (filter (starts_with (tenant_prefix (Some ''o1''))) many_keys)" unfolding p
    by (simp add: many_keys_def)
  moreover have "distinct many_keys" by (auto simp: many_keys_def distinct_map inj_on_def)
  moreover have "bucket_name demo_storage = Inr ''b''" by (simp add: bucket_name_def demo_storage_def)
  ultimately show ?thesis
    using listing_stops_at_first_page [OF ann_member _ _ , where cfg = demo_storage and b = "''b''" and keys = many_keys
        and st = "()" and svc = "\<lambda>c st. (Inr (Contents (Some (take 1000 (filter (starts_with (call_key c)) many_keys)))), st)"]
    by auto
qed

end
