(* ===== verification/Perimeter.thy ===== *)
theory Perimeter imports IdempotencyMiddleware Egress begin

text \<open>
  The outer layers of the service: the middleware that hardens response headers (\<open>app/core/middleware.py\<close>), the
  one that puts the tenant of a path into the context (\<open>app/tenancy/rls.py\<close>) and the authentication of the admin panel (\<open>app/admin/auth.py\<close>). Password hashing is an argument.
\<close>

section \<open>Security headers\<close>

text \<open>\<open>MutableHeaders.setdefault\<close>: names are compared as they are stored, and the given one is lowered.\<close>

definition set_default :: "string \<Rightarrow> string \<Rightarrow> header_list \<Rightarrow> header_list" where
  "set_default name value hs = (if lower name \<in> fst ` set hs then hs else hs @ [(lower name, value)])"

record headers_config =
  csp :: string
  hsts_max_age :: int
  include_hsts :: bool

definition secured :: "headers_config \<Rightarrow> header_list \<Rightarrow> header_list" where
  "secured cfg hs =
    (let h1 = set_default ''x-content-type-options'' ''nosniff'' hs;
         h2 = set_default ''x-frame-options'' ''DENY'' h1;
         h3 = set_default ''referrer-policy'' ''strict-origin-when-cross-origin'' h2;
         h4 = (if csp cfg \<noteq> [] then set_default ''content-security-policy'' (csp cfg) h3 else h3)
     in if include_hsts cfg
        then set_default ''strict-transport-security''
               (''max-age='' @ int_str (hsts_max_age cfg) @ ''; includeSubDomains'') h4
        else h4)"

fun send_with_headers :: "headers_config \<Rightarrow> response_msg \<Rightarrow> response_msg" where
  "send_with_headers cfg (response_start status hs) = response_start status (secured cfg hs)"
| "send_with_headers cfg (response_body b) = response_body b"

definition security_headers_call :: "headers_config \<Rightarrow> 'w asgi_app \<Rightarrow> 'w asgi_app" where
  "security_headers_call cfg app scope receive w =
    (if sc_type scope \<noteq> ''http'' then app scope receive w
     else (case app scope receive w of (msgs, end, w') \<Rightarrow> (map (send_with_headers cfg) msgs, end, w')))"

section \<open>UUID texts\<close>

text \<open>\<open>uuid.UUID\<close> of a text: what is left without \<open>urn:\<close>, \<open>uuid:\<close>, braces and hyphens has to be 32 characters that
  \<open>int(_, 16)\<close> reads as a number from 0 to \<open>2 ^ 128 - 1\<close>. The result is the canonical text.\<close>

function replace_empty :: "string \<Rightarrow> string \<Rightarrow> string" where
  "replace_empty pat [] = []"
| "replace_empty pat (c # cs) =
    (if pat \<noteq> [] \<and> starts_with pat (c # cs) then replace_empty pat (drop (length pat) (c # cs))
     else c # replace_empty pat cs)"
  by pat_completeness auto
termination by (relation "measure (length \<circ> snd)") auto

definition strip_by :: "(char \<Rightarrow> bool) \<Rightarrow> string \<Rightarrow> string" where
  "strip_by p s = rev (dropWhile p (rev (dropWhile p s)))"

text \<open>Digits, with single underscores between them.\<close>

fun hex_digits :: "string \<Rightarrow> string option" where
  "hex_digits [] = None"
| "hex_digits [c] = (if hex_value c \<noteq> None then Some [c] else None)"
| "hex_digits (c # d # cs) =
    (if hex_value c = None then None
     else if d = CHR ''_'' then map_option ((#) c) (hex_digits cs)
     else map_option ((#) c) (hex_digits (d # cs)))"

definition hex_int :: "string \<Rightarrow> int option" where
  "hex_int s =
    (let t = strip_by is_space s;
         neg = starts_with ''-'' t;
         u = (if neg \<or> starts_with ''+'' t then tl t else t);
         v = (if starts_with ''0x'' u \<or> starts_with ''0X'' u
              then (if starts_with ''_'' (drop 2 u) then drop 3 u else drop 2 u) else u)
     in map_option (\<lambda>ds. if neg then - int (hexadecimal ds) else int (hexadecimal ds)) (hex_digits v))"

fun hex_text :: "nat \<Rightarrow> nat \<Rightarrow> string" where
  "hex_text 0 n = []"
| "hex_text (Suc k) n = hex_text k (n div 16) @ [hex_digit (n mod 16)]"

definition uuid_text :: "nat \<Rightarrow> uuid" where
  "uuid_text n =
    (let h = hex_text 32 n
     in take 8 h @ ''-'' @ take 4 (drop 8 h) @ ''-'' @ take 4 (drop 12 h) @ ''-'' @ take 4 (drop 16 h) @ ''-'' @ drop 20 h)"

definition parse_uuid :: "string \<Rightarrow> uuid option" where
  "parse_uuid s =
    (let hex = filter (\<lambda>c. c \<noteq> CHR ''-'')
           (strip_by (\<lambda>c. c \<in> {CHR 0x7B, CHR 0x7D}) (replace_empty ''uuid:'' (replace_empty ''urn:'' s)))
     in if length hex \<noteq> 32 then None
        else (case hex_int hex of
            Some i \<Rightarrow> if 0 \<le> i \<and> i < 2 ^ 128 then Some (uuid_text (nat i)) else None
          | None \<Rightarrow> None))"

section \<open>The tenant of a request\<close>

text \<open>The middleware of row-level security (\<open>app/tenancy/rls.py\<close>): the organization a path names, in the shape its
  pattern asks for, which lets a line feed stand at the very end.\<close>

definition uuid_shape :: "string \<Rightarrow> bool" where
  "uuid_shape t \<longleftrightarrow> length t = 36 \<and> list_all (\<lambda>i. if i \<in> {8, 13, 18, 23} then t ! i = CHR ''-'' else hex_value (t ! i) \<noteq> None) [0..<36]"

definition org_path :: "string \<Rightarrow> string option" where
  "org_path path =
    (let t = take 36 (drop 6 path); rest = drop 42 path
     in if starts_with ''/orgs/'' path \<and> uuid_shape t \<and> (rest = [] \<or> hd rest = CHR ''/'' \<or> rest = [CHR 0x0A])
        then Some t else None)"

definition tenant_of_path :: "string \<Rightarrow> uuid option" where
  "tenant_of_path path = Option.bind (org_path path) parse_uuid"

text \<open>An application that runs with a tenant in its context; whatever it leaves there is reset, also when it raises.\<close>

definition tenant_context_call ::
  "(uuid option \<Rightarrow> 'w asgi_app) \<Rightarrow> http_scope \<Rightarrow> (nat \<Rightarrow> request_msg) \<Rightarrow> uuid option \<times> 'w
    \<Rightarrow> response_msg list \<times> app_end \<times> uuid option \<times> 'w" where
  "tenant_context_call app scope receive cw =
    (case cw of (ctx, w) \<Rightarrow>
       (if sc_type scope \<noteq> ''http'' then (case app ctx scope receive w of (msgs, end, w') \<Rightarrow> (msgs, end, ctx, w'))
        else (case app (tenant_of_path (sc_path scope)) scope receive w of (msgs, end, w') \<Rightarrow> (msgs, end, ctx, w'))))"

section \<open>The admin panel\<close>

record admin_user =
  ad_id :: uuid
  ad_email :: string
  ad_hashed :: string
  ad_active :: bool
  ad_superuser :: bool

text \<open>The signed session holds at most the id of the signed-in user.\<close>

type_synonym admin_session = "string option"

definition privileged :: "admin_user \<Rightarrow> bool" where
  "privileged u \<longleftrightarrow> ad_active u \<and> ad_superuser u"

definition active_superuser_by_id :: "string \<Rightarrow> admin_user list \<Rightarrow> admin_user option" where
  "active_superuser_by_id user_id us =
    (case parse_uuid user_id of
       None \<Rightarrow> None
     | Some uid \<Rightarrow>
         (case lookup_by ad_id uid us of
            None \<Rightarrow> None
          | Some u \<Rightarrow> if \<not> ad_active u \<or> \<not> ad_superuser u then None else Some u))"

text \<open>The form's fields, absent ones as empty. Two accounts whose addresses differ in case only make the query fail.\<close>

definition admin_login ::
  "(string \<Rightarrow> string \<Rightarrow> bool) \<Rightarrow> string \<Rightarrow> string \<Rightarrow> admin_user list \<Rightarrow> admin_session \<Rightarrow> (exn + bool) \<times> admin_session" where
  "admin_login verify username password us session =
    (let email = strip_by is_space username
     in if email = [] \<or> password = [] then (Inr False, session)
        else (case filter (\<lambda>u. lower (ad_email u) = lower email) us of
            [] \<Rightarrow> (Inr False, session)
          | [u] \<Rightarrow>
              if \<not> ad_active u \<or> \<not> ad_superuser u then (Inr False, session)
              else if \<not> verify password (ad_hashed u) then (Inr False, session)
              else (Inr True, Some (ad_id u))
          | _ \<Rightarrow> (Inl MultipleResultsFound, session)))"

definition admin_logout :: "admin_session \<Rightarrow> bool \<times> admin_session" where
  "admin_logout session = (True, None)"

definition admin_authenticate :: "admin_user list \<Rightarrow> admin_session \<Rightarrow> bool" where
  "admin_authenticate us session =
    (case session of
       Some (c # cs) \<Rightarrow> active_superuser_by_id (c # cs) us \<noteq> None
     | _ \<Rightarrow> False)"

end
