(* ===== verification/PerimeterProps.thy ===== *)
theory PerimeterProps imports Perimeter begin

text \<open>
  Properties of the outer layers: what the middleware adds to a response, and who the admin panel lets in.
\<close>

section \<open>Response headers\<close>

text \<open>The headers a response ends up with, whatever the application set.\<close>

definition required :: "headers_config \<Rightarrow> header_list" where
  "required cfg =
    [(''x-content-type-options'', ''nosniff''), (''x-frame-options'', ''DENY''),
     (''referrer-policy'', ''strict-origin-when-cross-origin'')]
    @ (if csp cfg \<noteq> [] then [(''content-security-policy'', csp cfg)] else [])
    @ (if include_hsts cfg
       then [(''strict-transport-security'', ''max-age='' @ int_str (hsts_max_age cfg) @ ''; includeSubDomains'')] else [])"

definition completed :: "headers_config \<Rightarrow> header_list \<Rightarrow> header_list" where
  "completed cfg hs = hs @ filter (\<lambda>(n, v). n \<notin> fst ` set hs) (required cfg)"

lemma lower_names:
  "lower ''x-content-type-options'' = ''x-content-type-options''" "lower ''x-frame-options'' = ''x-frame-options''"
  "lower ''referrer-policy'' = ''referrer-policy''" "lower ''content-security-policy'' = ''content-security-policy''"
  "lower ''strict-transport-security'' = ''strict-transport-security''"
  by (simp_all add: lower_def lower_char_def)

lemma set_default_append:
  "lower n = n \<Longrightarrow> set_default n v (hs @ xs)
    = hs @ (if n \<in> fst ` set hs then xs else set_default n v xs)"
  by (auto simp: set_default_def)

lemma secured_completed: "secured cfg hs = completed cfg hs"
proof -
  have "secured cfg (hs @ []) = completed cfg hs"
    unfolding secured_def completed_def required_def Let_def
    by (simp only: set_default_append lower_names) (simp add: set_default_def lower_names)
  then show ?thesis by simp
qed

lemma completed_idem: "completed cfg (completed cfg hs) = completed cfg hs"
proof -
  have "fst x \<in> fst ` set (completed cfg hs)" if "x \<in> set (required cfg)" for x
  proof (cases "fst x \<in> fst ` set hs")
    case True
    then show ?thesis by (auto simp: completed_def)
  next
    case False
    then have "x \<in> set (filter (\<lambda>(n, v). n \<notin> fst ` set hs) (required cfg))" using that by (simp add: split_beta)
    then show ?thesis unfolding completed_def set_append image_Un by blast
  qed
  then have "filter (\<lambda>(n, v). n \<notin> fst ` set (completed cfg hs)) (required cfg) = []"
    by (auto simp: filter_empty_conv)
  then show ?thesis unfolding completed_def [of cfg "completed cfg hs"] by simp
qed

text \<open>The middleware completes every response of an HTTP request: the headers the application set stay, in place and
  with their values, each required header it did not set is added once, nothing else of the messages changes,
  and the middleware inside itself does what it does once.\<close>

theorem responses_completed:
  "security_headers_call cfg app scope receive w =
    (case app scope receive w of (msgs, end, w') \<Rightarrow>
       (if sc_type scope = ''http''
        then map (\<lambda>m. case m of response_start status hs \<Rightarrow> response_start status (completed cfg hs) | response_body b \<Rightarrow> m) msgs
        else msgs, end, w'))
   \<and> security_headers_call cfg (security_headers_call cfg app) scope receive w = security_headers_call cfg app scope receive w"
proof -
  have send: "send_with_headers cfg = (\<lambda>m. case m of response_start status hs \<Rightarrow> response_start status (completed cfg hs)
      | response_body b \<Rightarrow> m)"
    by (rule ext) (simp add: secured_completed split: response_msg.split)
  have "send_with_headers cfg (send_with_headers cfg m) = send_with_headers cfg m" for m
    by (cases m) (simp_all add: secured_completed completed_idem)
  then show ?thesis
    unfolding security_headers_call_def send [symmetric] by (simp split: prod.split)
qed

section \<open>The tenant\<close>

lemma org_path_iff:
  "org_path path = Some t \<longleftrightarrow> (\<exists>rest. path = ''/orgs/'' @ t @ rest \<and> uuid_shape t
    \<and> (rest = [] \<or> hd rest = CHR ''/'' \<or> rest = [CHR 0x0A]))"
proof
  assume r: "org_path path = Some t"
  then have "starts_with ''/orgs/'' path" "t = take 36 (drop 6 path)" "uuid_shape t"
    "drop 42 path = [] \<or> hd (drop 42 path) = CHR ''/'' \<or> drop 42 path = [CHR 0x0A]"
    by (auto simp: org_path_def Let_def split: if_splits)
  moreover from this(1) obtain s where s: "path = ''/orgs/'' @ s" unfolding starts_with_iff by blast
  moreover have "s = take 36 s @ drop 36 s" by simp
  ultimately show "\<exists>rest. path = ''/orgs/'' @ t @ rest \<and> uuid_shape t
      \<and> (rest = [] \<or> hd rest = CHR ''/'' \<or> rest = [CHR 0x0A])"
    by (intro exI [of _ "drop 36 s"]) simp
next
  assume "\<exists>rest. path = ''/orgs/'' @ t @ rest \<and> uuid_shape t \<and> (rest = [] \<or> hd rest = CHR ''/'' \<or> rest = [CHR 0x0A])"
  then obtain rest where p: "path = ''/orgs/'' @ t @ rest" "uuid_shape t" "rest = [] \<or> hd rest = CHR ''/'' \<or> rest = [CHR 0x0A]"
    by blast
  have "length t = 36" using p(2) by (simp add: uuid_shape_def)
  then have "take 36 (drop 6 path) = t" "drop 42 path = rest" unfolding p(1) by simp_all
  moreover have "starts_with ''/orgs/'' path" unfolding p(1) by (rule starts_with_append)
  ultimately show "org_path path = Some t" using p(2,3) by (simp add: org_path_def Let_def)
qed

text \<open>While a request for a path of an organization is served, the context holds the canonical id of exactly that
  organization, for every other path it holds none, and after the request it holds again what it held before.\<close>

theorem tenant_follows_path:
  assumes http: "sc_type scope = ''http''"
    and run: "tenant_context_call app scope receive (ctx, w) = (msgs, end, ctx', w')"
  shows "ctx' = ctx
    \<and> (\<exists>tenant. app tenant scope receive w = (msgs, end, w')
      \<and> (\<forall>u. tenant = Some u \<longleftrightarrow> (\<exists>t rest. sc_path scope = ''/orgs/'' @ t @ rest \<and> uuid_shape t
          \<and> (rest = [] \<or> hd rest = CHR ''/'' \<or> rest = [CHR 0x0A]) \<and> parse_uuid t = Some u)))"
proof
  show "ctx' = ctx" using run by (auto simp: tenant_context_call_def split: prod.splits if_splits)
  have "app (tenant_of_path (sc_path scope)) scope receive w = (msgs, end, w')"
    using run http by (auto simp: tenant_context_call_def split: prod.splits)
  moreover have "tenant_of_path (sc_path scope) = Some u \<longleftrightarrow> (\<exists>t rest. sc_path scope = ''/orgs/'' @ t @ rest \<and> uuid_shape t
          \<and> (rest = [] \<or> hd rest = CHR ''/'' \<or> rest = [CHR 0x0A]) \<and> parse_uuid t = Some u)" for u
    unfolding tenant_of_path_def Option.bind_eq_Some_conv org_path_iff by blast
  ultimately show "\<exists>tenant. app tenant scope receive w = (msgs, end, w')
      \<and> (\<forall>u. tenant = Some u \<longleftrightarrow> (\<exists>t rest. sc_path scope = ''/orgs/'' @ t @ rest \<and> uuid_shape t
          \<and> (rest = [] \<or> hd rest = CHR ''/'' \<or> rest = [CHR 0x0A]) \<and> parse_uuid t = Some u))" by blast
qed

section \<open>The admin panel\<close>

lemma parse_uuid_empty [simp]: "parse_uuid [] = None"
  by (simp add: parse_uuid_def strip_by_def)

lemma admin_authenticate_iff:
  assumes "unique_on ad_id us"
  shows "admin_authenticate us session
    \<longleftrightarrow> (\<exists>s. session = Some s \<and> (\<exists>u \<in> set us. parse_uuid s = Some (ad_id u) \<and> privileged u))"
proof (cases session)
  case None
  then show ?thesis by (simp add: admin_authenticate_def)
next
  case (Some s)
  have "admin_authenticate us session \<longleftrightarrow> active_superuser_by_id s us \<noteq> None"
    using Some by (cases s) (simp_all add: admin_authenticate_def active_superuser_by_id_def)
  also have "\<dots> \<longleftrightarrow> (\<exists>u \<in> set us. parse_uuid s = Some (ad_id u) \<and> privileged u)"
  proof (cases "parse_uuid s")
    case None
    then show ?thesis by (simp add: active_superuser_by_id_def)
  next
    case (Some i)
    then have "active_superuser_by_id s us \<noteq> None \<longleftrightarrow> (\<exists>u. lookup_by ad_id i us = Some u \<and> privileged u)"
      by (auto simp: active_superuser_by_id_def privileged_def split: option.split)
    then show ?thesis using Some lookup_by_Some_iff [OF assms] by auto
  qed
  finally show ?thesis using Some by simp
qed

text \<open>C31. The admin panel is open to active superusers only, and only as long as they are: a login that succeeds was made
  with the password of an active superuser, and the session it leaves is let in, at any later state of the user table,
  exactly when that user is an active superuser then.\<close>

theorem admin_access_follows_table:
  assumes login: "admin_login verify username password us session = (Inr True, session')"
    and ids: "list_all (\<lambda>u. parse_uuid (ad_id u) = Some (ad_id u)) us"
    and later: "unique_on ad_id us'"
  shows "\<exists>u \<in> set us. lower (ad_email u) = lower (strip_by is_space username) \<and> privileged u
    \<and> verify password (ad_hashed u)
    \<and> (admin_authenticate us' session' \<longleftrightarrow> (\<exists>v \<in> set us'. ad_id v = ad_id u \<and> privileged v))"
proof -
  let ?hits = "filter (\<lambda>u. lower (ad_email u) = lower (strip_by is_space username)) us"
  obtain u where u: "?hits = [u]" "privileged u" "verify password (ad_hashed u)" "session' = Some (ad_id u)"
    using login by (auto simp: admin_login_def privileged_def Let_def split: if_splits list.splits)
  have "u \<in> set ?hits" using u(1) by simp
  then have mem: "u \<in> set us" "lower (ad_email u) = lower (strip_by is_space username)" by simp_all
  moreover have "parse_uuid (ad_id u) = Some (ad_id u)" using ids mem(1) by (simp add: list_all_iff)
  moreover have "admin_authenticate us' session' \<longleftrightarrow> (\<exists>v \<in> set us'. ad_id v = ad_id u \<and> privileged v)"
    unfolding admin_authenticate_iff [OF later] u(4) using \<open>parse_uuid (ad_id u) = Some (ad_id u)\<close>
    by (auto simp: eq_commute [of "ad_id u"])
  ultimately show ?thesis using u(2,3) by blast
qed

definition root_id :: uuid where
  "root_id = ''00000000-0000-0000-0000-00000000000a''"

definition root_user :: admin_user where
  "root_user = \<lparr>ad_id = root_id, ad_email = ''root@x.test'', ad_hashed = ''h:pw'', ad_active = True, ad_superuser = True\<rparr>"

lemma hex_text_small: "n < 16 \<Longrightarrow> hex_text (Suc k) n = replicate k CHR ''0'' @ [hex_digit n]"
proof (induction k arbitrary: n)
  case 0
  then show ?case by simp
next
  case (Suc k)
  have "hex_text (Suc k) 0 = replicate k CHR ''0'' @ [hex_digit 0]" using Suc.IH [of 0] by simp
  moreover have "hex_digit 0 = CHR ''0''" by (simp add: hex_digit_def)
  ultimately show ?case using Suc.prems by (simp add: replicate_append_same)
qed

lemma root_id_canonical: "parse_uuid root_id = Some root_id"
proof -
  have hex: "filter (\<lambda>c. c \<noteq> CHR ''-'')
      (strip_by (\<lambda>c. c \<in> {CHR 0x7B, CHR 0x7D}) (replace_empty ''uuid:'' (replace_empty ''urn:'' root_id)))
      = ''0000000000000000000000000000000a''"
    by (simp add: root_id_def strip_by_def)
  have int: "hex_int ''0000000000000000000000000000000a'' = Some 10"
  proof -
    have v: "hex_value CHR ''0'' = Some 0" "hex_value CHR ''a'' = Some 10" "\<not> is_space CHR ''0''" "\<not> is_space CHR ''a''"
      by (simp_all add: hex_value_def is_digit_def less_eq_char_def is_space_def)
    have "hex_digits ''0000000000000000000000000000000a'' = Some ''0000000000000000000000000000000a''" by (simp add: v)
    moreover have "strip_by is_space ''0000000000000000000000000000000a'' = ''0000000000000000000000000000000a''"
      by (simp add: strip_by_def v)
    moreover have "hexadecimal ''0000000000000000000000000000000a'' = 10" by (simp add: hexadecimal_def v)
    ultimately show ?thesis by (simp add: hex_int_def)
  qed
  have "hex_text 32 10 = ''0000000000000000000000000000000a''"
  proof -
    have "hex_text (Suc 31) 10 = replicate 31 CHR ''0'' @ [hex_digit 10]" by (rule hex_text_small) simp
    moreover have "replicate 31 CHR ''0'' = ''0000000000000000000000000000000''" by (simp add: numeral_eq_Suc)
    moreover have "hex_digit 10 = CHR ''a''" by (simp add: hex_digit_def)
    moreover have "Suc 31 = 32" by simp
    ultimately show ?thesis by (simp only: append.simps)
  qed
  then have uuid: "uuid_text 10 = root_id" by (simp add: uuid_text_def root_id_def)
  show ?thesis unfolding parse_uuid_def Let_def hex int by (simp add: uuid)
qed

lemma root_id_shape: "uuid_shape root_id"
  by (simp add: uuid_shape_def root_id_def upt_rec numeral_eq_Suc hex_value_def is_digit_def less_eq_char_def)

lemma root_path: "tenant_of_path (''/orgs/'' @ root_id) = Some root_id"
proof -
  have "org_path (''/orgs/'' @ root_id) = Some root_id"
    unfolding org_path_iff by (rule exI [of _ "[]"]) (simp add: root_id_shape)
  then show ?thesis by (simp add: tenant_of_path_def root_id_canonical)
qed

lemma admin_access_follows_table_witness:
  "\<not> admin_authenticate [root_user\<lparr>ad_superuser := False\<rparr>]
     (snd (admin_login (\<lambda>p h. h = ''h:'' @ p) '' root@x.test '' ''pw'' [root_user] None))"
proof -
  have login: "admin_login (\<lambda>p h. h = ''h:'' @ p) '' root@x.test '' ''pw'' [root_user] None = (Inr True, Some root_id)"
    by (simp add: admin_login_def root_user_def strip_by_def is_space_def lower_def lower_char_def)
  have "list_all (\<lambda>u. parse_uuid (ad_id u) = Some (ad_id u)) [root_user]" by (simp add: root_user_def root_id_canonical)
  moreover have "unique_on ad_id [root_user\<lparr>ad_superuser := False\<rparr>]" by (simp add: unique_on_def)
  ultimately show ?thesis using admin_access_follows_table [OF login] login by (auto simp: privileged_def)
qed

definition seen_tenant :: "uuid option \<Rightarrow> uuid option list asgi_app" where
  "seen_tenant tenant scope receive w = ([], Returned, w @ [tenant])"

lemma tenant_follows_path_witness:
  "tenant_context_call seen_tenant \<lparr>sc_type = ''http'', sc_method = ''GET'', sc_path = ''/orgs/'' @ root_id @ ''/members'',
      sc_headers = [], sc_client = None\<rparr> (\<lambda>_. http_disconnect) (None, []) = ([], Returned, None, [Some root_id])"
proof -
  let ?scope = "\<lparr>sc_type = ''http'', sc_method = ''GET'', sc_path = ''/orgs/'' @ root_id @ ''/members'',
      sc_headers = [], sc_client = None\<rparr>"
  obtain w' ctx' where run: "tenant_context_call seen_tenant ?scope (\<lambda>_. http_disconnect) (None, []) = ([], Returned, ctx', w')"
    by (simp add: tenant_context_call_def seen_tenant_def)
  have "\<exists>t rest. sc_path ?scope = ''/orgs/'' @ t @ rest \<and> uuid_shape t
      \<and> (rest = [] \<or> hd rest = CHR ''/'' \<or> rest = [CHR 0x0A]) \<and> parse_uuid t = Some root_id"
    by (intro exI [of _ root_id] exI [of _ "''/members''"]) (simp add: root_id_canonical root_id_shape)
  moreover have "sc_type ?scope = ''http''" by simp
  ultimately show ?thesis using tenant_follows_path [OF _ run] run by (auto simp: seen_tenant_def)
qed

end
