(* ===== verification/Rls.thy ===== *)
theory Rls imports PerimeterProps begin

text \<open>
  Row-level security: the tenant setting of a transaction (\<open>app/db/session.py.jinja\<close>), the policies of the tenant
  tables (\<open>migrations/versions/0008_rls.py\<close>, \<open>0013_rls_backfill.py\<close>) and the transactions that run under them on
  pooled connections. PostgreSQL's part is what its manual says of \<open>set_config\<close>, \<open>current_setting\<close> and row
  security; casting a canonical text to \<open>uuid\<close> is the identity. Tables stand for any of the tenant tables:
  a row is its organization and its other columns.
\<close>

section \<open>Policies\<close>

type_synonym 'c tenant_row = "uuid \<times> 'c"

text \<open>\<open>NULLIF(current_setting('app.current_tenant', true), '')\<close>: the setting, unless it is unset or empty.\<close>

definition policy_tenant :: "string option \<Rightarrow> uuid option" where
  "policy_tenant setting = (case setting of None \<Rightarrow> None | Some t \<Rightarrow> if t = [] then None else Some t)"

definition policy_using :: "string option \<Rightarrow> 'c tenant_row \<Rightarrow> bool" where
  "policy_using setting row = (case policy_tenant setting of None \<Rightarrow> False | Some t \<Rightarrow> fst row = t)"

definition policy_check :: "string option \<Rightarrow> 'c tenant_row \<Rightarrow> bool" where
  "policy_check setting row = (policy_tenant setting = None \<or> policy_using setting row)"

section \<open>Connections and sessions\<close>

datatype rls_mode = tenant | bypass

text \<open>A physical connection: the role it logged in as, the value the setting has outside of transactions, and the
  transaction-local value while one is open.\<close>

record pg_conn =
  pc_bypassrls :: bool
  pc_session_guc :: "string option"
  pc_local_guc :: "string option"

definition current_setting :: "pg_conn \<Rightarrow> string option" where
  "current_setting c = (case pc_local_guc c of None \<Rightarrow> pc_session_guc c | Some t \<Rightarrow> Some t)"

definition set_config_local :: "string \<Rightarrow> pg_conn \<Rightarrow> pg_conn" where
  "set_config_local value c = c\<lparr>pc_local_guc := Some value\<rparr>"

text \<open>The hook at the start of every transaction. The warning about a factory without a tag is only logged.\<close>

definition apply_tenant_context :: "string \<Rightarrow> rls_mode option \<Rightarrow> uuid option \<Rightarrow> pg_conn \<Rightarrow> pg_conn" where
  "apply_tenant_context dialect mode current_tenant c =
    (if dialect \<noteq> ''postgresql'' then c
     else (case mode of
         None \<Rightarrow> c
       | Some m \<Rightarrow>
           set_config_local (case m of bypass \<Rightarrow> [] | tenant \<Rightarrow> (case current_tenant of None \<Rightarrow> [] | Some t \<Rightarrow> t)) c))"

text \<open>When a transaction ends, PostgreSQL drops what was set for it alone.\<close>

definition end_transaction :: "pg_conn \<Rightarrow> pg_conn" where
  "end_transaction c = c\<lparr>pc_local_guc := None\<rparr>"

text \<open>The privileged session: the role is looked up until it was seen to bypass the policies once.\<close>

definition get_privileged_session :: "string \<Rightarrow> bool \<Rightarrow> bool \<Rightarrow> (exn + rls_mode) \<times> bool" where
  "get_privileged_session dialect role_bypasses verified =
    (if \<not> verified \<and> dialect = ''postgresql''
     then (if \<not> role_bypasses then (Inl (RuntimeError ''PrivilegedRoleMisconfigured''), verified)
           else (Inr bypass, True))
     else (Inr bypass, verified))"

section \<open>Statements\<close>

datatype 'c statement =
    Insert "'c tenant_row"
  | Update "'c tenant_row \<Rightarrow> bool" "'c tenant_row \<Rightarrow> 'c tenant_row"
  | Delete "'c tenant_row \<Rightarrow> bool"

definition visible :: "pg_conn \<Rightarrow> 'c tenant_row \<Rightarrow> bool" where
  "visible c row \<longleftrightarrow> pc_bypassrls c \<or> policy_using (current_setting c) row"

definition writable :: "pg_conn \<Rightarrow> 'c tenant_row \<Rightarrow> bool" where
  "writable c row \<longleftrightarrow> pc_bypassrls c \<or> policy_check (current_setting c) row"

definition run_select :: "pg_conn \<Rightarrow> ('c tenant_row \<Rightarrow> bool) \<Rightarrow> 'c tenant_row list \<Rightarrow> 'c tenant_row list" where
  "run_select c P rows = filter (\<lambda>r. visible c r \<and> P r) rows"

text \<open>A write reaches the visible rows and fails when a new row is not writable.\<close>

fun run_write :: "pg_conn \<Rightarrow> 'c statement \<Rightarrow> 'c tenant_row list \<Rightarrow> 'c tenant_row list option" where
  "run_write c (Insert row) rows = (if writable c row then Some (rows @ [row]) else None)"
| "run_write c (Update P f) rows =
    (if list_all (\<lambda>r. writable c (f r)) (run_select c P rows)
     then Some (update_where (\<lambda>r. visible c r \<and> P r) f rows) else None)"
| "run_write c (Delete P) rows = Some (delete_where (\<lambda>r. visible c r \<and> P r) rows)"

fun run_writes :: "pg_conn \<Rightarrow> 'c statement list \<Rightarrow> 'c tenant_row list \<Rightarrow> 'c tenant_row list option" where
  "run_writes c [] rows = Some rows"
| "run_writes c (x # xs) rows = Option.bind (run_write c x rows) (run_writes c xs)"

section \<open>Transactions on pooled connections\<close>

text \<open>
  An open transaction serves a request for a path: its session has a mode, and it has written so far. Several
  are open at once, each on a connection of its own, and a connection goes from one request to any other. What
  was read and what was committed is recorded, the latter with the table before and after.
\<close>

record 'c open_tx =
  ot_mode :: "rls_mode option"
  ot_path :: string
  ot_writes :: "'c statement list"

datatype 'c access =
    Read "rls_mode option" string "'c tenant_row list"
  | Wrote "rls_mode option" string "'c tenant_row list" "'c tenant_row list"

record 'c rls_world =
  rw_rows :: "'c tenant_row list"
  rw_conns :: "nat \<Rightarrow> pg_conn"
  rw_open :: "nat \<Rightarrow> 'c open_tx option"
  rw_log :: "'c access list"

text \<open>The engine of a session decides the role: the privileged one, and only that, bypasses the policies.\<close>

inductive rls_step :: "'c rls_world \<Rightarrow> 'c rls_world \<Rightarrow> bool" where
  begins: "rw_open w i = None \<Longrightarrow> pc_bypassrls (rw_conns w i) = (mode = Some bypass) \<Longrightarrow>
    rls_step w (w\<lparr>rw_open := (rw_open w)(i \<mapsto> \<lparr>ot_mode = mode, ot_path = path, ot_writes = []\<rparr>),
      rw_conns := (rw_conns w)(i := apply_tenant_context ''postgresql'' mode (tenant_of_path path) (rw_conns w i))\<rparr>)"
| reads: "rw_open w i = Some t \<Longrightarrow> run_writes (rw_conns w i) (ot_writes t) (rw_rows w) = Some seen \<Longrightarrow>
    rls_step w (w\<lparr>rw_log := Read (ot_mode t) (ot_path t) (run_select (rw_conns w i) P seen) # rw_log w\<rparr>)"
| writes: "rw_open w i = Some t \<Longrightarrow>
    rls_step w (w\<lparr>rw_open := (rw_open w)(i \<mapsto> t\<lparr>ot_writes := ot_writes t @ [x]\<rparr>)\<rparr>)"
| commits_tx: "rw_open w i = Some t \<Longrightarrow> run_writes (rw_conns w i) (ot_writes t) (rw_rows w) = Some rows' \<Longrightarrow>
    rls_step w (w\<lparr>rw_rows := rows', rw_conns := (rw_conns w)(i := end_transaction (rw_conns w i)),
      rw_open := (rw_open w)(i := None), rw_log := Wrote (ot_mode t) (ot_path t) (rw_rows w) rows' # rw_log w\<rparr>)"
| rolls_back: "rw_open w i = Some t \<Longrightarrow>
    rls_step w (w\<lparr>rw_conns := (rw_conns w)(i := end_transaction (rw_conns w i)), rw_open := (rw_open w)(i := None)\<rparr>)"

text \<open>New connections: nothing was set on them, or the empty text that a transaction-local value leaves behind.\<close>

definition fresh_pool :: "'c rls_world \<Rightarrow> bool" where
  "fresh_pool w \<longleftrightarrow> rw_open w = (\<lambda>_. None) \<and> rw_log w = []
     \<and> (\<forall>i. pc_local_guc (rw_conns w i) = None \<and> policy_tenant (pc_session_guc (rw_conns w i)) = None)"

text \<open>What an access may do: without the privileged role it reads rows of the organization of its path and
  changes no others; without an organization in the path, or without a tag, it reads nothing and can only add.\<close>

definition access_tenant :: "rls_mode option \<Rightarrow> string \<Rightarrow> uuid option" where
  "access_tenant mode path = (if mode = Some tenant then tenant_of_path path else None)"

definition others :: "uuid \<Rightarrow> 'c tenant_row list \<Rightarrow> 'c tenant_row list" where
  "others t rows = filter (\<lambda>r. fst r \<noteq> t) rows"

fun access_allowed :: "'c access \<Rightarrow> bool" where
  "access_allowed (Read mode path seen) =
    (mode = Some bypass \<or> list_all (\<lambda>r. access_tenant mode path = Some (fst r)) seen)"
| "access_allowed (Wrote mode path before after) =
    (mode = Some bypass \<or> (case access_tenant mode path of
       None \<Rightarrow> \<exists>new. after = before @ new
     | Some t \<Rightarrow> others t after = others t before))"

section \<open>Isolation\<close>

lemma tenant_not_empty: "tenant_of_path path = Some t \<Longrightarrow> t \<noteq> []"
  by (auto simp: tenant_of_path_def parse_uuid_def uuid_text_def Let_def bind_eq_Some_conv split: if_splits option.splits)

lemma run_write_scoped:
  assumes "\<not> pc_bypassrls c" "policy_tenant (current_setting c) = Some t" "run_write c x rows = Some rows'"
  shows "others t rows' = others t rows"
proof -
  have vis: "visible c r \<longleftrightarrow> fst r = t" and wr: "writable c r \<longleftrightarrow> fst r = t" for r
    using assms(1,2) by (auto simp: visible_def writable_def policy_using_def policy_check_def)
  show ?thesis
  proof (cases x)
    case (Insert row)
    then show ?thesis using assms(3) wr [of row] by (auto simp: others_def split: if_splits)
  next
    case (Update P f)
    then have rows': "rows' = update_where (\<lambda>r. fst r = t \<and> P r) f rows"
      and f: "\<forall>r \<in> set rows. fst r = t \<and> P r \<longrightarrow> fst (f r) = t"
      using assms(3) by (auto simp: vis wr run_select_def list_all_iff split: if_splits)
    show ?thesis unfolding rows' using f by (induction rows) (auto simp: others_def)
  next
    case (Delete P)
    then have rows': "rows' = delete_where (\<lambda>r. fst r = t \<and> P r) rows" using assms(3) by (simp add: vis)
    show ?thesis unfolding rows' by (induction rows) (auto simp: others_def delete_where_def)
  qed
qed

lemma run_writes_scoped:
  "\<not> pc_bypassrls c \<Longrightarrow> policy_tenant (current_setting c) = Some t \<Longrightarrow> run_writes c xs rows = Some rows' \<Longrightarrow>
    others t rows' = others t rows"
  by (induction xs arbitrary: rows) (auto simp: bind_eq_Some_conv dest: run_write_scoped)

lemma run_write_blind:
  assumes "\<not> pc_bypassrls c" "policy_tenant (current_setting c) = None" "run_write c x rows = Some rows'"
  shows "\<exists>new. rows' = rows @ new"
proof -
  have vis: "visible c r = False" for r using assms(1,2) by (simp add: visible_def policy_using_def)
  show ?thesis
  proof (cases x)
    case (Insert row)
    then show ?thesis using assms(3) by (auto split: if_splits)
  next
    case (Update P f)
    then show ?thesis using assms(3) by (simp add: vis run_select_def update_where_none)
  next
    case (Delete P)
    then show ?thesis using assms(3) by (simp add: vis delete_where_def)
  qed
qed

lemma run_writes_blind:
  "\<not> pc_bypassrls c \<Longrightarrow> policy_tenant (current_setting c) = None \<Longrightarrow> run_writes c xs rows = Some rows' \<Longrightarrow>
    \<exists>new. rows' = rows @ new"
proof (induction xs arbitrary: rows)
  case (Cons x xs)
  then obtain mid where mid: "run_write c x rows = Some mid" "run_writes c xs mid = Some rows'"
    by (auto simp: bind_eq_Some_conv)
  then obtain a b where "mid = rows @ a" "rows' = mid @ b"
    using run_write_blind [OF Cons.prems(1,2) mid(1)] Cons.IH [OF Cons.prems(1,2) mid(2)] by blast
  then show ?case by simp
qed simp

lemma run_select_scoped:
  "\<not> pc_bypassrls c \<Longrightarrow> list_all (\<lambda>r. policy_tenant (current_setting c) = Some (fst r)) (run_select c P rows)"
  by (auto simp: run_select_def list_all_iff visible_def policy_using_def split: option.splits)

text \<open>The invariant: while a transaction is open, the setting of its connection is the tenant of its path.\<close>

definition conn_ok :: "pg_conn \<Rightarrow> 'c open_tx option \<Rightarrow> bool" where
  "conn_ok c t \<longleftrightarrow> policy_tenant (pc_session_guc c) = None \<and>
    (case t of
       None \<Rightarrow> pc_local_guc c = None
     | Some x \<Rightarrow> pc_bypassrls c = (ot_mode x = Some bypass)
         \<and> policy_tenant (current_setting c) = access_tenant (ot_mode x) (ot_path x))"

definition rls_inv :: "'c rls_world \<Rightarrow> bool" where
  "rls_inv w \<longleftrightarrow> (\<forall>i. conn_ok (rw_conns w i) (rw_open w i)) \<and> list_all access_allowed (rw_log w)"

lemma conn_ok_begin:
  assumes "conn_ok c None" "pc_bypassrls c = (mode = Some bypass)"
  shows "conn_ok (apply_tenant_context ''postgresql'' mode (tenant_of_path path) c)
    (Some \<lparr>ot_mode = mode, ot_path = path, ot_writes = []\<rparr>)"
  using assms tenant_not_empty [of path]
  by (auto simp: conn_ok_def apply_tenant_context_def set_config_local_def current_setting_def policy_tenant_def
      access_tenant_def split: option.splits rls_mode.splits)

lemma conn_ok_end: "conn_ok c t \<Longrightarrow> conn_ok (end_transaction c) None"
  by (simp add: conn_ok_def end_transaction_def)

lemma rls_inv_conn: "rls_inv w \<Longrightarrow> rw_open w i = t \<Longrightarrow> conn_ok (rw_conns w i) t"
  by (auto simp: rls_inv_def)

lemma rls_step_inv: "rls_step w w' \<Longrightarrow> rls_inv w \<Longrightarrow> rls_inv w'"
proof (induction rule: rls_step.induct)
  case (begins w i mode path)
  have "conn_ok (rw_conns w i) (rw_open w i)" by (rule rls_inv_conn [OF begins.prems refl])
  then show ?case using begins conn_ok_begin by (simp add: rls_inv_def)
next
  case (reads w i t seen P)
  then have "conn_ok (rw_conns w i) (Some t)" by (simp add: rls_inv_conn)
  then have "access_allowed (Read (ot_mode t) (ot_path t) (run_select (rw_conns w i) P seen))"
    using run_select_scoped [of "rw_conns w i" P seen] by (auto simp: conn_ok_def)
  then show ?case using reads by (simp add: rls_inv_def)
next
  case (writes w i t x)
  then have "conn_ok (rw_conns w i) (Some t)" by (simp add: rls_inv_conn)
  then show ?case using writes by (simp add: rls_inv_def conn_ok_def)
next
  case (commits_tx w i t rows')
  then have ok: "conn_ok (rw_conns w i) (Some t)" by (simp add: rls_inv_conn)
  then have "access_allowed (Wrote (ot_mode t) (ot_path t) (rw_rows w) rows')"
    using run_writes_scoped [OF _ _ commits_tx.hyps(2)] run_writes_blind [OF _ _ commits_tx.hyps(2)]
    by (auto simp: conn_ok_def split: option.split)
  then show ?case using commits_tx conn_ok_end [OF ok] by (simp add: rls_inv_def)
next
  case (rolls_back w i t)
  then have ok: "conn_ok (rw_conns w i) (Some t)" by (simp add: rls_inv_conn)
  then show ?case using rolls_back conn_ok_end [OF ok] by (simp add: rls_inv_def)
qed

lemma rls_steps_inv: "rls_step\<^sup>*\<^sup>* w w' \<Longrightarrow> rls_inv w \<Longrightarrow> rls_inv w'"
  by (induction rule: rtranclp_induct) (auto intro: rls_step_inv)

text \<open>C6. However transactions of requests for any paths interleave on pooled connections, each reads only rows of the
  organization that its own path names and changes no row of another, whatever its queries ask for.\<close>

theorem transactions_isolated:
  assumes "fresh_pool w" and "rls_step\<^sup>*\<^sup>* w w'"
  shows "list_all access_allowed (rw_log w')"
proof -
  have "rls_inv w" using assms(1) by (simp add: fresh_pool_def rls_inv_def conn_ok_def)
  then show ?thesis using rls_steps_inv [OF assms(2)] by (simp add: rls_inv_def)
qed

text \<open>A path with the id of an organization in 32 digits without hyphens, which the routes accept as a UUID, sets no
  tenant: its transactions read no row, and a row they insert is not checked, whatever organization it names.\<close>

theorem plain_id_loses_tenant:
  assumes plain: "CHR ''-'' \<notin> set t" "length t = 32" and c: "\<not> pc_bypassrls c" "policy_tenant (pc_session_guc c) = None"
  shows "apply_tenant_context ''postgresql'' (Some tenant) (tenant_of_path (''/orgs/'' @ t @ rest)) c = set_config_local [] c
    \<and> run_select (set_config_local [] c) P rows = []
    \<and> run_write (set_config_local [] c) (Insert row) rows = Some (rows @ [row])"
proof -
  have "org_path (''/orgs/'' @ t @ rest) = None"
  proof (cases "org_path (''/orgs/'' @ t @ rest)")
    case (Some u)
    then obtain r where "''/orgs/'' @ t @ rest = ''/orgs/'' @ u @ r" "uuid_shape u" unfolding org_path_iff by blast
    then have eq: "t @ rest = u @ r" and u: "u ! 8 = CHR ''-''" "length u = 36"
      by (auto simp: uuid_shape_def list_all_iff)
    have "(t @ rest) ! 8 = (u @ r) ! 8" by (simp only: eq)
    then have "t ! 8 = CHR ''-''" using plain(2) u by (simp add: nth_append)
    then show ?thesis using plain nth_mem [of 8 t] by simp
  qed simp
  then have "tenant_of_path (''/orgs/'' @ t @ rest) = None" by (simp add: tenant_of_path_def)
  then show ?thesis using c
    by (simp add: apply_tenant_context_def set_config_local_def run_select_def visible_def writable_def policy_using_def
        policy_check_def current_setting_def policy_tenant_def)
qed

section \<open>Witnesses\<close>

definition plain_conn :: pg_conn where
  "plain_conn = \<lparr>pc_bypassrls = False, pc_session_guc = None, pc_local_guc = None\<rparr>"

abbreviation root_org_path :: string where
  "root_org_path \<equiv> ''/orgs/'' @ root_id"

definition two_rows :: "int tenant_row list" where
  "two_rows = [(root_id, 1), (''b'', 2)]"

definition pool :: "int rls_world" where
  "pool = \<lparr>rw_rows = two_rows, rw_conns = (\<lambda>_. plain_conn), rw_open = (\<lambda>_. None), rw_log = []\<rparr>"

text \<open>A request of one organization deletes whatever it sees.\<close>

lemma pool_run:
  "\<exists>w. rls_step\<^sup>*\<^sup>* pool w \<and> rw_log w =
     [Wrote (Some tenant) root_org_path two_rows [(''b'', 2)], Read (Some tenant) root_org_path [(root_id, 1)]]"
proof -
  let ?c = "set_config_local root_id plain_conn"
  let ?t = "\<lparr>ot_mode = Some tenant, ot_path = root_org_path, ot_writes = []\<rparr> :: int open_tx"
  define w1 where "w1 = pool\<lparr>rw_open := (rw_open pool)(0 \<mapsto> ?t), rw_conns := (rw_conns pool)(0 := ?c)\<rparr>"
  define w2 where "w2 = w1\<lparr>rw_log := [Read (Some tenant) root_org_path [(root_id, 1)]]\<rparr>"
  define w3 where "w3 = w2\<lparr>rw_open := (rw_open w2)(0 \<mapsto> ?t\<lparr>ot_writes := [Delete (\<lambda>_. True)]\<rparr>)\<rparr>"
  define w4 where "w4 = w3\<lparr>rw_rows := [(''b'', 2)], rw_conns := (rw_conns w3)(0 := end_transaction ?c),
    rw_open := (rw_open w3)(0 := None),
    rw_log := Wrote (Some tenant) root_org_path two_rows [(''b'', 2)] # rw_log w3\<rparr>"
  note ws = w1_def w2_def w3_def w4_def pool_def
  have vis: "visible ?c r \<longleftrightarrow> fst r = root_id" for r :: "int tenant_row"
    by (simp add: visible_def policy_using_def policy_tenant_def current_setting_def set_config_local_def plain_conn_def root_id_def)
  have other: "''b'' \<noteq> root_id" by (simp add: root_id_def)
  have "rls_step pool w1"
    using rls_step.begins [of pool 0 "Some tenant" root_org_path] unfolding w1_def root_path
    by (simp add: apply_tenant_context_def pool_def plain_conn_def)
  moreover have "rls_step w1 w2"
    using rls_step.reads [of w1 0 ?t two_rows "\<lambda>_. True"] unfolding w2_def
    by (simp add: ws run_select_def vis two_rows_def other)
  moreover have "rls_step w2 w3"
    using rls_step.writes [of w2 0 ?t "Delete (\<lambda>_. True)"] unfolding w3_def by (simp add: ws)
  moreover have "rls_step w3 w4"
    using rls_step.commits_tx [of w3 0 "?t\<lparr>ot_writes := [Delete (\<lambda>_. True)]\<rparr>" "[(''b'', 2)]"] unfolding w4_def
    by (simp add: ws delete_where_def vis two_rows_def other)
  moreover have "rw_log w4 = [Wrote (Some tenant) root_org_path two_rows [(''b'', 2)], Read (Some tenant) root_org_path [(root_id, 1)]]"
    by (simp add: ws)
  ultimately show ?thesis by (meson r_into_rtranclp rtranclp_trans)
qed

theorem transactions_isolated_witness:
  "\<exists>w :: int rls_world. rw_log w =
     [Wrote (Some tenant) root_org_path two_rows [(''b'', 2)], Read (Some tenant) root_org_path [(root_id, 1)]]
   \<and> list_all access_allowed (rw_log w)"
proof -
  have fresh: "fresh_pool pool" by (simp add: fresh_pool_def pool_def plain_conn_def policy_tenant_def)
  obtain w where "rls_step\<^sup>*\<^sup>* pool w" and log: "rw_log w =
     [Wrote (Some tenant) root_org_path two_rows [(''b'', 2)], Read (Some tenant) root_org_path [(root_id, 1)]]"
    using pool_run by blast
  from conjI [OF log transactions_isolated [OF fresh this(1)]] show ?thesis by (rule exI [of _ w])
qed

theorem plain_id_loses_tenant_witness:
  "apply_tenant_context ''postgresql'' (Some tenant) (tenant_of_path (''/orgs/'' @ replicate 32 CHR ''0'' @ ''/members'')) plain_conn
      = set_config_local [] plain_conn
    \<and> run_select (set_config_local [] plain_conn) (\<lambda>_. True) two_rows = []
    \<and> run_write (set_config_local [] plain_conn) (Insert (''b'', 3)) two_rows = Some (two_rows @ [(''b'', 3)])"
  by (rule plain_id_loses_tenant) (simp_all add: plain_conn_def policy_tenant_def)

end
