(* ===== verification/Assembly.thy ===== *)
theory Assembly imports PerimeterProps IdempotencyProps begin

text \<open>
  The application as \<open>create_app\<close> puts it together (\<open>app/main.py.jinja\<close>): around the routes the idempotency
  middleware, around it CORS, the security headers and the tenant of the path. Starlette runs the middleware that
  was added last first. The routes and Starlette's CORS middleware are parameters. The world is the tenant in the
  context, the idempotency table, and the world of the routes.
\<close>

type_synonym 'w service = "(uuid option \<times> idem_row list \<times> 'w) asgi_app"

record app_settings =
  security_headers_enabled :: bool
  environment :: string
  security_csp :: string
  security_hsts_max_age :: int
  idempotency_ttl_seconds :: int
  idempotency_max_body_bytes :: nat

definition is_production :: "app_settings \<Rightarrow> bool" where
  "is_production st \<longleftrightarrow> environment st = ''production''"

definition headers_of :: "app_settings \<Rightarrow> headers_config" where
  "headers_of st = \<lparr>csp = security_csp st, hsts_max_age = security_hsts_max_age st, include_hsts = is_production st\<rparr>"

definition idem_of :: "app_settings \<Rightarrow> idem_config" where
  "idem_of st = \<lparr>ttl_seconds = idempotency_ttl_seconds st, max_body_bytes = idempotency_max_body_bytes st\<rparr>"

text \<open>
  The middlewares over that world. A request whose body never ends is buffered for ever: it gets no message and
  changes nothing, which is how a cancelled one looks that had no effect.
\<close>

definition idempotency_layer ::
  "app_settings \<Rightarrow> (bytes \<Rightarrow> string) \<Rightarrow> uuid \<Rightarrow> datetime \<Rightarrow> (uuid option \<times> 'w) asgi_app \<Rightarrow> 'w service" where
  "idempotency_layer st sha new_id now routes scope receive csw =
    (case csw of (ctx, s, w) \<Rightarrow>
       (case idempotency_call sql_store routes sha (idem_of st) new_id now scope receive s (ctx, w) of
          None \<Rightarrow> ([], Cancelled, csw)
        | Some ((sent, ending), s', (ctx', w')) \<Rightarrow> (sent, ending, (ctx', s', w'))))"

definition tenant_layer :: "'w service \<Rightarrow> 'w service" where
  "tenant_layer app scope receive csw =
    tenant_context_call
      (\<lambda>ctx scope receive sw. case app scope receive (ctx, sw) of (msgs, ending, (_, sw')) \<Rightarrow> (msgs, ending, sw'))
      scope receive csw"

definition create_app ::
  "app_settings \<Rightarrow> (bytes \<Rightarrow> string) \<Rightarrow> ('w service \<Rightarrow> 'w service) \<Rightarrow> uuid \<Rightarrow> datetime
    \<Rightarrow> (uuid option \<times> 'w) asgi_app \<Rightarrow> 'w service" where
  "create_app st sha cors new_id now routes =
    (let a1 = idempotency_layer st sha new_id now routes;
         a2 = cors a1;
         a3 = (if security_headers_enabled st then security_headers_call (headers_of st) a2 else a2)
     in tenant_layer a3)"

text \<open>Two applications that answer a request alike in a world answer alike through the middleware.\<close>

lemma run_owned_cong:
  "(\<And>rcv. app scope rcv w = app' scope rcv w) \<Longrightarrow>
    run_owned store app m key caller scope msgs s w = run_owned store app' m key caller scope msgs s w"
  by (simp add: run_owned_def)

lemma idempotency_call_cong:
  assumes "\<And>rcv. app scope rcv w = app' scope rcv w"
  shows "idempotency_call store app sha cfg i now scope receive s w = idempotency_call store app' sha cfg i now scope receive s w"
  unfolding idempotency_call_def Let_def assms run_owned_cong [of app scope w app', OF assms] by (rule refl)

lemma create_app_run:
  assumes "sc_type scope = ''http''"
  shows "create_app st sha cors i now routes scope rcv (ctx, sw) =
    (case (if security_headers_enabled st
           then security_headers_call (headers_of st) (cors (idempotency_layer st sha i now routes))
           else cors (idempotency_layer st sha i now routes))
        scope rcv (tenant_of_path (sc_path scope), sw)
     of (msgs, ending, (_, sw')) \<Rightarrow> (msgs, ending, (ctx, sw')))"
  using assms by (simp add: create_app_def tenant_layer_def tenant_context_call_def Let_def split: prod.split)

text \<open>A response with every required header.\<close>

definition hardened :: "headers_config \<Rightarrow> response_msg \<Rightarrow> bool" where
  "hardened cfg m = (case m of response_start st hs \<Rightarrow> fst ` set (required cfg) \<subseteq> fst ` set hs | response_body b \<Rightarrow> True)"

lemma completed_names: "fst ` set (required cfg) \<subseteq> fst ` set (completed cfg hs)"
proof
  fix n assume "n \<in> fst ` set (required cfg)"
  then obtain v where "(n, v) \<in> set (required cfg)" by force
  then show "n \<in> fst ` set (completed cfg hs)" by (cases "n \<in> fst ` set hs") (force simp: completed_def)+
qed

text \<open>What the service relies on: CORS leaves a request without an Origin header alone.\<close>

definition cors_passes :: "('w service \<Rightarrow> 'w service) \<Rightarrow> bool" where
  "cors_passes cors \<longleftrightarrow>
    (\<forall>app scope rcv w. header_value scope ''origin'' = None \<longrightarrow> cors app scope rcv w = app scope rcv w)"

text \<open>The routes see the tenant of the path of the request, whatever the context held.\<close>

theorem routes_see_tenant:
  assumes "cors_passes cors" "sc_type scope = ''http''" "header_value scope ''origin'' = None"
  shows "create_app st sha cors i now routes scope rcv csw
    = create_app st sha cors i now (\<lambda>sc rc cw. routes sc rc (tenant_of_path (sc_path scope), snd cw)) scope rcv csw"
proof -
  obtain ctx s w where csw: "csw = (ctx, s, w)" by (cases csw) auto
  let ?routes = "\<lambda>sc rc cw. routes sc rc (tenant_of_path (sc_path scope), snd cw)"
  have "idempotency_call sql_store routes sha (idem_of st) i now scope rcv s (tenant_of_path (sc_path scope), w)
      = idempotency_call sql_store ?routes sha (idem_of st) i now scope rcv s (tenant_of_path (sc_path scope), w)"
    by (rule idempotency_call_cong) simp
  then have "idempotency_layer st sha i now routes scope rcv (tenant_of_path (sc_path scope), s, w)
      = idempotency_layer st sha i now ?routes scope rcv (tenant_of_path (sc_path scope), s, w)"
    by (simp add: idempotency_layer_def)
  then show ?thesis unfolding csw create_app_run [OF assms(2)]
    using assms(1,3) by (simp add: cors_passes_def security_headers_call_def)
qed

text \<open>C17. A request whose key holds a recorded answer gets it from the table through the whole stack, with the mark of a
  replay and the hardening headers the recorded answer lacks; the routes do not run and nothing changes.\<close>

theorem replay_through_stack:
  assumes "cors_passes cors" "sc_type scope = ''http''" "header_value scope ''origin'' = None" "security_headers_enabled st"
    and "rows_ok s" "claims_key (idem_of st) scope rcv key body msgs"
    and "row_entries s (caller_scope sha scope, key) = Some (t, fingerprint sha scope body, Some r)" "now < t"
  shows "create_app st sha cors i now routes scope rcv (ctx, s, w)
    = ([response_start (cr_status r) (completed (headers_of st) (cr_headers r @ [(''idempotent-replayed'', ''true'')])),
        response_body (cr_body r)], Returned, (ctx, s, w))"
proof -
  have "idempotency_call sql_store routes sha (idem_of st) i now scope rcv s (tenant_of_path (sc_path scope), w)
      = Some ((send_response (cr_status r) (cr_headers r) (cr_body r), Returned), s, (tenant_of_path (sc_path scope), w))"
    using sql.held_call [OF assms(5,6,7,8)] by simp
  then have "idempotency_layer st sha i now routes scope rcv (tenant_of_path (sc_path scope), s, w)
      = (send_response (cr_status r) (cr_headers r) (cr_body r), Returned, (tenant_of_path (sc_path scope), s, w))"
    by (simp add: idempotency_layer_def)
  then show ?thesis unfolding create_app_run [OF assms(2)]
    using assms(1-4) by (simp add: cors_passes_def security_headers_call_def send_response_def secured_completed)
qed

section \<open>Errors that escape\<close>

text \<open>Starlette answers an exception that no layer caught, and before which nothing was sent, outside of every
  middleware the application adds; what it sends is a parameter.\<close>

definition with_server_errors :: "response_msg list \<Rightarrow> 'w asgi_app \<Rightarrow> 'w asgi_app" where
  "with_server_errors error_page app scope receive w =
    (case app scope receive w of (msgs, ending, w') \<Rightarrow>
       (case ending of Raised e \<Rightarrow> (if msgs = [] then error_page else msgs, ending, w') | _ \<Rightarrow> (msgs, ending, w')))"

lemma stack_hardened:
  assumes "sc_type scope = ''http''" "security_headers_enabled st"
    and "create_app st sha cors i now routes scope rcv (ctx, sw) = (msgs, ending, (ctx', sw'))"
  shows "list_all (hardened (headers_of st)) msgs \<and> ctx' = ctx"
proof -
  obtain ms e cw where inner: "cors (idempotency_layer st sha i now routes) scope rcv (tenant_of_path (sc_path scope), sw) = (ms, e, cw)"
    by (cases "cors (idempotency_layer st sha i now routes) scope rcv (tenant_of_path (sc_path scope), sw)") auto
  have "hardened (headers_of st) (send_with_headers (headers_of st) m)" for m
    by (cases m) (simp_all add: hardened_def secured_completed completed_names)
  then show ?thesis
    using assms inner by (auto simp: create_app_run security_headers_call_def list_all_iff split: prod.splits)
qed

text \<open>C18. With hardening enabled, whatever layer answers an HTTP request, the routes, a replay, a conflict or CORS, every
  message the client gets carries every hardening header, with one exception: the page that the server itself sends when
  an exception escaped the whole application before anything was sent. The tenant of the request never outlives it.\<close>

theorem every_answer_hardened:
  assumes http: "sc_type scope = ''http''" and on: "security_headers_enabled st"
    and run: "with_server_errors page (create_app st sha cors i now routes) scope rcv (ctx, sw) = (msgs, ending, (ctx', sw'))"
  shows "ctx' = ctx \<and> (list_all (hardened (headers_of st)) msgs
    \<or> (\<exists>e. create_app st sha cors i now routes scope rcv (ctx, sw) = ([], Raised e, (ctx', sw')) \<and> ending = Raised e \<and> msgs = page))"
proof -
  obtain ms e cx w where inner: "create_app st sha cors i now routes scope rcv (ctx, sw) = (ms, e, (cx, w))"
    by (metis prod_cases3 surj_pair)
  from stack_hardened [OF http on this] run inner show ?thesis
    by (cases e) (auto simp: with_server_errors_def split: if_splits)
qed

text \<open>The answer to an error that escapes is the plain page of the server, without the hardening headers.\<close>

lemma escaped_error_not_hardened:
  assumes "cors_passes cors" "sc_type scope = ''http''" "header_value scope ''origin'' = None"
    and "sc_method scope \<notin> set MUTATING" "routes scope rcv (tenant_of_path (sc_path scope), w) = ([], Raised e, (c', w'))"
  shows "with_server_errors page (create_app st sha cors i now routes) scope rcv (ctx, s, w) = (page, Raised e, (ctx, s, w'))"
proof -
  have "idempotency_layer st sha i now routes scope rcv (tenant_of_path (sc_path scope), s, w) = ([], Raised e, (c', s, w'))"
    using assms(4,5) by (simp add: idempotency_layer_def idempotency_call_def Let_def)
  then have "create_app st sha cors i now routes scope rcv (ctx, s, w) = ([], Raised e, (ctx, s, w'))"
    using assms(1-3) by (simp add: create_app_run cors_passes_def security_headers_call_def)
  then show ?thesis by (simp add: with_server_errors_def)
qed

section \<open>Witnesses\<close>

definition hard_settings :: app_settings where
  "hard_settings = \<lparr>security_headers_enabled = True, environment = ''production'', security_csp = ''frame-ancestors none'',
    security_hsts_max_age = 5, idempotency_ttl_seconds = 60, idempotency_max_body_bytes = 10\<rparr>"

definition no_cors :: "'w service \<Rightarrow> 'w service" where
  "no_cors app = app"

lemma no_cors_passes: "cors_passes no_cors"
  by (simp add: cors_passes_def no_cors_def)

text \<open>Routes that answer every request with 200 and count them.\<close>

definition counting_routes :: "(uuid option \<times> nat) asgi_app" where
  "counting_routes scope rcv cw = ([response_start 200 [], response_body []], Returned, (fst cw, Suc (snd cw)))"

definition paid_row :: idem_row where
  "paid_row = \<lparr>ik_id = ''r'', ik_scope = caller_scope (\<lambda>b. b) pay_request, ik_key = ''k1'',
    ik_hash = fingerprint (\<lambda>b. b) pay_request ''abcd'', ik_status = COMPLETED, ik_resp_status = Some 201,
    ik_resp_headers = Some [(''etag'', ''x'')], ik_resp_body = Some ''0'', ik_expires = 60\<rparr>"

lemma pay_request_simps:
  "sc_type pay_request = ''http''" "header_value pay_request ''origin'' = None"
  by (simp_all add: pay_request_def header_value_def)

theorem replay_through_stack_witness:
  "create_app hard_settings (\<lambda>b. b) no_cors ''i'' 1 counting_routes pay_request pay_body (None, [paid_row], 7)
    = ([response_start 201 (completed (headers_of hard_settings) [(''etag'', ''x''), (''idempotent-replayed'', ''true'')]),
        response_body ''0''], Returned, (None, [paid_row], 7))"
proof -
  have claims: "claims_key (idem_of hard_settings) pay_request pay_body ''k1'' ''abcd''
      [http_request ''ab'' True, http_request ''cd'' False]"
    using pay_claims by (simp add: claims_key_def idem_of_def hard_settings_def small_cfg_def)
  have rows: "rows_ok [paid_row]" by (simp add: rows_ok_def unique_on_def paid_row_def)
  have entry: "row_entries [paid_row] (caller_scope (\<lambda>b. b) pay_request, ''k1'')
      = Some (60, fingerprint (\<lambda>b. b) pay_request ''abcd'',
          Some \<lparr>cr_status = 201, cr_headers = [(''etag'', ''x'')], cr_body = ''0''\<rparr>)"
    by (simp add: row_entries_def entry_of_def idem_key_def paid_row_def cached_of_def)
  have on: "security_headers_enabled hard_settings" by (simp add: hard_settings_def)
  show ?thesis
    using replay_through_stack [OF no_cors_passes pay_request_simps on rows claims entry, of 1] by simp
qed

theorem every_answer_hardened_witness:
  "\<exists>hs. create_app hard_settings (\<lambda>b. b) no_cors ''i'' 1 counting_routes (pay_request\<lparr>sc_method := ''GET''\<rparr>) pay_body (None, [], 7)
      = ([response_start 200 hs, response_body []], Returned, (None, [], 8))
    \<and> fst ` set (required (headers_of hard_settings)) \<subseteq> fst ` set hs"
proof -
  let ?get = "pay_request\<lparr>sc_method := ''GET''\<rparr>"
  have on: "security_headers_enabled hard_settings" and http: "sc_type ?get = ''http''"
    by (simp_all add: hard_settings_def pay_request_def)
  have run: "create_app hard_settings (\<lambda>b. b) no_cors ''i'' 1 counting_routes ?get pay_body (None, [], 7)
      = ([response_start 200 (secured (headers_of hard_settings) []), response_body []], Returned, (None, [], 8))"
    using on http
    by (simp add: create_app_run no_cors_def security_headers_call_def idempotency_layer_def idempotency_call_def MUTATING_def
        counting_routes_def)
  then have served: "with_server_errors [] (create_app hard_settings (\<lambda>b. b) no_cors ''i'' 1 counting_routes) ?get pay_body (None, [], 7)
      = ([response_start 200 (secured (headers_of hard_settings) []), response_body []], Returned, (None, [], 8))"
    by (simp add: with_server_errors_def)
  from every_answer_hardened [OF http on served] have
    "fst ` set (required (headers_of hard_settings)) \<subseteq> fst ` set (secured (headers_of hard_settings) [])"
    by (simp add: hardened_def)
  with run show ?thesis by blast
qed

theorem routes_see_tenant_witness:
  "create_app hard_settings (\<lambda>b. b) no_cors ''i'' 1 counting_routes pay_request pay_body (None, [], 7)
    = create_app hard_settings (\<lambda>b. b) no_cors ''i'' 1
        (\<lambda>sc rc cw. counting_routes sc rc (tenant_of_path (sc_path pay_request), snd cw)) pay_request pay_body (None, [], 7)"
  by (rule routes_see_tenant [OF no_cors_passes pay_request_simps])

end
