(* ===== verification/Email.thy ===== *)
theory Email imports NetLib begin

text \<open>
  Mail (\<open>app/email\<close>): the message and the port (\<open>ports.py\<close>), rendering and sending (\<open>templating.py\<close>, \<open>send.py\<close>), the
  adapters for SMTP, Amazon SES and the console, and the choice among them (\<open>provider.py\<close>). The template engine and
  the transports are arguments; a transport's calls are kept in a list.
\<close>

section \<open>Messages\<close>

datatype mail_to = One string | Many "string list"

type_synonym mail_context = "(string \<times> json) list"

record email_message =
  em_to :: mail_to
  em_subject :: string
  em_html :: "string option"
  em_text :: "string option"
  em_template :: "string option"
  em_context :: "mail_context option"

definition recipients :: "email_message \<Rightarrow> string list" where
  "recipients m = (case em_to m of One a \<Rightarrow> [a] | Many as \<Rightarrow> as)"

section \<open>Rendering and sending\<close>

text \<open>The templates by name; rendering one may raise.\<close>

type_synonym template_env = "string \<Rightarrow> (mail_context \<Rightarrow> exn + string) option"

definition render :: "template_env \<Rightarrow> string \<Rightarrow> mail_context \<Rightarrow> exn + string" where
  "render env name context = (case env name of None \<Rightarrow> Inl (TemplateNotFound name) | Some t \<Rightarrow> t context)"

definition render_optional :: "template_env \<Rightarrow> string \<Rightarrow> mail_context \<Rightarrow> exn + string option" where
  "render_optional env name context =
    (case env name of None \<Rightarrow> Inr None | Some t \<Rightarrow> and_then (t context) (\<lambda>s. Inr (Some s)))"

definition render_message :: "template_env \<Rightarrow> email_message \<Rightarrow> exn + email_message" where
  "render_message env m =
    (case em_template m of
       None \<Rightarrow> Inr m
     | Some template \<Rightarrow>
         (let context = (case em_context m of Some c \<Rightarrow> c | None \<Rightarrow> [])
          in and_then (render env (template @ ''.html'') context) (\<lambda>html.
             and_then (case em_text m of Some (c # cs) \<Rightarrow> Inr (Some (c # cs))
                  | _ \<Rightarrow> render_optional env (template @ ''.txt'') context)
               (\<lambda>plain. Inr \<lparr>em_to = em_to m, em_subject = em_subject m, em_html = Some html, em_text = plain,
                  em_template = None, em_context = None\<rparr>))))"

type_synonym 's mail_port = "email_message \<Rightarrow> 's \<Rightarrow> (exn + unit) \<times> 's"

definition send :: "template_env \<Rightarrow> 's mail_port \<Rightarrow> email_message \<Rightarrow> 's \<Rightarrow> (exn + unit) \<times> 's" where
  "send env provider m st =
    (case render_message env m of Inl e \<Rightarrow> (Inl e, st) | Inr m' \<Rightarrow> provider m' st)"

definition send_template ::
  "template_env \<Rightarrow> 's mail_port \<Rightarrow> mail_to \<Rightarrow> string \<Rightarrow> string \<Rightarrow> mail_context option \<Rightarrow> 's \<Rightarrow> (exn + unit) \<times> 's" where
  "send_template env provider to subject template context st =
    send env provider \<lparr>em_to = to, em_subject = subject, em_html = None, em_text = None,
      em_template = Some template, em_context = context\<rparr> st"

section \<open>Adapters\<close>

definition no_body :: exn where
  "no_body = EmailError ''email has no body; render it via app.email.send first''"

definition or_none :: "string option \<Rightarrow> string option" where
  "or_none s = (case s of Some (c # cs) \<Rightarrow> Some (c # cs) | _ \<Rightarrow> None)"

record email_settings =
  email_provider :: string
  email_suppress_send :: bool
  email_from_name :: string
  email_from_address :: string
  smtp_host :: "string option"
  smtp_port :: int
  smtp_username :: "string option"
  smtp_password :: "string option"
  smtp_start_tls :: bool
  smtp_use_tls :: bool
  ses_access_key_id :: "string option"
  ses_secret_access_key :: "string option"
  ses_region :: string
  ses_endpoint_url :: "string option"

definition sender_address :: "email_settings \<Rightarrow> string" where
  "sender_address cfg =
    (if email_from_name cfg \<noteq> [] then email_from_name cfg @ '' <'' @ email_from_address cfg @ ''>''
     else email_from_address cfg)"

text \<open>The console keeps the message, whatever its body.\<close>

definition console_send :: "email_message list mail_port" where
  "console_send m sent = (Inr (), sent @ [m])"

text \<open>\<open>len(s.splitlines()) > 1\<close>: something follows the first line break.\<close>

definition many_lines :: "string \<Rightarrow> bool" where
  "many_lines s =
    (case dropWhile (\<lambda>c. \<not> line_break c) s of
       [] \<Rightarrow> False
     | c # cs \<Rightarrow> (if c = CHR 0x0D \<and> starts_with [CHR 0x0A] cs then tl cs else cs) \<noteq> [])"

lemma splitlines_aux_empty: "splitlines_aux line s = [] \<longleftrightarrow> line = [] \<and> s = []"
  by (induction line s rule: splitlines_aux.induct) auto

lemma many_lines_aux: "1 < length (splitlines_aux line s) \<longleftrightarrow> many_lines s"
proof (induction s arbitrary: line)
  case (Cons c s)
  have ne: "0 < length (splitlines_aux [] r) \<longleftrightarrow> r \<noteq> []" for r by (simp add: splitlines_aux_empty)
  show ?case
  proof (cases "line_break c")
    case True
    then show ?thesis using ne [of s] ne [of "tl s"] by (simp add: many_lines_def)
  next
    case False
    then have "many_lines (c # s) = many_lines s" by (simp add: many_lines_def)
    then show ?thesis using Cons False by simp
  qed
qed (simp add: many_lines_def)

text \<open>The reading agrees with the length of the list \<open>splitlines\<close> returns.\<close>

lemma many_lines_splitlines: "many_lines s \<longleftrightarrow> 1 < length (splitlines s)"
  unfolding splitlines_def many_lines_aux ..

record mime =
  mm_from :: string
  mm_to :: string
  mm_subject :: string
  mm_parts :: "(string \<times> string) list"

text \<open>Setting a header of more than one line raises.\<close>

definition header_text :: "string \<Rightarrow> exn + string" where
  "header_text s = (if many_lines s then Inl (ValueError ''Header values may not contain linefeed or carriage return characters'')
     else Inr s)"

definition build_mime :: "email_settings \<Rightarrow> email_message \<Rightarrow> exn + mime" where
  "build_mime cfg m =
    and_then (header_text (sender_address cfg)) (\<lambda>sender.
      and_then (header_text (join_with '', '' (recipients m))) (\<lambda>to.
        and_then (header_text (em_subject m)) (\<lambda>subject.
          Inr \<lparr>mm_from = sender, mm_to = to, mm_subject = subject,
            mm_parts = (case em_text m of
                Some t \<Rightarrow> (''plain'', t) # (case em_html m of Some h \<Rightarrow> [(''html'', h)] | None \<Rightarrow> [])
              | None \<Rightarrow> (case em_html m of Some h \<Rightarrow> [(''html'', h)] | None \<Rightarrow> []))\<rparr>)))"

record smtp_call =
  sm_mime :: mime
  sm_hostname :: string
  sm_port :: int
  sm_username :: "string option"
  sm_password :: "string option"
  sm_start_tls :: bool
  sm_use_tls :: bool

definition smtp_call_of :: "email_settings \<Rightarrow> string \<Rightarrow> mime \<Rightarrow> smtp_call" where
  "smtp_call_of cfg host mm =
    \<lparr>sm_mime = mm, sm_hostname = host, sm_port = smtp_port cfg, sm_username = or_none (smtp_username cfg),
     sm_password = or_none (smtp_password cfg), sm_start_tls = smtp_start_tls cfg, sm_use_tls = smtp_use_tls cfg\<rparr>"

definition smtp_send :: "email_settings \<Rightarrow> (smtp_call \<Rightarrow> exn + unit) \<Rightarrow> smtp_call list mail_port" where
  "smtp_send cfg transport m calls =
    (if em_html m = None \<and> em_text m = None then (Inl no_body, calls)
     else (case or_none (smtp_host cfg) of
         None \<Rightarrow> (Inr (), calls)
       | Some host \<Rightarrow>
           (case build_mime cfg m of
              Inl e \<Rightarrow> (Inl e, calls)
            | Inr mm \<Rightarrow> (transport (smtp_call_of cfg host mm), calls @ [smtp_call_of cfg host mm]))))"

record ses_content =
  sc_subject :: string
  sc_html :: "string option"
  sc_text :: "string option"

text \<open>The client of one call, opened with the credentials, region and endpoint of the settings.\<close>

record ses_client =
  sk_access_key_id :: "string option"
  sk_secret_access_key :: "string option"
  sk_region_name :: string
  sk_endpoint_url :: "string option"

definition ses_client_of :: "email_settings \<Rightarrow> ses_client" where
  "ses_client_of cfg = \<lparr>sk_access_key_id = ses_access_key_id cfg, sk_secret_access_key = ses_secret_access_key cfg,
     sk_region_name = ses_region cfg, sk_endpoint_url = ses_endpoint_url cfg\<rparr>"

definition ses_configured :: "email_settings \<Rightarrow> bool" where
  "ses_configured cfg \<longleftrightarrow> or_none (ses_access_key_id cfg) \<noteq> None \<and> or_none (ses_secret_access_key cfg) \<noteq> None"

record ses_call =
  se_client :: ses_client
  se_from :: string
  se_to :: "string list"
  se_content :: ses_content

definition ses_content_of :: "email_message \<Rightarrow> ses_content" where
  "ses_content_of m = \<lparr>sc_subject = em_subject m, sc_html = em_html m, sc_text = em_text m\<rparr>"

definition ses_call_of :: "email_settings \<Rightarrow> email_message \<Rightarrow> ses_call" where
  "ses_call_of cfg m = \<lparr>se_client = ses_client_of cfg, se_from = sender_address cfg, se_to = recipients m, se_content = ses_content_of m\<rparr>"

definition ses_send :: "email_settings \<Rightarrow> (ses_call \<Rightarrow> exn + unit) \<Rightarrow> ses_call list mail_port" where
  "ses_send cfg api m calls =
    (if em_html m = None \<and> em_text m = None then (Inl no_body, calls)
     else if \<not> ses_configured cfg then (Inr (), calls)
     else (api (ses_call_of cfg m), calls @ [ses_call_of cfg m]))"

section \<open>The choice\<close>

datatype provider = Smtp | Ses | Console

definition PROVIDERS :: "(string \<times> provider) list" where
  "PROVIDERS = [(''smtp'', Smtp), (''ses'', Ses), (''console'', Console)]"

definition get_email_provider :: "email_settings \<Rightarrow> exn + provider" where
  "get_email_provider cfg =
    (if email_suppress_send cfg then Inr Console
     else (case map_of PROVIDERS (email_provider cfg) of
         None \<Rightarrow> Inl (RuntimeError (''Unknown email_provider: '' @ py_repr (email_provider cfg)))
       | Some p \<Rightarrow> Inr p))"

text \<open>All three transports at once: the state of the service behind whichever is chosen.\<close>

record mail_world =
  mw_smtp :: "smtp_call list"
  mw_ses :: "ses_call list"
  mw_console :: "email_message list"

definition send_email_task ::
  "email_settings \<Rightarrow> template_env \<Rightarrow> (smtp_call \<Rightarrow> exn + unit) \<Rightarrow> (ses_call \<Rightarrow> exn + unit)
    \<Rightarrow> mail_to \<Rightarrow> string \<Rightarrow> string \<Rightarrow> mail_context option \<Rightarrow> mail_world \<Rightarrow> (exn + unit) \<times> mail_world" where
  "send_email_task cfg env transport api to subject template context w =
    (case get_email_provider cfg of
       Inl e \<Rightarrow> (Inl e, w)
     | Inr Smtp \<Rightarrow> (case send_template env (smtp_send cfg transport) to subject template context (mw_smtp w) of
         (r, s) \<Rightarrow> (r, w\<lparr>mw_smtp := s\<rparr>))
     | Inr Ses \<Rightarrow> (case send_template env (ses_send cfg api) to subject template context (mw_ses w) of
         (r, s) \<Rightarrow> (r, w\<lparr>mw_ses := s\<rparr>))
     | Inr Console \<Rightarrow> (case send_template env console_send to subject template context (mw_console w) of
         (r, s) \<Rightarrow> (r, w\<lparr>mw_console := s\<rparr>)))"

section \<open>The port\<close>

text \<open>
  What every adapter promises: a call hands at most one payload to its transport, and that of its message. An
  adapter that transmits refuses a message without a body as well.
\<close>

locale mail_sink =
  fixes deliver :: "'p list mail_port" and payload :: "email_message \<Rightarrow> 'p option"
  assumes at_most_one: "deliver m s = (r, s') \<Longrightarrow> s' = s \<or> (\<exists>p. payload m = Some p \<and> s' = s @ [p])"
begin

text \<open>Sending a template hands over nothing, or the payload of the rendered message.\<close>

lemma template_payload:
  assumes "send_template env deliver to subject template context s = (r, s')"
  shows "s' = s \<or> (\<exists>html plain p. render env (template @ ''.html'') (case context of Some c \<Rightarrow> c | None \<Rightarrow> []) = Inr html
    \<and> render_optional env (template @ ''.txt'') (case context of Some c \<Rightarrow> c | None \<Rightarrow> []) = Inr plain
    \<and> payload \<lparr>em_to = to, em_subject = subject, em_html = Some html, em_text = plain, em_template = None,
        em_context = None\<rparr> = Some p
    \<and> s' = s @ [p])"
proof (cases "render_message env \<lparr>em_to = to, em_subject = subject, em_html = None, em_text = None,
      em_template = Some template, em_context = context\<rparr>")
  case (Inl e)
  then show ?thesis using assms by (simp add: send_template_def send_def)
next
  case (Inr m)
  then have run: "deliver m s = (r, s')" using assms by (simp add: send_template_def send_def)
  obtain html plain where "render env (template @ ''.html'') (case context of Some c \<Rightarrow> c | None \<Rightarrow> []) = Inr html"
    "render_optional env (template @ ''.txt'') (case context of Some c \<Rightarrow> c | None \<Rightarrow> []) = Inr plain"
    "m = \<lparr>em_to = to, em_subject = subject, em_html = Some html, em_text = plain, em_template = None, em_context = None\<rparr>"
    using Inr by (auto simp: render_message_def Let_def and_then_Inr)
  then show ?thesis using at_most_one [OF run] by blast
qed

end

locale mail_port = mail_sink +
  assumes bodyless: "em_html m = None \<Longrightarrow> em_text m = None \<Longrightarrow> deliver m s = (Inl no_body, s)"
begin

lemma bodyless_refused:
  "em_template m = None \<Longrightarrow> em_html m = None \<Longrightarrow> em_text m = None \<Longrightarrow> send env deliver m s = (Inl no_body, s)"
  by (simp add: send_def render_message_def bodyless)

end

definition smtp_payload :: "email_settings \<Rightarrow> email_message \<Rightarrow> smtp_call option" where
  "smtp_payload cfg m =
    (case (or_none (smtp_host cfg), build_mime cfg m) of (Some h, Inr mm) \<Rightarrow> Some (smtp_call_of cfg h mm) | _ \<Rightarrow> None)"

interpretation smtp: mail_port "smtp_send cfg transport" "smtp_payload cfg" for cfg transport
  by unfold_locales (auto simp: smtp_send_def smtp_payload_def split: if_splits option.splits sum.splits)

interpretation ses: mail_port "ses_send cfg api" "\<lambda>m. Some (ses_call_of cfg m)" for cfg api
  by unfold_locales (auto simp: ses_send_def split: if_splits)

interpretation console: mail_sink console_send Some
  by unfold_locales (simp add: console_send_def)

section \<open>Properties\<close>

lemma build_mime_Inr:
  assumes "build_mime cfg m = Inr mm"
  shows "mm_subject mm = em_subject m" "mm_to mm = join_with '', '' (recipients m)" "mm_from mm = sender_address cfg"
    "\<not> many_lines (mm_subject mm)" "\<not> many_lines (mm_to mm)" "\<not> many_lines (mm_from mm)"
    "em_html m = Some h \<Longrightarrow> (''html'', h) \<in> set (mm_parts mm)"
  using assms by (auto simp: build_mime_def header_text_def and_then_Inr split: if_splits option.splits)

lemma smtp_payload_Some:
  "smtp_payload cfg m = Some call \<Longrightarrow> \<exists>host. build_mime cfg m = Inr (sm_mime call) \<and> call = smtp_call_of cfg host (sm_mime call)"
  by (auto simp: smtp_payload_def smtp_call_of_def split: option.splits sum.splits)

text \<open>What a mail task hands to its transport.\<close>

lemma mail_task_facts:
  assumes run: "send_email_task cfg env transport api to subject template context w = (r, w')"
  shows "(mw_smtp w' = mw_smtp w \<or> (get_email_provider cfg = Inr Smtp \<and> (\<exists>call html.
        render env (template @ ''.html'') (case context of Some c \<Rightarrow> c | None \<Rightarrow> []) = Inr html
        \<and> mw_smtp w' = mw_smtp w @ [call] \<and> mm_subject (sm_mime call) = subject
        \<and> mm_to (sm_mime call) = join_with '', '' (case to of One a \<Rightarrow> [a] | Many as \<Rightarrow> as)
        \<and> (''html'', html) \<in> set (mm_parts (sm_mime call)))))
    \<and> (mw_ses w' = mw_ses w \<or> (get_email_provider cfg = Inr Ses \<and> (\<exists>call html.
        render env (template @ ''.html'') (case context of Some c \<Rightarrow> c | None \<Rightarrow> []) = Inr html
        \<and> mw_ses w' = mw_ses w @ [call] \<and> sc_html (se_content call) = Some html
        \<and> se_to call = (case to of One a \<Rightarrow> [a] | Many as \<Rightarrow> as))))
    \<and> (if email_suppress_send cfg then mw_smtp w' = mw_smtp w \<and> mw_ses w' = mw_ses w else True)"
proof (cases "get_email_provider cfg")
  case (Inl e)
  then show ?thesis using run by (simp add: send_email_task_def)
next
  case (Inr p)
  have suppressed: "email_suppress_send cfg \<Longrightarrow> p = Console" using Inr by (simp add: get_email_provider_def)
  show ?thesis
  proof (cases p)
    case Smtp
    obtain s where s: "send_template env (smtp_send cfg transport) to subject template context (mw_smtp w) = (r, s)"
      and w': "w' = w\<lparr>mw_smtp := s\<rparr>"
      using run Inr Smtp by (auto simp: send_email_task_def split: prod.splits)
    from smtp.template_payload [OF s] show ?thesis
    proof (elim disjE exE conjE)
      assume "s = mw_smtp w"
      then show ?thesis using w' by simp
    next
      fix html plain c
      assume html: "render env (template @ ''.html'') (case context of Some c \<Rightarrow> c | None \<Rightarrow> []) = Inr html"
        and pay: "smtp_payload cfg \<lparr>em_to = to, em_subject = subject, em_html = Some html, em_text = plain,
            em_template = None, em_context = None\<rparr> = Some c"
        and s: "s = mw_smtp w @ [c]"
      obtain host where mm: "build_mime cfg \<lparr>em_to = to, em_subject = subject, em_html = Some html, em_text = plain,
            em_template = None, em_context = None\<rparr> = Inr (sm_mime c)"
        using smtp_payload_Some [OF pay] by blast
      show ?thesis using html s w' suppressed Smtp Inr build_mime_Inr(1,2) [OF mm] build_mime_Inr(7) [OF mm, of html]
        by (auto simp: recipients_def)
    qed
  next
    case Ses
    obtain s where s: "send_template env (ses_send cfg api) to subject template context (mw_ses w) = (r, s)"
      and w': "w' = w\<lparr>mw_ses := s\<rparr>"
      using run Inr Ses by (auto simp: send_email_task_def split: prod.splits)
    show ?thesis using ses.template_payload [OF s] suppressed Ses Inr unfolding w'
      by (auto simp: ses_call_of_def ses_content_of_def recipients_def)
  next
    case Console
    then have "mw_smtp w' = mw_smtp w" "mw_ses w' = mw_ses w"
      using run Inr by (auto simp: send_email_task_def split: prod.splits)
    then show ?thesis by simp
  qed
qed

text \<open>A mail task hands at most one message to one transport, the chosen one: over SMTP it goes to the given recipients
  with the given subject and carries the rendered HTML, and nothing is handed over when sending is suppressed.\<close>

theorem mail_task_sends_once:
  assumes run: "send_email_task cfg env transport api to subject template context w = (r, w')"
  shows "(mw_smtp w' = mw_smtp w \<or> (get_email_provider cfg = Inr Smtp \<and> (\<exists>call html.
        render env (template @ ''.html'') (case context of Some c \<Rightarrow> c | None \<Rightarrow> []) = Inr html
        \<and> mw_smtp w' = mw_smtp w @ [call] \<and> mm_subject (sm_mime call) = subject
        \<and> mm_to (sm_mime call) = join_with '', '' (case to of One a \<Rightarrow> [a] | Many as \<Rightarrow> as)
        \<and> (''html'', html) \<in> set (mm_parts (sm_mime call)))))
    \<and> (mw_ses w' = mw_ses w \<or> (get_email_provider cfg = Inr Ses \<and> (\<exists>call html.
        render env (template @ ''.html'') (case context of Some c \<Rightarrow> c | None \<Rightarrow> []) = Inr html
        \<and> mw_ses w' = mw_ses w @ [call] \<and> sc_html (se_content call) = Some html
        \<and> se_to call = (case to of One a \<Rightarrow> [a] | Many as \<Rightarrow> as))))
    \<and> (if email_suppress_send cfg then mw_smtp w' = mw_smtp w \<and> mw_ses w' = mw_ses w else True)"
  by (rule mail_task_facts [OF run])

text \<open>No header that the SMTP transport gets has a line break with text after it, so that a subject or an address cannot
  add headers of its own; the caller gets an error and nothing is sent.\<close>

theorem no_header_injection:
  assumes "smtp_send cfg transport m calls = (r, calls')" "call \<in> set calls'" "call \<notin> set calls"
  shows "\<not> many_lines (mm_subject (sm_mime call)) \<and> \<not> many_lines (mm_to (sm_mime call))
    \<and> \<not> many_lines (mm_from (sm_mime call)) \<and> em_subject m = mm_subject (sm_mime call)"
proof -
  have "calls' = calls \<or> (\<exists>p. smtp_payload cfg m = Some p \<and> calls' = calls @ [p])" by (rule smtp.at_most_one [OF assms(1)])
  then have "smtp_payload cfg m = Some call" using assms(2,3) by auto
  then have "build_mime cfg m = Inr (sm_mime call)" by (auto dest: smtp_payload_Some)
  from build_mime_Inr [OF this] show ?thesis by simp
qed

section \<open>Instances\<close>

definition demo_email :: email_settings where
  "demo_email = \<lparr>email_provider = ''smtp'', email_suppress_send = False, email_from_name = ''App'',
     email_from_address = ''a@x.test'', smtp_host = Some ''mx'', smtp_port = 587, smtp_username = None,
     smtp_password = Some [], smtp_start_tls = True, smtp_use_tls = False, ses_access_key_id = None,
     ses_secret_access_key = None, ses_region = ''us-east-1'', ses_endpoint_url = None\<rparr>"

definition hello_env :: template_env where
  "hello_env name = (if name = ''hi.html'' then Some (\<lambda>_. Inr ''<p>hi</p>'') else None)"

lemma mail_task_sends_once_witness:
  "\<exists>w' call. send_email_task demo_email hello_env (\<lambda>_. Inr ()) (\<lambda>_. Inr ()) (Many [''b@x'', ''c@x'']) ''Hi'' ''hi'' None
      \<lparr>mw_smtp = [], mw_ses = [], mw_console = []\<rparr> = (Inr (), w')
    \<and> mw_smtp w' = [call] \<and> mm_to (sm_mime call) = ''b@x, c@x'' \<and> (''html'', ''<p>hi</p>'') \<in> set (mm_parts (sm_mime call))"
proof -
  let ?run = "send_email_task demo_email hello_env (\<lambda>_. Inr ()) (\<lambda>_. Inr ()) (Many [''b@x'', ''c@x'']) ''Hi'' ''hi'' None
      \<lparr>mw_smtp = [], mw_ses = [], mw_console = []\<rparr>"
  have ok: "fst ?run = Inr ()" "mw_smtp (snd ?run) \<noteq> []"
    by (simp_all add: send_email_task_def get_email_provider_def PROVIDERS_def demo_email_def send_template_def send_def
        render_message_def render_def render_optional_def hello_env_def smtp_send_def or_none_def build_mime_def
        header_text_def many_lines_def line_break_def sender_address_def recipients_def)
  have "?run = (fst ?run, snd ?run)" by simp
  from mail_task_sends_once [OF this] ok show ?thesis
    by (auto simp: render_def hello_env_def) (metis prod.collapse)
qed

lemma no_header_injection_witness:
  "\<exists>call calls. smtp_send demo_email (\<lambda>_. Inr ()) \<lparr>em_to = One ''b@x'', em_subject = ''Hi'', em_html = None, em_text = Some ''t'',
      em_template = None, em_context = None\<rparr> [] = (Inr (), call # calls) \<and> \<not> many_lines (mm_subject (sm_mime call))"
proof -
  obtain call where run: "smtp_send demo_email (\<lambda>_. Inr ()) \<lparr>em_to = One ''b@x'', em_subject = ''Hi'', em_html = None,
      em_text = Some ''t'', em_template = None, em_context = None\<rparr> [] = (Inr (), [call])"
    by (simp add: smtp_send_def demo_email_def or_none_def build_mime_def
        header_text_def many_lines_def line_break_def sender_address_def recipients_def)
  from no_header_injection [OF run, of call] run show ?thesis by auto
qed

text \<open>The console accepts a message that both transmitting adapters refuse.\<close>

lemma console_accepts_bodyless:
  assumes "em_template m = None" "em_html m = None" "em_text m = None"
  shows "send env console_send m sent = (Inr (), sent @ [m])" "send env (smtp_send cfg transport) m calls = (Inl no_body, calls)"
    "send env (ses_send cfg api) m calls' = (Inl no_body, calls')"
  using smtp.bodyless_refused [OF assms] ses.bodyless_refused [OF assms] assms(1)
  by (simp_all add: send_def render_message_def console_send_def)

end
