(* ===== verification/TenancyRoutes.thy ===== *)
theory TenancyRoutes imports WebhooksProps Delivery begin

text \<open>
  The organization routes as they run with the webhooks and the audit log (\<open>app/tenancy/router.py.jinja\<close>): the
  schemas that check their bodies (\<open>app/tenancy/schemas.py\<close>), the change and its event in one transaction, and the
  audit entry in a second one. The second may fail while the first is committed, which is an argument.
\<close>

section \<open>Schemas\<close>

record organization_create =
  oc_name :: string
  oc_slug :: string

record member_add =
  ma_user :: uuid
  ma_role :: "string option"

definition slug_char :: "char \<Rightarrow> bool" where
  "slug_char c = (let n = (of_char c :: nat) in (97 \<le> n \<and> n \<le> 122) \<or> (48 \<le> n \<and> n \<le> 57) \<or> c = CHR ''-'')"

definition valid_organization :: "organization_create \<Rightarrow> bool" where
  "valid_organization p \<longleftrightarrow> 1 \<le> length (oc_name p) \<and> length (oc_name p) \<le> 255
     \<and> 1 \<le> length (oc_slug p) \<and> length (oc_slug p) \<le> 255 \<and> list_all slug_char (oc_slug p)"

definition role_of :: "member_add \<Rightarrow> string" where
  "role_of p = (case ma_role p of None \<Rightarrow> MEMBER | Some r \<Rightarrow> r)"

definition valid_member :: "member_add \<Rightarrow> bool" where
  "valid_member p \<longleftrightarrow> length (role_of p) \<le> 50"

section \<open>Routes\<close>

record org_state =
  os_db :: tenancy_db
  os_outbox :: "outbox_event list"
  os_logs :: "audit_log list"

definition INVALID_BODY :: exn where
  "INVALID_BODY = HTTPException 422 ''Unprocessable Entity'' []"

text \<open>The second transaction: the entry is added and committed, unless the database fails.\<close>

definition commit_audit ::
  "exn option \<Rightarrow> uuid \<Rightarrow> datetime \<Rightarrow> string \<Rightarrow> uuid \<Rightarrow> uuid \<Rightarrow> uuid \<Rightarrow> (string \<times> json) list \<Rightarrow> 'a \<Rightarrow> org_state
    \<Rightarrow> (exn + 'a) \<times> org_state" where
  "commit_audit fault new_log now action actor target org meta result st =
    (case fault of
       Some e \<Rightarrow> (Inl e, st)
     | None \<Rightarrow>
         (case audit_record new_log now action (Some actor) (Some target) (Some org) meta (os_logs st) of
            Inl e \<Rightarrow> (Inl e, st)
          | Inr (_, logs) \<Rightarrow> (Inr result, st\<lparr>os_logs := logs\<rparr>)))"

definition create_organization_route ::
  "exn option \<Rightarrow> uuid \<Rightarrow> uuid \<Rightarrow> uuid \<Rightarrow> datetime \<Rightarrow> organization_create \<Rightarrow> uuid \<Rightarrow> org_state
    \<Rightarrow> (exn + organization) \<times> org_state" where
  "create_organization_route fault new_org new_mb new_log now payload user st =
    (if \<not> valid_organization payload then (Inl INVALID_BODY, st)
     else (case create_organization new_org new_mb (oc_name payload) (oc_slug payload) user (os_db st) of
         (Inl e, _) \<Rightarrow> (Inl e, st)
       | (Inr o', db') \<Rightarrow>
           commit_audit fault new_log now ''organization.created'' user (org_id o') (org_id o')
             [(''name'', JStr (org_name o')), (''slug'', JStr (org_slug o'))] o' (st\<lparr>os_db := db'\<rparr>)))"

definition add_member_route ::
  "exn option \<Rightarrow> uuid \<Rightarrow> uuid \<Rightarrow> uuid \<Rightarrow> uuid \<Rightarrow> datetime \<Rightarrow> uuid \<Rightarrow> member_add \<Rightarrow> uuid \<Rightarrow> org_state
    \<Rightarrow> (exn + membership) \<times> org_state" where
  "add_member_route fault new_mb new_row fresh new_log now org payload caller st =
    (case require_role ADMIN org caller (os_db st) of
       Inl e \<Rightarrow> (Inl e, st)
     | Inr membership \<Rightarrow>
         if \<not> valid_member payload then (Inl INVALID_BODY, st)
         else (case add_member_emitting new_mb new_row fresh now org (ma_user payload) (role_of payload) caller
                 (os_db st) (os_outbox st) of
             (Inl e, db', rows') \<Rightarrow> (Inl e, st)
           | (Inr m, db', rows') \<Rightarrow>
               commit_audit fault new_log now ''member.added'' (mb_user membership) (ma_user payload) org
                 [(''role'', JStr (role_of payload))] m (st\<lparr>os_db := db', os_outbox := rows'\<rparr>)))"

definition remove_member_route :: "uuid \<Rightarrow> uuid \<Rightarrow> uuid \<Rightarrow> org_state \<Rightarrow> (exn + unit) \<times> org_state" where
  "remove_member_route org target caller st =
    (case remove_member org target caller (os_db st) of (res, db') \<Rightarrow> (res, st\<lparr>os_db := db'\<rparr>))"

section \<open>What an added member leaves behind\<close>

definition member_event :: "uuid \<Rightarrow> uuid \<Rightarrow> string \<Rightarrow> outbox_event \<Rightarrow> bool" where
  "member_event org target role e \<longleftrightarrow> pending e \<and> ob_source e = WEBHOOK_SOURCE \<and> ob_type e = ''member.added'' \<and> ob_org e = Some org
     \<and> ob_payload e = JDict [(''id'', JStr (ob_event_id e)), (''event_type'', JStr ''member.added''),
          (''organization_id'', JStr org), (''data'', JDict [(''user_id'', JStr target), (''role'', JStr role)])]"

definition member_entry :: "uuid \<Rightarrow> uuid \<Rightarrow> uuid \<Rightarrow> string \<Rightarrow> audit_log \<Rightarrow> bool" where
  "member_entry org caller target role l \<longleftrightarrow> al_action l = ''member.added'' \<and> al_org l = Some org \<and> al_actor l = Some caller
     \<and> al_target l = Some target \<and> al_meta l = Some [(''role'', JStr role)]"

lemma emitting_cases:
  assumes "add_member_emitting new_mb new_row fresh now org target role caller db rows = (res, db', rows')"
  shows "(\<exists>e. res = Inl e \<and> db' = db \<and> rows' = rows)
    \<or> (\<exists>m e. res = Inr m \<and> memberships db' = memberships db @ [m] \<and> users db' = users db
        \<and> organizations db' = organizations db \<and> member_key m = (org, target) \<and> mb_role m = role
        \<and> rows' = rows @ [e] \<and> member_event org target role e)"
proof (cases "require_role ADMIN org caller db")
  case (Inl e)
  have "res = Inl e" "db' = db" "rows' = rows"
    using assms by (simp_all add: add_member_emitting_def add_member_def Inl)
  then show ?thesis by blast
next
  case (Inr membership)
  then show ?thesis
    using assms by (auto simp: add_member_emitting_def add_member_def dispatch_def insert_unique_def pending_def
        member_event_def member_key_def Let_def split: if_splits)
qed

lemma commit_audit_cases:
  assumes "commit_audit fault new_log now action actor target org meta result st = (res, st')"
  obtains (failed) e where "res = Inl e" "st' = st" "fault = Some e \<or> (fault = None \<and> e = IntegrityError)"
  | (written) l where "res = Inr result" "st' = st\<lparr>os_logs := os_logs st @ [l]\<rparr>" "fault = None" "al_action l = action"
      "al_org l = Some org" "al_actor l = Some actor" "al_target l = Some target" "al_meta l = (if meta = [] then None else Some meta)"
  using assms
  by (auto simp: commit_audit_def audit_record_def insert_unique_def Let_def split: sum.splits prod.splits option.splits if_splits)

lemma add_member_route_cases:
  assumes "add_member_route fault new_mb new_row fresh new_log now org p caller st = (res, st')"
  obtains (refused) e where "res = Inl e" "st' = st"
  | (added) m ev where "memberships (os_db st') = memberships (os_db st) @ [m]" "users (os_db st') = users (os_db st)"
      "organizations (os_db st') = organizations (os_db st)" "member_key m = (org, ma_user p)" "mb_role m = role_of p"
      "os_outbox st' = os_outbox st @ [ev]" "member_event org (ma_user p) (role_of p) ev" "manager org caller (os_db st)"
      "(\<exists>l. res = Inr m \<and> os_logs st' = os_logs st @ [l] \<and> member_entry org caller (ma_user p) (role_of p) l)
       \<or> (\<exists>e. res = Inl e \<and> os_logs st' = os_logs st \<and> (fault = Some e \<or> e = IntegrityError))"
proof (cases "require_role ADMIN org caller (os_db st)")
  case (Inl e)
  then have "res = Inl e" "st' = st" using assms by (simp_all add: add_member_route_def)
  then show ?thesis by (rule refused)
next
  case role: (Inr membership)
  have caller: "mb_user membership = caller" using role by (auto simp: require_role_Inr dest: get_membership_Inr)
  have mgr: "manager org caller (os_db st)" using role by (rule require_admin_manager)
  obtain r db' rows' where em: "add_member_emitting new_mb new_row fresh now org (ma_user p) (role_of p) caller (os_db st)
      (os_outbox st) = (r, db', rows')" by (rule prod_cases3)
  show ?thesis
  proof (cases "valid_member p")
    case False
    then have "res = Inl INVALID_BODY" "st' = st" using assms role by (simp_all add: add_member_route_def)
    then show ?thesis by (rule refused)
  next
    case valid: True
    from emitting_cases [OF em] show ?thesis
    proof (elim disjE exE conjE)
      fix e assume "r = Inl e"
      then have "res = Inl e" "st' = st" using assms role valid em by (simp_all add: add_member_route_def)
      then show ?thesis by (rule refused)
    next
      fix m ev
      assume emitted: "r = Inr m" "memberships db' = memberships (os_db st) @ [m]" "users db' = users (os_db st)"
        "organizations db' = organizations (os_db st)" "member_key m = (org, ma_user p)" "mb_role m = role_of p"
        "rows' = os_outbox st @ [ev]" "member_event org (ma_user p) (role_of p) ev"
      let ?st = "st\<lparr>os_db := db', os_outbox := rows'\<rparr>"
      have "commit_audit fault new_log now ''member.added'' caller (ma_user p) org [(''role'', JStr (role_of p))] m ?st = (res, st')"
        using assms role valid em emitted(1) caller by (simp add: add_member_route_def)
      then show ?thesis
      proof (cases rule: commit_audit_cases)
        case (failed e)
        then show ?thesis using emitted mgr by (intro added [of m ev]) auto
      next
        case (written l)
        then show ?thesis using emitted mgr by (intro added [of m ev]) (auto simp: member_entry_def)
      qed
    qed
  qed
qed

text \<open>C35. 
  Adding a member writes the membership and its event together, for a manager only, and then the audit entry that
  names who added whom. A success means that all three are written. A failure leaves everything as it was, or else
  the second transaction failed and the member and the event stay without an entry.
\<close>

theorem added_member_is_recorded:
  "case add_member_route fault new_mb new_row fresh new_log now org p caller st of
     (Inr m, st') \<Rightarrow> manager org caller (os_db st) \<and> memberships (os_db st') = memberships (os_db st) @ [m]
       \<and> member_key m = (org, ma_user p)
       \<and> (\<exists>ev. os_outbox st' = os_outbox st @ [ev] \<and> member_event org (ma_user p) (role_of p) ev)
       \<and> (\<exists>l. os_logs st' = os_logs st @ [l] \<and> member_entry org caller (ma_user p) (role_of p) l)
   | (Inl e, st') \<Rightarrow> st' = st
       \<or> (fault = Some e \<or> e = IntegrityError) \<and> os_logs st' = os_logs st
         \<and> (\<exists>m ev. memberships (os_db st') = memberships (os_db st) @ [m] \<and> member_key m = (org, ma_user p)
              \<and> os_outbox st' = os_outbox st @ [ev] \<and> member_event org (ma_user p) (role_of p) ev)"
proof (cases "add_member_route fault new_mb new_row fresh new_log now org p caller st")
  case (Pair res st')
  then show ?thesis by (cases rule: add_member_route_cases) (auto simp: Pair)
qed

section \<open>An entry that is never written\<close>

lemma add_member_again:
  assumes "(org, target) \<in> member_key ` set (memberships db)"
  shows "\<exists>e. add_member nm org target role caller db = (Inl e, db)"
proof -
  have "member_key \<lparr>mb_id = nm, mb_org = org, mb_user = target, mb_role = role\<rparr> = (org, target)" by (simp add: member_key_def)
  then show ?thesis
    using assms by (cases "require_role ADMIN org caller db") (simp_all add: add_member_def insert_unique_def Let_def)
qed

lemma member_stays_refused:
  assumes "(org, ma_user p) \<in> member_key ` set (memberships (os_db st))"
  shows "\<exists>e. add_member_route fault new_mb new_row fresh new_log now org p caller st = (Inl e, st)"
proof -
  obtain e where again: "add_member new_mb org (ma_user p) (role_of p) caller (os_db st) = (Inl e, os_db st)"
    using add_member_again [OF assms] by blast
  then have "add_member_emitting new_mb new_row fresh now org (ma_user p) (role_of p) caller (os_db st) (os_outbox st)
      = (Inl e, os_db st, os_outbox st)" by (simp add: add_member_emitting_def)
  then show ?thesis by (cases "require_role ADMIN org caller (os_db st)") (simp_all add: add_member_route_def)
qed

text \<open>
  The service that records an entry says that it commits with the change. Here the change is committed first: when the
  second transaction fails, the request fails although the user is a member and the event goes out, and every later
  request that adds the user is refused and changes nothing, so that no entry is ever written.
\<close>

theorem member_never_audited:
  assumes "require_role ADMIN org caller (os_db st) = Inr membership" and "valid_member p"
    and "ma_user p \<in> set (users (os_db st))" "org \<in> org_id ` set (organizations (os_db st))"
    and "(org, ma_user p) \<notin> member_key ` set (memberships (os_db st))"
    and "outbox_key \<lparr>ob_id = new_row, ob_source = WEBHOOK_SOURCE, ob_event_id = fresh, ob_type = [], ob_org = None,
      ob_payload = JNull, ob_attempts = 0, ob_last_error = None, ob_published = None, ob_failed = None, ob_created = 0\<rparr>
      \<notin> outbox_key ` set (os_outbox st)"
  shows "\<exists>st'. add_member_route (Some down) new_mb new_row fresh new_log now org p caller st = (Inl down, st')
     \<and> (org, ma_user p) \<in> member_key ` set (memberships (os_db st')) \<and> length (os_outbox st') = Suc (length (os_outbox st))
     \<and> os_logs st' = os_logs st
     \<and> (\<exists>e. add_member_route None nm2 nr2 f2 nl2 now2 org p caller2 st' = (Inl e, st'))"
proof -
  obtain res st' where run: "add_member_route (Some down) new_mb new_row fresh new_log now org p caller st = (res, st')"
    by (rule prod.exhaust)
  from run have facts: "res = Inl down \<and> os_logs st' = os_logs st \<and> length (os_outbox st') = Suc (length (os_outbox st))
      \<and> (org, ma_user p) \<in> member_key ` set (memberships (os_db st'))"
    using assms by (auto simp: add_member_route_def add_member_emitting_def add_member_def dispatch_def insert_unique_def
        commit_audit_def outbox_key_def member_key_def Let_def)
  then show ?thesis using run member_stays_refused by blast
qed

definition first_org :: org_state where
  "first_org = \<lparr>os_db = acme_db, os_outbox = [], os_logs = []\<rparr>"

definition add_eve :: member_add where
  "add_eve = \<lparr>ma_user = ''eve'', ma_role = None\<rparr>"

text \<open>Bob adds Eve, and the database fails after the first commit.\<close>

lemma member_never_audited_witness:
  "\<exists>st'. add_member_route (Some (OSError ''lost'')) ''m3'' ''r1'' ''e1'' ''l1'' 5 ''o1'' add_eve ''bob'' first_org
       = (Inl (OSError ''lost''), st')
     \<and> (''o1'', ''eve'') \<in> member_key ` set (memberships (os_db st')) \<and> length (os_outbox st') = 1 \<and> os_logs st' = []
     \<and> (\<exists>e. add_member_route None ''m4'' ''r2'' ''e2'' ''l2'' 9 ''o1'' add_eve ''ann'' st' = (Inl e, st'))"
proof -
  have "require_role ADMIN ''o1'' ''bob'' (os_db first_org) = Inr \<lparr>mb_id = ''m2'', mb_org = ''o1'', mb_user = ''bob'', mb_role = ADMIN\<rparr>"
    by (simp add: first_org_def tenancy_eval)
  moreover have "valid_member add_eve" by (simp add: valid_member_def role_of_def add_eve_def)
  moreover have "ma_user add_eve \<in> set (users (os_db first_org))" "''o1'' \<in> org_id ` set (organizations (os_db first_org))"
    "(''o1'', ma_user add_eve) \<notin> member_key ` set (memberships (os_db first_org))"
    by (simp_all add: first_org_def add_eve_def acme_db_def member_key_def)
  moreover have "outbox_key r \<notin> outbox_key ` set (os_outbox first_org)" for r by (simp add: first_org_def)
  ultimately show ?thesis
    using member_never_audited [of "''o1''" "''bob''" first_org _ add_eve "''r1''" "''e1''" "OSError ''lost''" "''m3''" "''l1''" 5
        "''m4''" "''r2''" "''e2''" "''l2''" 9 "''ann''"]
    by (simp add: first_org_def add_eve_def)
qed

end
