(* ===== verification/Accounts.thy ===== *)
theory Accounts imports SessionsProps WebhooksProps Email Idempotency begin

text \<open>
  The mail hooks of accounts (\<open>app/users/manager.py.jinja\<close>, with the job queue), and what the worker registers and
  when (\<open>app/jobs/worker.py.jinja\<close>, with the two small tasks of \<open>app/jobs/tasks.py.jinja\<close>). Registration and the
  making of tokens are in fastapi-users, which calls the hooks with the user and the token.
\<close>

section \<open>Hooks\<close>

text \<open>A queued call of the mail task, with its keyword arguments.\<close>

record mail_job =
  mj_to :: mail_to
  mj_subject :: string
  mj_template :: string
  mj_context :: mail_context

definition mail_hook :: "mail_job \<Rightarrow> mail_job job_pool \<Rightarrow> (exn + unit) \<times> mail_job job_pool" where
  "mail_hook j q = (case enqueue j q of (Inl e, q') \<Rightarrow> (Inl e, q') | (Inr _, q') \<Rightarrow> (Inr (), q'))"

definition on_after_register :: "string \<Rightarrow> string \<Rightarrow> mail_job job_pool \<Rightarrow> (exn + unit) \<times> mail_job job_pool" where
  "on_after_register project email q =
    mail_hook \<lparr>mj_to = One email, mj_subject = ''Welcome to '' @ project, mj_template = ''welcome'',
      mj_context = [(''email'', JStr email), (''project_name'', JStr project)]\<rparr> q"

definition on_after_forgot_password ::
  "string \<Rightarrow> string \<Rightarrow> string \<Rightarrow> mail_job job_pool \<Rightarrow> (exn + unit) \<times> mail_job job_pool" where
  "on_after_forgot_password project email token q =
    mail_hook \<lparr>mj_to = One email, mj_subject = ''Reset your '' @ project @ '' password'', mj_template = ''password_reset'',
      mj_context = [(''email'', JStr email), (''token'', JStr token), (''project_name'', JStr project)]\<rparr> q"

text \<open>The worker runs a queued mail.\<close>

definition run_mail_job ::
  "email_settings \<Rightarrow> template_env \<Rightarrow> (smtp_call \<Rightarrow> exn + unit) \<Rightarrow> (ses_call \<Rightarrow> exn + unit) \<Rightarrow> mail_job \<Rightarrow> mail_world
    \<Rightarrow> (exn + unit) \<times> mail_world" where
  "run_mail_job cfg env transport api j w =
    send_email_task cfg env transport api (mj_to j) (mj_subject j) (mj_template j) (Some (mj_context j)) w"

section \<open>The worker\<close>

definition example_task :: "int \<Rightarrow> int" where
  "example_task value = value * 2"

definition purge_idempotency_keys :: "datetime \<Rightarrow> idem_row list \<Rightarrow> int \<times> idem_row list" where
  "purge_idempotency_keys now rows = purge_expired now rows"

definition WORKER_FUNCTIONS :: "string list" where
  "WORKER_FUNCTIONS = [''example_task'', ''send_email_task'', ''purge_idempotency_keys'', ''deliver_webhook'', ''relay_outbox'']"

text \<open>A schedule: the hours, minutes and seconds it names; arq takes any hour and minute it does not name, and second 0.\<close>

record cron_job =
  cj_task :: string
  cj_hour :: "nat list option"
  cj_minute :: "nat list option"
  cj_second :: "nat list"

definition CRON_JOBS :: "cron_job list" where
  "CRON_JOBS =
    [\<lparr>cj_task = ''heartbeat'', cj_hour = None, cj_minute = Some (map (\<lambda>i. 5 * i) [0..<12]), cj_second = [0]\<rparr>,
     \<lparr>cj_task = ''relay_outbox'', cj_hour = None, cj_minute = None, cj_second = map (\<lambda>i. 10 * i) [0..<6]\<rparr>,
     \<lparr>cj_task = ''purge_idempotency_keys'', cj_hour = Some [3], cj_minute = Some [0], cj_second = [0]\<rparr>]"

definition cron_fires :: "cron_job \<Rightarrow> nat \<Rightarrow> bool" where
  "cron_fires c t \<longleftrightarrow>
     (case cj_hour c of None \<Rightarrow> True | Some hs \<Rightarrow> t div 3600 mod 24 \<in> set hs)
     \<and> (case cj_minute c of None \<Rightarrow> True | Some ms \<Rightarrow> t div 60 mod 60 \<in> set ms)
     \<and> t mod 60 \<in> set (cj_second c)"

definition task_fires :: "string \<Rightarrow> nat \<Rightarrow> bool" where
  "task_fires task t \<longleftrightarrow> (\<exists>c \<in> set CRON_JOBS. cj_task c = task \<and> cron_fires c t)"

lemma relay_fires: "task_fires ''relay_outbox'' t \<longleftrightarrow> t mod 10 = 0"
proof -
  have "map (\<lambda>i. 10 * i) [0..<6] = [0, 10, 20, 30, 40, 50 :: nat]" by (simp add: upt_rec)
  moreover have "t mod 60 \<in> {0, 10, 20, 30, 40, 50} \<longleftrightarrow> t mod 10 = 0"
  proof
    assume "t mod 60 \<in> {0, 10, 20, 30, 40, 50}"
    then have "t mod 60 mod 10 = 0" by auto
    then show "t mod 10 = 0" by (simp add: mod_mod_cancel)
  next
    assume "t mod 10 = 0"
    then have "t mod 60 mod 10 = 0" by (simp add: mod_mod_cancel)
    then obtain k where k: "t mod 60 = 10 * k" by (metis mod_0_imp_dvd dvdE)
    then have "k < 6" using mod_less_divisor [of 60 t] by linarith
    then show "t mod 60 \<in> {0, 10, 20, 30, 40, 50}" using k by auto
  qed
  ultimately show ?thesis by (simp add: task_fires_def CRON_JOBS_def cron_fires_def)
qed

text \<open>The relay starts exactly once in every ten seconds, so five rounds take less than a minute.\<close>

lemma relay_rounds:
  "\<exists>!u. t \<le> u \<and> u < t + 10 \<and> task_fires ''relay_outbox'' u"
proof -
  have "t + 9 = 10 * ((t + 9) div 10) + (t + 9) mod 10" "(t + 9) mod 10 < 10" by simp_all
  then have "t \<le> 10 * ((t + 9) div 10)" "10 * ((t + 9) div 10) < t + 10" by linarith+
  then obtain k where k: "t \<le> 10 * k" "10 * k < t + 10" by (rule that)
  have only: "u = 10 * k" if u: "t \<le> u" "u < t + 10" and zero: "u mod 10 = 0" for u
  proof -
    have "10 dvd u" using zero by (rule mod_0_imp_dvd)
    then obtain j where j: "u = 10 * j" by (rule dvdE)
    have "j < Suc k" "k < Suc j" using k u j by linarith+
    then show ?thesis using j by simp
  qed
  show ?thesis unfolding relay_fires
  proof (rule ex1I)
    show "t \<le> 10 * k \<and> 10 * k < t + 10 \<and> 10 * k mod 10 = 0" using k by simp
  qed (elim conjE, rule only)
qed

section \<open>Account mail\<close>

lemma mail_hook_facts:
  assumes "mail_hook j q = (r, q')"
  shows "(queued q' = queued q \<or> queued q' = queued q @ [j])
    \<and> (r = Inr () \<or> (\<exists>e xs. upcoming q = PoolError e # xs \<and> r = Inl e))
    \<and> (upcoming q = [] \<longrightarrow> queued q' = queued q @ [j])"
  using assms by (auto simp: mail_hook_def enqueue_def Let_def split: list.splits pool_outcome.splits if_splits)

text \<open>C40. The token of a password reset is mailed to the owner of the account alone: the hook queues at most the one job, also
  when the queue is down it lets the request go on, and the worker hands what it renders from the token to the
  transport for that address only.\<close>

theorem reset_token_mailed_to_owner:
  assumes hook: "on_after_forgot_password project email token q = (r, q')"
    and job: "j \<in> set (drop (length (queued q)) (queued q'))"
    and run: "run_mail_job cfg env transport api j w = (r2, w')"
  shows "(r = Inr () \<or> (\<exists>e xs. upcoming q = PoolError e # xs)) \<and> queued q' = queued q @ [j]
    \<and> (mw_smtp w' = mw_smtp w \<or> (\<exists>call. mw_smtp w' = mw_smtp w @ [call] \<and> mm_to (sm_mime call) = email))
    \<and> (mw_ses w' = mw_ses w \<or> (\<exists>call. mw_ses w' = mw_ses w @ [call] \<and> se_to call = [email]))"
proof -
  note facts = mail_hook_facts [OF hook [unfolded on_after_forgot_password_def]]
  from facts job have j: "queued q' = queued q @ [j]" "mj_to j = One email" by auto
  have "(mw_smtp w' = mw_smtp w \<or> (\<exists>call. mw_smtp w' = mw_smtp w @ [call] \<and> mm_to (sm_mime call) = email))
    \<and> (mw_ses w' = mw_ses w \<or> (\<exists>call. mw_ses w' = mw_ses w @ [call] \<and> se_to call = [email]))"
    using mail_task_facts [OF run [unfolded run_mail_job_def]] j(2) by auto
  then show ?thesis using facts j(1) by blast
qed

definition reset_env :: template_env where
  "reset_env name = (if name = ''password_reset.html'' then Some (\<lambda>_. Inr ''<p>reset</p>'') else None)"

theorem reset_token_mailed_to_owner_witness:
  "\<exists>j q' w' call. on_after_forgot_password ''App'' ''b@x'' ''tok'' \<lparr>queued = [], upcoming = []\<rparr> = (Inr (), q') \<and> queued q' = [j]
    \<and> run_mail_job demo_email reset_env (\<lambda>_. Inr ()) (\<lambda>_. Inr ()) j \<lparr>mw_smtp = [], mw_ses = [], mw_console = []\<rparr> = (Inr (), w')
    \<and> mw_smtp w' = [call] \<and> mm_to (sm_mime call) = ''b@x''"
proof -
  let ?q = "\<lparr>queued = [], upcoming = []\<rparr> :: mail_job job_pool" and ?w = "\<lparr>mw_smtp = [], mw_ses = [], mw_console = []\<rparr>"
  obtain j q' where hook: "on_after_forgot_password ''App'' ''b@x'' ''tok'' ?q = (Inr (), q')" and j: "queued q' = [j]"
    "j = \<lparr>mj_to = One ''b@x'', mj_subject = ''Reset your '' @ ''App'' @ '' password'', mj_template = ''password_reset'',
      mj_context = [(''email'', JStr ''b@x''), (''token'', JStr ''tok''), (''project_name'', JStr ''App'')]\<rparr>"
    by (simp add: on_after_forgot_password_def mail_hook_def enqueue_def)
  let ?run = "run_mail_job demo_email reset_env (\<lambda>_. Inr ()) (\<lambda>_. Inr ()) j ?w"
  have ok: "fst ?run = Inr ()" "mw_smtp (snd ?run) \<noteq> []"
    by (simp_all add: j(2) run_mail_job_def send_email_task_def get_email_provider_def PROVIDERS_def demo_email_def send_template_def
        send_def render_message_def render_def render_optional_def reset_env_def smtp_send_def or_none_def build_mime_def
        header_text_def many_lines_def line_break_def sender_address_def recipients_def)
  have run: "?run = (Inr (), snd ?run)" using ok(1) by (metis prod.collapse)
  have job: "j \<in> set (drop (length (queued ?q)) (queued q'))" using j by simp
  from reset_token_mailed_to_owner [OF hook job run] ok(2) obtain call where
    "mw_smtp (snd ?run) = [call]" "mm_to (sm_mime call) = ''b@x''" by auto
  with hook j(1) run show ?thesis by blast
qed

end
