(* ===== verification/Agents.thy ===== *)
theory Agents imports RateLimitProps ApiKeys begin

text \<open>
  The example agent (\<open>app/agents/example_agent.py\<close>), its route with API keys and the rate limiter
  (\<open>app/api/routes/agent.py.jinja\<close>), and the health route (\<open>app/api/routes/health.py\<close>, \<open>app/schemas/common.py\<close>). The
  agent libraries are parameters: which are installed, and what each answers. Every call of a model is recorded,
  since it costs money.
\<close>

section \<open>The runner\<close>

record agent_settings =
  anthropic_api_key :: "string option"
  model_fast :: string
  model_default :: string
  model_frontier :: string

datatype model_call =
    PydanticCall string string
  | AnthropicCall string int string

text \<open>The libraries: the output of pydantic-ai, and the blocks of the SDK's message with their type and text, or
  whatever they raise.\<close>

record agent_backends =
  find_spec :: "string \<Rightarrow> bool"
  pydantic_run :: "string \<Rightarrow> string \<Rightarrow> exn + string"
  anthropic_create :: "string \<Rightarrow> int \<Rightarrow> string \<Rightarrow> exn + (string \<times> string) list"

definition resolve_model :: "agent_settings \<Rightarrow> string \<Rightarrow> string" where
  "resolve_model s tier =
    (case map_of [(''fast'', model_fast s), (''frontier'', model_frontier s)] tier of
       Some m \<Rightarrow> m | None \<Rightarrow> model_default s)"

abbreviation "NO_KEY_DETAIL \<equiv> ''ANTHROPIC_API_KEY is not set. Add it to .env, or install an agent framework extra (e.g. `uv sync --extra llm --extra pydantic-ai`).''"
abbreviation "NO_BACKEND_DETAIL \<equiv> ''No agent backend installed. Run: `uv sync --extra llm` (raw client) or `--extra pydantic-ai` (framework).''"

definition run_agent ::
  "agent_settings \<Rightarrow> agent_backends \<Rightarrow> string \<Rightarrow> string \<Rightarrow> model_call list \<Rightarrow> (exn + string \<times> string) \<times> model_call list" where
  "run_agent settings libs prompt tier calls =
    (let model = resolve_model settings tier
     in case anthropic_api_key settings of
          Some (c # cs) \<Rightarrow>
            if find_spec libs ''pydantic_ai'' then
              (case pydantic_run libs (''anthropic:'' @ model) prompt of Inl e \<Rightarrow> Inl e | Inr out \<Rightarrow> Inr (out, model),
               calls @ [PydanticCall (''anthropic:'' @ model) prompt])
            else if find_spec libs ''anthropic'' then
              (case anthropic_create libs model 1024 prompt of
                 Inl e \<Rightarrow> Inl e
               | Inr blocks \<Rightarrow> Inr (concat (map snd (filter (\<lambda>(ty, text). ty = ''text'') blocks)), model),
               calls @ [AnthropicCall model 1024 prompt])
            else (Inl (AgentUnavailableError NO_BACKEND_DETAIL), calls)
        | _ \<Rightarrow> (Inl (AgentUnavailableError NO_KEY_DETAIL), calls))"

section \<open>The route\<close>

record agent_request =
  prompt :: string
  tier :: string

record agent_response =
  ar_output :: string
  ar_model :: string

definition run :: "agent_settings \<Rightarrow> agent_backends \<Rightarrow> agent_request \<Rightarrow> model_call list \<Rightarrow> (exn + agent_response) \<times> model_call list" where
  "run settings libs req calls =
    (case run_agent settings libs (prompt req) (tier req) calls of
       (Inl (AgentUnavailableError d), calls') \<Rightarrow> (Inl (HTTPException 503 d []), calls')
     | (Inl e, calls') \<Rightarrow> (Inl e, calls')
     | (Inr (out, m), calls') \<Rightarrow> (Inr \<lparr>ar_output = out, ar_model = m\<rparr>, calls'))"

text \<open>What the request shows to its two dependencies, which run in order, how Redis fares when the limiter asks it, and the
  state they and the body act on.\<close>

record agent_visit =
  av_request :: web_request
  av_redis :: redis_mode
  av_api_key :: "string option"
  av_user :: "uuid option"
  av_now :: datetime
  av_clock :: rat
  av_body :: agent_request

record agent_state =
  as_keys :: "api_key list"
  as_cache :: plan_cache
  as_redis :: redis_db
  as_calls :: "model_call list"

definition agent_route ::
  "(bytes \<Rightarrow> string) \<Rightarrow> ratelimit_settings \<Rightarrow> (string \<Rightarrow> uuid option) \<Rightarrow> billing_db \<Rightarrow> agent_settings \<Rightarrow> agent_backends
    \<Rightarrow> agent_visit \<Rightarrow> agent_state \<Rightarrow> (exn + agent_response) \<times> agent_state" where
  "agent_route sha rst parse_uuid bdb settings libs v st =
    (case get_principal sha (av_api_key v) (av_user v) (av_now v) (as_keys st) of
       (Inl e, keys) \<Rightarrow> (Inl e, st\<lparr>as_keys := keys\<rparr>)
     | (Inr p, keys) \<Rightarrow>
         (case rate_limit (redis_limiter (av_redis v)) rst parse_uuid None (av_clock v) (av_request v) bdb (as_cache st) (as_redis st) of
            (Inl e, cache, redis) \<Rightarrow> (Inl e, st\<lparr>as_keys := keys, as_cache := cache, as_redis := redis\<rparr>)
          | (Inr _, cache, redis) \<Rightarrow>
              (case run settings libs (av_body v) (as_calls st) of
                 (res, calls) \<Rightarrow> (res, \<lparr>as_keys = keys, as_cache = cache, as_redis = redis, as_calls = calls\<rparr>))))"

section \<open>Health\<close>

record health_response =
  hr_status :: string
  hr_environment :: string
  hr_version :: string

definition health :: "string \<Rightarrow> string \<Rightarrow> health_response" where
  "health environment version = \<lparr>hr_status = ''ok'', hr_environment = environment, hr_version = version\<rparr>"

section \<open>One request\<close>

lemma run_calls:
  "run settings libs req calls = (res, calls') \<Longrightarrow>
    (calls' = calls \<and> (\<exists>d. res = Inl (HTTPException 503 d []))) \<or>
    (anthropic_api_key settings \<noteq> None \<and> (\<exists>call. calls' = calls @ [call]))"
  by (auto simp: run_def run_agent_def Let_def split: option.splits list.splits if_splits sum.splits exn.splits prod.splits)

lemma run_length: "length (snd (run settings libs req calls)) \<le> Suc (length calls)"
  using run_calls [of settings libs req calls] by (cases "run settings libs req calls") auto

text \<open>A model is called at most once per request, and only for a principal whose credential was accepted, when the limiter
  allowed it, with an API key of the provider configured; every other request is answered 401, 429 or 503 (or with the
  error of the dependency) and calls nothing.\<close>

theorem agent_call_authorised:
  assumes "agent_route sha rst parse_uuid bdb settings libs v st = (res, st')"
  shows "(as_calls st' = as_calls st \<and> (\<exists>e. res = Inl e))
    \<or> ((\<exists>call. as_calls st' = as_calls st @ [call])
       \<and> (\<exists>p. fst (get_principal sha (av_api_key v) (av_user v) (av_now v) (as_keys st)) = Inr p)
       \<and> fst (rate_limit (redis_limiter (av_redis v)) rst parse_uuid None (av_clock v) (av_request v) bdb (as_cache st) (as_redis st)) = Inr ()
       \<and> anthropic_api_key settings \<noteq> None)"
proof -
  obtain p keys where p: "get_principal sha (av_api_key v) (av_user v) (av_now v) (as_keys st) = (p, keys)" by fastforce
  obtain r cache redis where r: "rate_limit (redis_limiter (av_redis v)) rst parse_uuid None (av_clock v) (av_request v) bdb
      (as_cache st) (as_redis st) = (r, cache, redis)" by (metis prod_cases3)
  obtain x calls where x: "run settings libs (av_body v) (as_calls st) = (x, calls)" by fastforce
  show ?thesis using assms run_calls [OF x] p r x
    by (cases p; cases r) (auto simp: agent_route_def)
qed

section \<open>A budget on model calls\<close>

fun agent_visits ::
  "(bytes \<Rightarrow> string) \<Rightarrow> ratelimit_settings \<Rightarrow> (string \<Rightarrow> uuid option) \<Rightarrow> billing_db \<Rightarrow> agent_settings \<Rightarrow> agent_backends
    \<Rightarrow> agent_visit list \<Rightarrow> agent_state \<Rightarrow> agent_state" where
  "agent_visits sha rst parse_uuid bdb settings libs [] st = st"
| "agent_visits sha rst parse_uuid bdb settings libs (v # vs) st =
    agent_visits sha rst parse_uuid bdb settings libs vs (snd (agent_route sha rst parse_uuid bdb settings libs v st))"

text \<open>The requests of one client to the route: no organization in the path, and one path.\<close>

definition visit_of :: "string \<Rightarrow> string \<Rightarrow> agent_visit \<Rightarrow> bool" where
  "visit_of client path v \<longleftrightarrow> client_ip (av_request v) = client \<and> rq_path (av_request v) = path \<and> rq_path_params (av_request v) = []"

definition visit_key :: "string \<Rightarrow> string \<Rightarrow> string" where
  "visit_key client path = ''ip:'' @ client @ '':'' @ path"

lemma visit_rate_limit:
  assumes "visit_of client path v" "ratelimit_enabled rst"
  shows "rate_limit (redis_limiter mode) rst parse_uuid None t (av_request v) bdb cache redis
    = (case hit mode t (visit_key client path) (ratelimit_default_limit rst) (ratelimit_default_window_seconds rst) redis of
        (allowed, redis') \<Rightarrow>
          (if allowed then Inr () else Inl (too_many ''Rate limit exceeded'' (ratelimit_default_window_seconds rst)), cache, redis'))"
  using assms
  by (simp add: visit_of_def rate_limit_def request_plan_def tier_for_plan_def default_tier_def budget_scope_def route_key_def
      visit_key_def redis_limiter_def split: prod.split)

text \<open>A request that finds Redis away is let through; the script may have run all the same.\<close>

definition unlimited :: "agent_visit list \<Rightarrow> nat" where
  "unlimited vs = length (filter (\<lambda>v. av_redis v \<noteq> Working) vs)"

lemma hit_away:
  assumes "mode \<noteq> Working" "0 < w"
  shows "hit mode t k l w db = (True, db) \<or> hit mode t k l w db = (True, snd (hit Working t k l w db))"
  using assms by (cases mode) (simp_all add: hit_def via_def)

text \<open>The potential of the bucket pays for every call that the limiter saw.\<close>

lemma visits_bound:
  assumes on: "ratelimit_enabled rst" and l: "0 \<le> ratelimit_default_limit rst" "0 < ratelimit_default_window_seconds rst"
  shows "key_ok (ratelimit_default_limit rst) (ratelimit_default_window_seconds rst) t (visit_key client path) (as_redis st) \<Longrightarrow>
    list_all (visit_of client path) vs \<Longrightarrow> sorted (t # map av_clock vs) \<Longrightarrow> list_all (\<lambda>v. av_clock v \<le> t') vs \<Longrightarrow> t \<le> t' \<Longrightarrow>
    of_nat (length (as_calls (agent_visits sha rst parse_uuid bdb settings libs vs st)))
      \<le> of_nat (length (as_calls st)) + of_nat (unlimited vs)
        + key_level (ratelimit_default_limit rst) (ratelimit_default_window_seconds rst) t (visit_key client path) (as_redis st)
        + (t' - t) * (of_int (ratelimit_default_limit rst) / of_int (ratelimit_default_window_seconds rst) :: rat)"
proof (induction vs arbitrary: t st)
  case Nil
  let ?l = "ratelimit_default_limit rst" and ?w = "ratelimit_default_window_seconds rst"
  have "0 \<le> (t' - t) * (of_int ?l / of_int ?w)" using Nil l by simp
  moreover have "0 \<le> key_level ?l ?w t (visit_key client path) (as_redis st)"
    using level_bounds Nil l by (simp add: key_ok_def key_level_def)
  ultimately show ?case by (simp add: unlimited_def)
next
  case (Cons v vs)
  let ?l = "ratelimit_default_limit rst" and ?w = "ratelimit_default_window_seconds rst" and ?k = "visit_key client path"
  let ?u = "av_clock v" and ?r = "of_int ?l / of_int ?w :: rat"
  let ?st = "snd (agent_route sha rst parse_uuid bdb settings libs v st)"
  have v: "visit_of client path v" "t \<le> ?u" "?u \<le> t'" using Cons.prems by auto
  have oku: "key_ok ?l ?w ?u ?k (as_redis st)" by (rule key_ok_later [OF Cons.prems(1) v(2)])
  have later: "key_level ?l ?w ?u ?k (as_redis st) \<le> key_level ?l ?w t ?k (as_redis st) + (?u - t) * ?r"
    by (rule key_level_later [OF Cons.prems(1) v(2) l])
  obtain a redis where h: "hit (av_redis v) ?u ?k ?l ?w (as_redis st) = (a, redis)" by fastforce
  obtain b used where working: "hit Working ?u ?k ?l ?w (as_redis st) = (b, used)" by fastforce
  have paid: "key_level ?l ?w ?u ?k used = key_level ?l ?w ?u ?k (as_redis st) - (if b then 1 else 0)" "key_ok ?l ?w ?u ?k used"
    using hit_same [OF oku l order_refl] working by simp_all
  let ?free = "if av_redis v \<noteq> Working then 1 else 0 :: rat"
  have hit: "key_level ?l ?w ?u ?k redis + (if a then 1 else 0) \<le> key_level ?l ?w ?u ?k (as_redis st) + ?free"
    "key_ok ?l ?w ?u ?k redis"
    using h working paid oku hit_away [OF _ l(2), of "av_redis v" ?u ?k ?l "as_redis st"] by (cases "av_redis v = Working"; auto)+
  have st: "key_ok ?l ?w ?u ?k (as_redis ?st)
    \<and> of_nat (length (as_calls ?st)) + key_level ?l ?w ?u ?k (as_redis ?st)
        \<le> of_nat (length (as_calls st)) + key_level ?l ?w ?u ?k (as_redis st) + ?free"
  proof -
    obtain p keys where p: "get_principal sha (av_api_key v) (av_user v) (av_now v) (as_keys st) = (p, keys)" by fastforce
    obtain x calls where x: "run settings libs (av_body v) (as_calls st) = (x, calls)" by fastforce
    have "(of_nat (length calls) :: rat) \<le> of_nat (length (as_calls st)) + 1"
      using run_length [of settings libs "av_body v" "as_calls st"] x
      by (metis of_nat_Suc of_nat_mono add.commute snd_conv)
    then show ?thesis using p x h hit oku
        visit_rate_limit [OF v(1) on, of "av_redis v" parse_uuid ?u bdb "as_cache st" "as_redis st"]
      by (cases p; cases a) (auto simp: agent_route_def)
  qed
  have "of_nat (length (as_calls (agent_visits sha rst parse_uuid bdb settings libs vs ?st)))
      \<le> of_nat (length (as_calls ?st)) + of_nat (unlimited vs) + key_level ?l ?w ?u ?k (as_redis ?st) + (t' - ?u) * ?r"
    using Cons.IH [of ?u ?st] st Cons.prems v by simp
  moreover have "(t' - ?u) * ?r + (?u - t) * ?r = (t' - t) * ?r" by (simp only: distrib_right [symmetric]) simp
  moreover have "(of_nat (unlimited (v # vs)) :: rat) = of_nat (unlimited vs) + ?free" by (simp add: unlimited_def)
  ultimately show ?case using st later unfolding agent_visits.simps by linarith
qed

text \<open>C26. With rate limiting on, however many requests one client sends to the agent and whatever credentials it has, the
  model calls they cost (a run of pydantic-ai counts as one) in a window of time from \<open>t\<close> to \<open>t'\<close> are at most the default limit, what the refill of the budget
  admits, and one for each request that came while Redis was absent or failing, when the limiter lets everything
  through.\<close>

theorem model_calls_within_budget:
  assumes "ratelimit_enabled rst" "0 \<le> ratelimit_default_limit rst" "0 < ratelimit_default_window_seconds rst"
    and "key_ok (ratelimit_default_limit rst) (ratelimit_default_window_seconds rst) t (visit_key client path) (as_redis st)"
    and "list_all (visit_of client path) vs" "sorted (t # map av_clock vs)" "list_all (\<lambda>v. av_clock v \<le> t') vs" "t \<le> t'"
  shows "of_nat (length (as_calls (agent_visits sha rst parse_uuid bdb settings libs vs st)) - length (as_calls st))
    \<le> of_int (ratelimit_default_limit rst)
      + (t' - t) * (of_int (ratelimit_default_limit rst) / of_int (ratelimit_default_window_seconds rst) :: rat)
      + of_nat (length (filter (\<lambda>v. av_redis v \<noteq> Working) vs))"
proof -
  let ?l = "ratelimit_default_limit rst" and ?w = "ratelimit_default_window_seconds rst"
  let ?n = "length (as_calls (agent_visits sha rst parse_uuid bdb settings libs vs st))"
  have "key_level ?l ?w t (visit_key client path) (as_redis st) \<le> of_int ?l"
    using level_bounds assms(2-4) by (simp add: key_level_def key_ok_def)
  moreover have "0 \<le> (t' - t) * (of_int ?l / of_int ?w :: rat)" using assms(2,3,8) by simp
  moreover note visits_bound [OF assms(1-8), of sha parse_uuid bdb settings libs, unfolded unlimited_def]
  ultimately show ?thesis using assms(2) by (cases "length (as_calls st) \<le> ?n") (simp_all add: of_nat_diff)
qed

section \<open>Witnesses\<close>

definition demo_limits :: ratelimit_settings where
  "demo_limits = \<lparr>ratelimit_enabled = True, ratelimit_default_limit = 1, ratelimit_default_window_seconds = 60,
    ratelimit_auth_limit = 1, ratelimit_auth_window_seconds = 60, ratelimit_lockout_threshold = 5,
    ratelimit_lockout_window_seconds = 60, ratelimit_plan_cache_seconds = 0\<rparr>"

definition demo_agent :: agent_settings where
  "demo_agent = \<lparr>anthropic_api_key = Some ''sk'', model_fast = ''f'', model_default = ''d'', model_frontier = ''x''\<rparr>"

definition demo_libs :: agent_backends where
  "demo_libs = \<lparr>find_spec = (\<lambda>m. m = ''anthropic''), pydantic_run = (\<lambda>m p. Inl TypeError),
    anthropic_create = (\<lambda>m n p. Inr [(''text'', ''hi''), (''tool_use'', ''x'')])\<rparr>"

definition demo_visit :: "rat \<Rightarrow> agent_visit" where
  "demo_visit t = \<lparr>av_request = \<lparr>rq_client = Some ''c'', rq_path = ''/agent'', rq_path_params = []\<rparr>,
    av_redis = Working, av_api_key = None,
    av_user = Some ''u'', av_now = 0, av_clock = t, av_body = \<lparr>prompt = ''p'', tier = ''fast''\<rparr>\<rparr>"

definition demo_state :: agent_state where
  "demo_state = \<lparr>as_keys = [], as_cache = [], as_redis = no_hits, as_calls = []\<rparr>"

definition no_billing :: billing_db where
  "no_billing = \<lparr>b_orgs = [], subscriptions = [], processed = []\<rparr>"

theorem model_calls_within_budget_witness:
  "of_nat (length (as_calls (agent_visits (\<lambda>b. b) demo_limits Some no_billing demo_agent demo_libs
      [demo_visit 1, demo_visit 2, demo_visit 3] demo_state)) - 0) \<le> (1 + 3 * (1 / 60) :: rat)"
proof -
  have "key_ok 1 60 0 (visit_key ''c'' ''/agent'') no_hits" using no_hits_ok by simp
  then show ?thesis
    using model_calls_within_budget [of demo_limits 0 "''c''" "''/agent''" demo_state
        "[demo_visit 1, demo_visit 2, demo_visit 3]" 3 "\<lambda>b. b" Some no_billing demo_agent demo_libs]
    by (simp add: demo_limits_def demo_state_def demo_visit_def visit_of_def client_ip_def)
qed

lemma demo_principal:
  "get_principal (\<lambda>b. b) (av_api_key (demo_visit t)) (av_user (demo_visit t)) (av_now (demo_visit t)) keys
    = (Inr \<lparr>pr_user_id = ''u'', pr_organization_id = None, pr_api_key_id = None, pr_scopes = [], pr_method = ''jwt''\<rparr>, keys)"
  by (simp add: get_principal_def demo_visit_def)

theorem agent_call_authorised_witness:
  "(\<exists>call. as_calls (snd (agent_route (\<lambda>b. b) demo_limits Some no_billing demo_agent demo_libs (demo_visit 1) demo_state)) = [call])
    \<and> (\<exists>p. fst (get_principal (\<lambda>b. b) None (Some ''u'') 0 []) = Inr p)"
proof -
  let ?route = "agent_route (\<lambda>b. b) demo_limits Some no_billing demo_agent demo_libs (demo_visit 1) demo_state"
  have "visit_of ''c'' ''/agent'' (demo_visit 1)" by (simp add: visit_of_def demo_visit_def client_ip_def)
  note limit = visit_rate_limit [OF this, of demo_limits Working Some "av_clock (demo_visit 1)" no_billing "as_cache demo_state" "as_redis demo_state"]
  have "fst (hit Working 1 (visit_key ''c'' ''/agent'') 1 60 no_hits)"
    by (simp add: hit_def via_def bucket_script_def get_live_def no_hits_def Let_def)
  then have "fst ?route = Inr \<lparr>ar_output = ''hi'', ar_model = ''f''\<rparr>"
    using limit unfolding agent_route_def demo_principal
    by (auto simp: demo_limits_def demo_state_def demo_visit_def run_def run_agent_def Let_def
        demo_agent_def demo_libs_def resolve_model_def split: prod.splits)
  then have "\<not> (\<exists>e. fst ?route = Inl e)" by simp
  then show ?thesis
    using agent_call_authorised [of "\<lambda>b. b" demo_limits Some no_billing demo_agent demo_libs "demo_visit 1" demo_state "fst ?route" "snd ?route"]
    by (simp add: demo_visit_def demo_state_def)
qed

end
