(* ===== verification/MeteringRoutes.thy ===== *)
theory MeteringRoutes imports MeteringProps BillingRoutes begin

text \<open>
  The metering API (\<open>app/metering/router.py.jinja\<close>, with billing and RBAC): its six routes with their guards and
  the schemas that check and shape what goes through them (\<open>app/metering/schemas.py\<close>), over the service of the
  theory Metering, which implements the two ports (\<open>app/metering/ports.py\<close>). A body that its schema rejects is
  answered 422 after the guards ran.
\<close>

section \<open>Schemas\<close>

record usage_record =
  ur_meter :: string
  ur_quantity :: int
  ur_key :: string

record wallet_top_up =
  wt_amount :: int
  wt_key :: string

record wallet_read =
  wr_balance :: int
  wr_currency :: string

record usage_summary =
  us_start :: datetime
  us_end :: datetime
  us_usage :: "string \<rightharpoonup> int"

record invoice_read =
  ir_id :: uuid
  ir_start :: datetime
  ir_end :: datetime
  ir_status :: string
  ir_currency :: string
  ir_total :: int
  ir_plan :: string
  ir_lines :: "(string \<times> json) list list"

definition valid_usage :: "usage_record \<Rightarrow> bool" where
  "valid_usage p \<longleftrightarrow> length (ur_meter p) \<le> 64 \<and> 0 \<le> ur_quantity p \<and> length (ur_key p) \<le> 255"

definition valid_top_up :: "wallet_top_up \<Rightarrow> bool" where
  "valid_top_up p \<longleftrightarrow> 0 < wt_amount p \<and> length (wt_key p) \<le> 255"

definition read_invoice :: "invoice \<Rightarrow> invoice_read" where
  "read_invoice i = \<lparr>ir_id = inv_id i, ir_start = inv_start i, ir_end = inv_end i, ir_status = inv_status i,
     ir_currency = inv_currency i, ir_total = inv_total i, ir_plan = inv_plan i, ir_lines = inv_lines i\<rparr>"

definition UNPROCESSABLE :: exn where
  "UNPROCESSABLE = HTTPException 422 ''Unprocessable Entity'' []"

section \<open>The ports\<close>

text \<open>What the router asks of a metering service and of a billing service, over its database.\<close>

record 'd metering_port =
  mp_record_usage :: "uuid \<Rightarrow> datetime \<Rightarrow> uuid \<Rightarrow> string \<Rightarrow> int \<Rightarrow> string \<Rightarrow> 'd \<Rightarrow> (exn + bool) \<times> 'd"
  mp_usage_for_period :: "uuid \<Rightarrow> datetime \<Rightarrow> datetime \<Rightarrow> 'd \<Rightarrow> (string \<rightharpoonup> int)"

record 'd billing_port =
  bp_invoice_period :: "uuid \<Rightarrow> uuid \<Rightarrow> string \<Rightarrow> datetime \<Rightarrow> datetime \<Rightarrow> 'd \<Rightarrow> (exn + invoice) \<times> 'd"
  bp_charge_invoice :: "uuid \<Rightarrow> datetime \<Rightarrow> invoice \<Rightarrow> 'd \<Rightarrow> invoice \<times> 'd"

definition sql_metering :: "metering_db metering_port" where
  "sql_metering = \<lparr>mp_record_usage = record_usage, mp_usage_for_period = usage_for_period\<rparr>"

definition sql_billing :: "metering_db billing_port" where
  "sql_billing = \<lparr>bp_invoice_period = invoice_period, bp_charge_invoice = charge_invoice\<rparr>"

section \<open>Routes\<close>

definition record_usage_route ::
  "uuid \<Rightarrow> datetime \<Rightarrow> uuid \<Rightarrow> usage_record \<Rightarrow> uuid \<Rightarrow> tenancy_db \<Rightarrow> metering_db \<Rightarrow> (exn + bool) \<times> metering_db" where
  "record_usage_route new_id now org payload user tdb db =
    (case get_current_membership org user tdb of
       Inl e \<Rightarrow> (Inl e, db)
     | Inr _ \<Rightarrow>
         if \<not> valid_usage payload then (Inl UNPROCESSABLE, db)
         else mp_record_usage sql_metering new_id now org (ur_meter payload) (ur_quantity payload) (ur_key payload) db)"

definition usage_summary_route :: "datetime \<Rightarrow> uuid \<Rightarrow> uuid \<Rightarrow> tenancy_db \<Rightarrow> metering_db \<Rightarrow> exn + usage_summary" where
  "usage_summary_route now org user tdb db =
    and_then (get_current_membership org user tdb) (\<lambda>_.
      let start = period_start org db
      in Inr \<lparr>us_start = start, us_end = now, us_usage = mp_usage_for_period sql_metering org start now db\<rparr>)"

definition read_wallet :: "customer_wallet \<Rightarrow> wallet_read" where
  "read_wallet w = \<lparr>wr_balance = w_balance w, wr_currency = w_currency w\<rparr>"

definition top_up_wallet ::
  "uuid \<Rightarrow> uuid \<Rightarrow> uuid \<Rightarrow> wallet_top_up \<Rightarrow> uuid \<Rightarrow> tenancy_db \<Rightarrow> metering_db \<Rightarrow> (exn + wallet_read) \<times> metering_db" where
  "top_up_wallet new_w new_tx org payload user tdb db =
    (case require_role ADMIN org user tdb of
       Inl e \<Rightarrow> (Inl e, db)
     | Inr _ \<Rightarrow>
         if \<not> valid_top_up payload then (Inl UNPROCESSABLE, db)
         else (case top_up new_w new_tx org (wt_amount payload) (wt_key payload) DEFAULT_CURRENCY db of
             (Inl e, db') \<Rightarrow> (Inl e, db')
           | (Inr w, db') \<Rightarrow> (Inr (read_wallet w), db')))"

definition get_wallet_route :: "uuid \<Rightarrow> uuid \<Rightarrow> tenancy_db \<Rightarrow> metering_db \<Rightarrow> exn + wallet_read" where
  "get_wallet_route org user tdb db =
    and_then (get_current_membership org user tdb) (\<lambda>_.
      case get_wallet org db of
        None \<Rightarrow> Inr \<lparr>wr_balance = 0, wr_currency = DEFAULT_CURRENCY\<rparr>
      | Some w \<Rightarrow> Inr (read_wallet w))"

text \<open>The plan of the active subscription; an invoice is made and charged in two commits.\<close>

definition close_invoice_route ::
  "uuid \<Rightarrow> uuid \<Rightarrow> datetime \<Rightarrow> datetime \<Rightarrow> uuid \<Rightarrow> uuid \<Rightarrow> tenancy_db \<Rightarrow> subscription list \<Rightarrow> metering_db
    \<Rightarrow> (exn + invoice_read) \<times> metering_db" where
  "close_invoice_route new_inv new_tx now charge_now org user tdb subs db =
    (case require_role ADMIN org user tdb of
       Inl e \<Rightarrow> (Inl e, db)
     | Inr _ \<Rightarrow>
         (let plan = (case lookup_by sub_org org subs of
                None \<Rightarrow> DEFAULT_PLAN
              | Some s \<Rightarrow> if sub_status s \<in> set ACTIVE_STATUSES then sub_plan s else DEFAULT_PLAN);
              start = period_start org db
          in case bp_invoice_period sql_billing new_inv org plan start now db of
               (Inl e, db') \<Rightarrow> (Inl e, db')
             | (Inr iv, db') \<Rightarrow>
                 (case bp_charge_invoice sql_billing new_tx charge_now iv db' of
                    (iv', db'') \<Rightarrow> (Inr (read_invoice iv'), db''))))"

definition list_invoices :: "uuid \<Rightarrow> uuid \<Rightarrow> tenancy_db \<Rightarrow> metering_db \<Rightarrow> exn + invoice_read list" where
  "list_invoices org user tdb db =
    and_then (get_current_membership org user tdb) (\<lambda>_.
      Inr (map read_invoice (rev (filter (\<lambda>i. inv_org i = org) (invoices db)))))"

section \<open>Well-typed tables\<close>

text \<open>
  What the columns hold: texts within their bounds, quantities that are not negative, one of three states, one
  currency, an organization that exists, and a ledger of top-ups and of debits for invoices.
\<close>

definition usage_typed :: "uuid list \<Rightarrow> usage_event \<Rightarrow> bool" where
  "usage_typed os e \<longleftrightarrow> ue_org e \<in> set os \<and> length (ue_meter e) \<le> 64 \<and> 0 \<le> ue_quantity e \<and> length (ue_key e) \<le> 255"

definition invoice_typed :: "uuid list \<Rightarrow> invoice \<Rightarrow> bool" where
  "invoice_typed os i \<longleftrightarrow> inv_org i \<in> set os \<and> inv_status i \<in> {OPEN, PAID, UNCOLLECTIBLE} \<and> inv_currency i = DEFAULT_CURRENCY
     \<and> 0 \<le> inv_total i \<and> (inv_status i = PAID \<longrightarrow> inv_charged_at i \<noteq> None)"

definition wallet_typed :: "uuid list \<Rightarrow> customer_wallet \<Rightarrow> bool" where
  "wallet_typed os w \<longleftrightarrow> w_org w \<in> set os \<and> w_currency w = DEFAULT_CURRENCY"

definition ledger_typed :: "wallet_transaction \<Rightarrow> bool" where
  "ledger_typed x \<longleftrightarrow> (tx_reason x = ''topup'' \<and> 0 < tx_delta x \<and> tx_invoice x = None \<and> length (tx_key x) \<le> 255)
     \<or> (tx_reason x = ''invoice'' \<and> tx_delta x < 0 \<and> (\<exists>i. tx_invoice x = Some i \<and> tx_key x = ''invoice:'' @ i))"

definition metering_typed :: "metering_db \<Rightarrow> bool" where
  "metering_typed db \<longleftrightarrow> list_all (usage_typed (orgs db)) (usage_events db) \<and> list_all (invoice_typed (orgs db)) (invoices db)
     \<and> list_all (wallet_typed (orgs db)) (wallets db) \<and> list_all ledger_typed (wallet_txs db)"

text \<open>
  The commits of the three writing routes, by any users, in any order; the two of a close are apart, and its charge
  acts on the copy of the invoice its first commit returned, which may be stale by then.
\<close>

inductive metering_commit :: "metering_db \<Rightarrow> metering_db \<Rightarrow> bool" where
  by_usage: "metering_commit db (snd (record_usage_route new_id now org payload user tdb db))"
| by_top_up: "metering_commit db (snd (top_up_wallet new_w new_tx org payload user tdb db))"
| by_invoice: "metering_commit db (snd (bp_invoice_period sql_billing new_inv org plan start stop db))"
| by_charge: "r \<in> set (invoices db) \<Longrightarrow> copy_of iv r \<Longrightarrow>
    metering_commit db (snd (bp_charge_invoice sql_billing new_tx now iv db))"

lemma list_all_update_where:
  "list_all P xs \<Longrightarrow> (\<And>x. P x \<Longrightarrow> P (f x)) \<Longrightarrow> list_all P (update_where Q f xs)"
  by (auto simp: list_all_iff set_update_where)

lemma record_usage_typed:
  assumes "metering_typed db" "valid_usage p"
  shows "metering_typed (snd (record_usage i now org (ur_meter p) (ur_quantity p) (ur_key p) db))"
  using assms
  by (auto simp: record_usage_def Let_def insert_unique_Some metering_typed_def usage_typed_def valid_usage_def
      split: option.splits if_splits)

lemma invoice_period_typed:
  "metering_typed db \<Longrightarrow> metering_typed (snd (invoice_period i org plan s e db))"
  by (auto simp: invoice_period_def Let_def insert_unique_Some metering_typed_def invoice_typed_def total_rate_nonneg
      split: option.splits if_splits)

lemma save_charge_typed:
  assumes "metering_typed db" "st \<in> {OPEN, PAID, UNCOLLECTIBLE}" "st = PAID \<Longrightarrow> c \<noteq> None"
  shows "metering_typed (save_charge i st c db)"
proof -
  have "list_all (invoice_typed (orgs db)) (update_where (\<lambda>r. inv_id r = i)
       (\<lambda>r. r\<lparr>inv_status := st, inv_charged_at := (case c of None \<Rightarrow> inv_charged_at r | Some t \<Rightarrow> Some t)\<rparr>) (invoices db))"
    by (rule list_all_update_where) (use assms in \<open>auto simp: metering_typed_def invoice_typed_def split: option.split\<close>)
  then show ?thesis using assms(1) by (simp add: metering_typed_def save_charge_def)
qed

lemma debit_wallet_typed:
  assumes "metering_typed db" "debit_wallet org a db = (x, db')"
  shows "metering_typed db' \<and> orgs db' = orgs db"
proof -
  have "list_all (wallet_typed (orgs db)) (update_where (\<lambda>w. w_org w = org \<and> a \<le> w_balance w)
      (\<lambda>w. w\<lparr>w_balance := w_balance w - a\<rparr>) (wallets db))"
    by (rule list_all_update_where) (use assms(1) in \<open>auto simp: metering_typed_def wallet_typed_def\<close>)
  then show ?thesis using assms by (auto simp: debit_wallet_def Let_def metering_typed_def)
qed

lemma charge_invoice_typed:
  assumes ty: "metering_typed db" and pos: "0 \<le> inv_total iv"
  shows "metering_typed (snd (charge_invoice t now iv db))"
proof -
  obtain x db1 where d: "debit_wallet (inv_org iv) (inv_total iv) db = (x, db1)" by fastforce
  note d1 = debit_wallet_typed [OF ty d]
  let ?tx = "\<lambda>w. \<lparr>tx_id = t, tx_wallet = w, tx_org = inv_org iv, tx_delta = - inv_total iv, tx_reason = ''invoice'',
     tx_key = ''invoice:'' @ inv_id iv, tx_invoice = Some (inv_id iv)\<rparr>"
  have "metering_typed (save_charge (inv_id iv) PAID (Some now) (db1\<lparr>wallet_txs := wallet_txs db1 @ [?tx w]\<rparr>))"
    if "inv_total iv \<noteq> 0" for w
    by (rule save_charge_typed) (use d1 that pos in \<open>auto simp: metering_typed_def ledger_typed_def\<close>)
  moreover have "metering_typed (save_charge (inv_id iv) PAID (Some now) db)"
    "metering_typed (save_charge (inv_id iv) UNCOLLECTIBLE None db)"
    by (rule save_charge_typed [OF ty]; simp)+
  ultimately show ?thesis using ty
    by (auto simp: charge_invoice_def d Let_def insert_unique_Some split: option.splits)
qed

lemma top_up_typed:
  assumes ty: "metering_typed db" and p: "0 < a" "length k \<le> 255"
  shows "metering_typed (snd (top_up nw t org a k DEFAULT_CURRENCY db))"
proof (cases "get_or_create_wallet nw org DEFAULT_CURRENCY db")
  case (Inl e)
  then show ?thesis using ty by (simp add: top_up_def)
next
  case (Inr q)
  obtain w db1 where q: "q = (w, db1)" by (cases q)
  have db1: "metering_typed db1"
    using ty Inr q
    by (auto simp: get_or_create_wallet_def Let_def metering_typed_def wallet_typed_def split: option.splits if_splits)
  have "list_all (wallet_typed (orgs db1)) (update_where (\<lambda>x. w_id x = w_id w)
      (\<lambda>x. x\<lparr>w_balance := w_balance x + a\<rparr>) (wallets db1))"
    by (rule list_all_update_where) (use db1 in \<open>auto simp: metering_typed_def wallet_typed_def\<close>)
  then show ?thesis using ty db1 Inr q p
    by (auto simp: top_up_def Let_def insert_unique_Some metering_typed_def ledger_typed_def
        split: option.splits sum.splits prod.splits)
qed

lemma metering_commit_typed: "metering_commit db db' \<Longrightarrow> metering_typed db \<Longrightarrow> metering_typed db'"
proof (induction rule: metering_commit.induct)
  case (by_usage db new_id now org payload user tdb)
  then show ?case
    by (simp add: record_usage_route_def sql_metering_def record_usage_typed split: sum.split)
next
  case (by_top_up db new_w new_tx org payload user tdb)
  then show ?case
    using top_up_typed [of db "wt_amount payload" "wt_key payload" new_w new_tx org]
    by (auto simp: top_up_wallet_def valid_top_up_def split: sum.split prod.split)
next
  case (by_invoice db new_inv org plan start stop)
  then show ?case by (simp add: sql_billing_def invoice_period_typed)
next
  case (by_charge r db iv new_tx now)
  then have "0 \<le> inv_total iv" by (auto simp: copy_of_def metering_typed_def invoice_typed_def list_all_iff)
  then show ?case using by_charge by (simp add: sql_billing_def charge_invoice_typed)
qed

text \<open>C22. Whatever requests come in whatever order, the tables hold only well-typed rows: the checks of the schemas and of
  the guards are all the service needs to keep them so.\<close>

theorem metering_tables_typed:
  assumes "metering_commit\<^sup>*\<^sup>* (empty_db os) db"
  shows "metering_typed db"
  using assms
proof (induction rule: rtranclp_induct)
  case base
  then show ?case by (simp add: metering_typed_def empty_db_def)
next
  case (step y z)
  then show ?case using metering_commit_typed by blast
qed

section \<open>The summary and the next invoice\<close>

lemma chained_append_end: "chained s (ps @ [(a, b)]) \<Longrightarrow> a = chain_end s ps \<and> a < b \<and> chain_end s (ps @ [(a, b)]) = b"
  by (induction s ps rule: chained.induct) auto

text \<open>Charging changes the state of its copy, or returns the row with its id.\<close>

lemma charge_invoice_copy:
  assumes "\<And>r. r \<in> set (invoices db) \<Longrightarrow> inv_id r = inv_id iv \<Longrightarrow> r = iv"
  shows "inv_start (fst (charge_invoice t now iv db)) = inv_start iv \<and> inv_end (fst (charge_invoice t now iv db)) = inv_end iv
    \<and> inv_lines (fst (charge_invoice t now iv db)) = inv_lines iv \<and> inv_total (fst (charge_invoice t now iv db)) = inv_total iv
    \<and> inv_plan (fst (charge_invoice t now iv db)) = inv_plan iv"
proof -
  have "r = iv" if "lookup_by inv_id (inv_id iv) (invoices db) = Some r" for r
    using assms lookup_by_SomeD [OF that] by blast
  then show ?thesis
    by (auto simp: charge_invoice_def Let_def split: option.split prod.split)
qed

text \<open>A fresh period makes a new invoice of what the usage says.\<close>

lemma invoice_period_fresh:
  assumes "tiled db" "org \<in> set (orgs db)" "i \<notin> inv_id ` set (invoices db)"
  shows "\<exists>iv. invoice_period i org plan (period_start org db) e db = (Inr iv, db\<lparr>invoices := invoices db @ [iv]\<rparr>)
    \<and> inv_id iv = i \<and> inv_start iv = period_start org db \<and> inv_end iv = e \<and> inv_plan iv = plan \<and> inv_status iv = OPEN
    \<and> inv_lines iv = map line_dict (rate plan (usage_for_period org (period_start org db) e db) None)
    \<and> inv_total iv = total_cents (rate plan (usage_for_period org (period_start org db) e db) None)"
proof -
  have chain: "chained EPOCH (periods org db)" using assms(1) by (simp add: tiled_def)
  have "inv_start iv < period_start org db" if "iv \<in> set (invoices db)" "inv_org iv = org" for iv
  proof -
    have "(inv_start iv, inv_end iv) \<in> set (periods org db)" using that by (auto simp: periods_def org_invoices_def)
    then show ?thesis using chained_ends [OF chain] period_start_chain [OF assms(1), of org] by fastforce
  qed
  then have "(org, period_start org db) \<notin> invoice_key ` set (invoices db)" by (force simp: invoice_key_def)
  then show ?thesis using assms(2) by (simp add: invoice_period_def Let_def insert_unique_def invoice_key_def)
qed

lemma close_bills_period:
  assumes run: "metering_run (empty_db os) db" and org: "org \<in> set (orgs db)" and new: "new_inv \<notin> inv_id ` set (invoices db)"
    and admin: "require_role ADMIN org user tdb = Inr m"
    and plan: "plan = (case lookup_by sub_org org subs of None \<Rightarrow> DEFAULT_PLAN
      | Some x \<Rightarrow> if sub_status x \<in> set ACTIVE_STATUSES then sub_plan x else DEFAULT_PLAN)"
  shows "\<exists>iv. fst (close_invoice_route new_inv new_tx now charge_now org user tdb subs db) = Inr iv
    \<and> ir_start iv = period_start org db \<and> ir_end iv = now \<and> ir_plan iv = plan
    \<and> ir_lines iv = map line_dict (rate plan (usage_for_period org (period_start org db) now db) None)
    \<and> ir_total iv = total_cents (rate plan (usage_for_period org (period_start org db) now db) None)"
proof -
  have tiled: "tiled db" by (rule metering_run_tiled [OF run empty_db_tiled])
  obtain iv where inv: "invoice_period new_inv org plan (period_start org db) now db
      = (Inr iv, db\<lparr>invoices := invoices db @ [iv]\<rparr>)"
    and iv: "inv_id iv = new_inv" "inv_start iv = period_start org db" "inv_end iv = now" "inv_plan iv = plan"
      "inv_lines iv = map line_dict (rate plan (usage_for_period org (period_start org db) now db) None)"
      "inv_total iv = total_cents (rate plan (usage_for_period org (period_start org db) now db) None)"
    using invoice_period_fresh [OF tiled org new, of plan now] by blast
  let ?db = "db\<lparr>invoices := invoices db @ [iv]\<rparr>"
  have copy: "inv_id r = inv_id iv \<Longrightarrow> r = iv" if "r \<in> set (invoices ?db)" for r
    using that new iv(1) by auto
  have "fst (close_invoice_route new_inv new_tx now charge_now org user tdb subs db)
      = Inr (read_invoice (fst (charge_invoice new_tx charge_now iv ?db)))"
    using admin inv by (simp add: close_invoice_route_def sql_billing_def plan [symmetric] split: prod.split)
  then show ?thesis
    using charge_invoice_copy [of ?db iv new_tx charge_now] copy iv by (simp add: read_invoice_def)
qed

text \<open>C23. Closing at the instant of a summary bills exactly what the summary showed: the same period, rated from the same
  usage, on the plan of the organization's subscription while its status is an active one and on the default plan
  otherwise. The tables are those of any run in which every close came after the start of its period.\<close>

theorem summary_is_next_invoice:
  assumes run: "metering_run (empty_db os) db" and org: "org \<in> set (orgs db)" and new: "new_inv \<notin> inv_id ` set (invoices db)"
    and seen: "usage_summary_route now org user tdb db = Inr s"
    and admin: "require_role ADMIN org user2 tdb = Inr m"
  shows "\<exists>iv. fst (close_invoice_route new_inv new_tx now charge_now org user2 tdb subs db) = Inr iv
    \<and> ir_start iv = us_start s \<and> ir_end iv = us_end s
    \<and> ir_plan iv = (case lookup_by sub_org org subs of None \<Rightarrow> ''free''
        | Some x \<Rightarrow> if sub_status x \<in> {''active'', ''trialing''} then sub_plan x else ''free'')
    \<and> ir_lines iv = map line_dict (rate (ir_plan iv) (us_usage s) None)
    \<and> ir_total iv = total_cents (rate (ir_plan iv) (us_usage s) None)"
proof -
  have "us_start s = period_start org db" "us_end s = now" "us_usage s = usage_for_period org (period_start org db) now db"
    using seen by (auto simp: usage_summary_route_def and_then_Inr sql_metering_def Let_def)
  then show ?thesis using close_bills_period [OF run org new admin refl, of new_tx now charge_now subs]
    by (auto simp: DEFAULT_PLAN_def ACTIVE_STATUSES_def split: option.split)
qed

section \<open>Usage that arrives late\<close>

text \<open>What a run adds to the invoices: spans that start no earlier than the current period did.\<close>

definition spans_after :: "metering_db \<Rightarrow> metering_db \<Rightarrow> bool" where
  "spans_after db db' \<longleftrightarrow>
    (\<exists>ps. map span_of (invoices db') = map span_of (invoices db) @ ps \<and> (\<forall>p \<in> set ps. period_start (fst p) db \<le> fst (snd p)))
    \<and> (\<forall>org. period_start org db \<le> period_start org db')"

lemma spans_after_same: "map span_of (invoices db') = map span_of (invoices db) \<Longrightarrow> spans_after db db'"
  using period_start_spans [of db' db] by (simp add: spans_after_def)

lemma spans_after_trans:
  assumes "spans_after a b" "spans_after b c"
  shows "spans_after a c"
proof -
  obtain ps qs where ps: "map span_of (invoices b) = map span_of (invoices a) @ ps"
      "\<forall>p \<in> set ps. period_start (fst p) a \<le> fst (snd p)"
    and qs: "map span_of (invoices c) = map span_of (invoices b) @ qs"
      "\<forall>p \<in> set qs. period_start (fst p) b \<le> fst (snd p)"
    using assms unfolding spans_after_def by blast
  have mono: "period_start org a \<le> period_start org b" "period_start org b \<le> period_start org c" for org
    using assms unfolding spans_after_def by blast+
  have "\<forall>p \<in> set (ps @ qs). period_start (fst p) a \<le> fst (snd p)"
    using ps(2) qs(2) mono(1) by (auto intro: order_trans)
  moreover have "map span_of (invoices c) = map span_of (invoices a) @ ps @ qs" using ps(1) qs(1) by simp
  ultimately show ?thesis using mono unfolding spans_after_def by (meson order_trans)
qed

lemma invoice_period_after:
  assumes tiled: "tiled db" and s: "known_start org db s" "s < e"
  shows "spans_after db (snd (invoice_period i org plan s e db))"
proof (cases "invoices (snd (invoice_period i org plan s e db)) = invoices db")
  case True
  then show ?thesis by (simp add: spans_after_same)
next
  case False
  let ?db = "snd (invoice_period i org plan s e db)"
  have "\<exists>iv. invoices ?db = invoices db @ [iv] \<and> span_of iv = (org, s, e)"
    using False by (auto simp: invoice_period_def Let_def insert_unique_def span_of_def split: option.splits if_splits)
  then have spans: "map span_of (invoices ?db) = map span_of (invoices db) @ [(org, s, e)]" by auto
  have tiled': "tiled ?db" by (rule invoice_period_tiled [OF assms])
  have per: "periods o' ?db = periods o' db @ (if o' = org then [(s, e)] else [])" for o'
    unfolding periods_spans spans by simp
  have per1: "periods org ?db = periods org db @ [(s, e)]" by (simp add: per)
  have "chained EPOCH (periods org db @ [(s, e)])" using tiled' per1 unfolding tiled_def by metis
  from chained_append_end [OF this] per1
  have fresh: "s = chain_end EPOCH (periods org db)" "chain_end EPOCH (periods org ?db) = e" by metis+
  have "period_start o' db \<le> period_start o' ?db" for o'
  proof (cases "o' = org")
    case True
    then show ?thesis using fresh s(2) period_start_chain [OF tiled] period_start_chain [OF tiled'] by simp
  next
    case False
    then show ?thesis using per [of o'] period_start_chain [OF tiled] period_start_chain [OF tiled'] by simp
  qed
  then show ?thesis using spans fresh(1) period_start_chain [OF tiled] by (simp add: spans_after_def)
qed

lemma metering_step_after: "metering_step db db' \<Longrightarrow> tiled db \<Longrightarrow> spans_after db db'"
proof (induction rule: metering_step.induct)
  case (charge r db iv t now)
  show ?case by (rule spans_after_same [OF charge_invoice_spans])
qed (auto intro: invoice_period_after spans_after_same)

lemma metering_run_after: "metering_run db db' \<Longrightarrow> tiled db \<Longrightarrow> spans_after db db'"
proof (induction rule: metering_run.induct)
  case (base db)
  then show ?case by (simp add: spans_after_same)
next
  case (more db db' db'')
  then show ?case using metering_step_after metering_run_tiled spans_after_trans by blast
qed

text \<open>
  The database stamps an event with the start of its transaction, so an event can commit with an instant of a period
  that was closed meanwhile. Such an event lies in the period of no invoice that is made after it, ever.
\<close>

theorem late_usage_never_billed:
  assumes "metering_run (empty_db os) db" and "record_usage i t org m q k db = (Inr True, db1)"
    and "t < period_start org db" and "metering_run db1 db'"
  shows "\<exists>e \<in> set (usage_events db'). ue_id e = i \<and> ue_org e = org \<and> ue_key e = k
    \<and> list_all (\<lambda>iv. e \<notin> set (period_events (inv_org iv) (inv_start iv) (inv_end iv) db')) (drop (length (invoices db)) (invoices db'))"
proof -
  let ?e = "\<lparr>ue_id = i, ue_org = org, ue_meter = m, ue_quantity = q, ue_key = k, ue_created_at = t\<rparr>"
  have "?e \<in> set (usage_events db1)"
    using assms(2) by (auto simp: record_usage_def Let_def insert_unique_Some split: option.splits if_splits)
  then have mem: "?e \<in> set (usage_events db')" using metering_run_usage_grows [OF assms(4)] by blast
  have inv1: "invoices db1 = invoices db" using record_usage_frame(1) [of i t org m q k db] assms(2) by simp
  have tiled1: "tiled db1"
    using metering_run_tiled [OF assms(1) empty_db_tiled] inv1 by (simp add: tiled_def periods_def org_invoices_def)
  have start1: "period_start o' db1 = period_start o' db" for o' using inv1 by (simp add: period_start_def)
  obtain ps where ps: "map span_of (invoices db') = map span_of (invoices db) @ ps"
    "\<forall>p \<in> set ps. period_start (fst p) db \<le> fst (snd p)"
    using metering_run_after [OF assms(4) tiled1] unfolding spans_after_def inv1 start1 by blast
  have "map span_of (drop (length (invoices db)) (invoices db')) = ps"
    unfolding drop_map [symmetric] ps(1) by simp
  then have "period_start (inv_org iv) db \<le> inv_start iv" if "iv \<in> set (drop (length (invoices db)) (invoices db'))" for iv
    using ps(2) that unfolding span_of_def by force
  then have "list_all (\<lambda>iv. ?e \<notin> set (period_events (inv_org iv) (inv_start iv) (inv_end iv) db'))
      (drop (length (invoices db)) (invoices db'))"
    using assms(3) by (fastforce simp: list_all_iff period_events_def)
  then show ?thesis using mem by (intro bexI [OF _ mem]) simp
qed

section \<open>Witnesses\<close>

text \<open>Usage of two seconds in, a close at ten, and a late event of the ninth second.\<close>

definition first_usage :: metering_db where
  "first_usage = snd (record_usage_route ''e1'' 2 ''o1'' \<lparr>ur_meter = ''m'', ur_quantity = 3, ur_key = ''k1''\<rparr> ''ann'' acme_db (empty_db [''o1'']))"

lemma first_usage_eval: "first_usage = (empty_db [''o1''])\<lparr>usage_events :=
    [\<lparr>ue_id = ''e1'', ue_org = ''o1'', ue_meter = ''m'', ue_quantity = 3, ue_key = ''k1'', ue_created_at = 2\<rparr>]\<rparr>"
  by (simp add: first_usage_def record_usage_route_def tenancy_eval valid_usage_def sql_metering_def record_usage_def empty_db_def)

lemma first_usage_run: "metering_run (empty_db [''o1'']) first_usage"
proof -
  have "first_usage = snd (record_usage ''e1'' 2 ''o1'' ''m'' 3 ''k1'' (empty_db [''o1'']))"
    unfolding first_usage_eval by (simp add: record_usage_def insert_unique_def empty_db_def)
  then show ?thesis using metering_run.more [OF metering_run.base metering_step.usage] by metis
qed

theorem metering_tables_typed_witness: "usage_events first_usage \<noteq> [] \<and> metering_typed first_usage"
proof -
  have "metering_commit\<^sup>*\<^sup>* (empty_db [''o1'']) first_usage" unfolding first_usage_def by (rule r_into_rtranclp) (rule by_usage)
  from metering_tables_typed [OF this] show ?thesis by (simp add: first_usage_eval)
qed

theorem summary_is_next_invoice_witness:
  "\<exists>s iv. usage_summary_route 10 ''o1'' ''bob'' acme_db first_usage = Inr s
    \<and> fst (close_invoice_route ''v1'' ''t1'' 10 11 ''o1'' ''ann'' acme_db [] first_usage) = Inr iv
    \<and> ir_start iv = us_start s \<and> ir_end iv = us_end s
    \<and> ir_lines iv = map line_dict (rate (ir_plan iv) (us_usage s) None)
    \<and> ir_total iv = total_cents (rate (ir_plan iv) (us_usage s) None)"
proof -
  obtain s where s: "usage_summary_route 10 ''o1'' ''bob'' acme_db first_usage = Inr s"
    by (simp add: usage_summary_route_def tenancy_eval and_then_def)
  obtain m where m: "require_role ADMIN ''o1'' ''ann'' acme_db = Inr m" by (simp add: tenancy_eval and_then_def)
  have "''o1'' \<in> set (orgs first_usage)" "''v1'' \<notin> inv_id ` set (invoices first_usage)"
    by (simp_all add: first_usage_eval empty_db_def)
  from summary_is_next_invoice [OF first_usage_run this s m, of "''t1''" 11 "[]"] s show ?thesis by blast
qed

definition first_closed :: metering_db where
  "first_closed = snd (invoice_period ''v1'' ''o1'' ''free'' 0 10 first_usage)"

definition late_usage :: metering_db where
  "late_usage = snd (record_usage ''e2'' 9 ''o1'' ''m'' 5 ''k2'' first_closed)"

definition second_closed :: metering_db where
  "second_closed = snd (invoice_period ''v2'' ''o1'' ''free'' 10 20 late_usage)"

lemma first_closed_eval:
  "\<exists>iv. first_closed = first_usage\<lparr>invoices := [iv]\<rparr> \<and> inv_id iv = ''v1'' \<and> inv_org iv = ''o1'' \<and> inv_start iv = 0 \<and> inv_end iv = 10"
  by (simp add: first_closed_def invoice_period_def first_usage_eval empty_db_def insert_unique_def Let_def)

theorem late_usage_never_billed_witness:
  "length (invoices second_closed) = 2
   \<and> (\<exists>e \<in> set (usage_events second_closed). ue_id e = ''e2'' \<and> ue_org e = ''o1'' \<and> ue_key e = ''k2''
      \<and> list_all (\<lambda>iv. e \<notin> set (period_events (inv_org iv) (inv_start iv) (inv_end iv) second_closed))
          (drop 1 (invoices second_closed)))"
proof -
  obtain iv where fc: "first_closed = first_usage\<lparr>invoices := [iv]\<rparr>" and iv: "inv_id iv = ''v1''" "inv_org iv = ''o1''"
    "inv_start iv = 0" "inv_end iv = 10"
    using first_closed_eval by blast
  have "metering_step first_usage first_closed" unfolding first_closed_def
    by (rule metering_step.invoice) (simp_all add: first_usage_eval empty_db_def known_start_def EPOCH_def)
  then have run: "metering_run (empty_db [''o1'']) first_closed" by (rule metering_run.more [OF first_usage_run])
  have lu: "record_usage ''e2'' 9 ''o1'' ''m'' 5 ''k2'' first_closed = (Inr True, late_usage)" and inv1: "invoices late_usage = [iv]"
    and orgs1: "orgs late_usage = [''o1'']"
    by (simp_all add: late_usage_def fc first_usage_eval empty_db_def record_usage_def insert_unique_def usage_key_def)
  have start: "9 < period_start ''o1'' first_closed" by (simp add: fc period_start_def iv)
  have "metering_step late_usage second_closed" unfolding second_closed_def
    by (rule metering_step.invoice) (auto simp: inv1 iv known_start_def)
  then have later: "metering_run late_usage second_closed" by (rule metering_run.more [OF metering_run.base])
  have "length (invoices second_closed) = 2"
    by (simp add: second_closed_def invoice_period_def Let_def inv1 orgs1 insert_unique_def invoice_key_def iv)
  moreover have one: "length (invoices first_closed) = 1" by (simp add: fc)
  note late_usage_never_billed [OF run lu start later, unfolded one]
  ultimately show ?thesis by (rule conjI)
qed

end
