(* ===== verification/Logging.thy ===== *)
theory Logging imports Prelude begin

text \<open>
  What reaches the log and the probes: the redaction of sensitive fields (\<open>app/core/logging.py.jinja\<close>), which runs
  ahead of every renderer, and the liveness and readiness answers (\<open>app/observability/health.py.jinja\<close>). The later
  processors and the renderers are arguments.
\<close>

section \<open>Values that are logged\<close>

text \<open>A dict's keys are given as their texts; anything that is no dict, list or tuple is a leaf.\<close>

datatype log_value =
    LLeaf json
  | LList "log_value list"
  | LTuple "log_value list"
  | LDict "(string \<times> log_value) list"

definition REDACTED :: log_value where
  "REDACTED = LLeaf (JStr ''[REDACTED]'')"

definition sensitive :: "string list \<Rightarrow> string \<Rightarrow> bool" where
  "sensitive keys name \<longleftrightarrow> (\<exists>sentinel \<in> set keys. contains sentinel (lower name))"

fun scrub :: "string list \<Rightarrow> log_value \<Rightarrow> log_value" where
  "scrub keys (LDict items) = LDict (map (\<lambda>(k, item). (k, if sensitive keys k then REDACTED else scrub keys item)) items)"
| "scrub keys (LList items) = LList (map (scrub keys) items)"
| "scrub keys (LTuple items) = LTuple (map (scrub keys) items)"
| "scrub keys (LLeaf x) = LLeaf x"

text \<open>The processor, with the sentinels of the settings.\<close>

definition scrub_sensitive :: "string list \<Rightarrow> log_value \<Rightarrow> log_value" where
  "scrub_sensitive log_scrub_keys event = (let keys = map lower log_scrub_keys in if keys = [] then event else scrub keys event)"

text \<open>The chain: the context is merged in, then comes the redaction, then the other processors and the renderer.\<close>

definition emit_line ::
  "string list \<Rightarrow> (log_value \<Rightarrow> log_value) \<Rightarrow> (log_value \<Rightarrow> log_value) list \<Rightarrow> (log_value \<Rightarrow> string) \<Rightarrow> log_value \<Rightarrow> string" where
  "emit_line log_scrub_keys merge_contextvars later renderer event =
    renderer (fold (\<lambda>p. p) later (scrub_sensitive log_scrub_keys (merge_contextvars event)))"

section \<open>Redaction\<close>

text \<open>A value that stands under a sensitive name somewhere and is not masked.\<close>

fun exposes :: "string list \<Rightarrow> log_value \<Rightarrow> bool" where
  "exposes keys (LDict items) = list_ex (\<lambda>(k, item). if sensitive keys k then item \<noteq> REDACTED else exposes keys item) items"
| "exposes keys (LList items) = list_ex (exposes keys) items"
| "exposes keys (LTuple items) = list_ex (exposes keys) items"
| "exposes keys (LLeaf x) = False"

text \<open>The containers and their keys, with the leaves that stand under no sensitive name.\<close>

fun outline :: "string list \<Rightarrow> log_value \<Rightarrow> log_value" where
  "outline keys (LDict items) = LDict (map (\<lambda>(k, item). (k, if sensitive keys k then LList [] else outline keys item)) items)"
| "outline keys (LList items) = LList (map (outline keys) items)"
| "outline keys (LTuple items) = LTuple (map (outline keys) items)"
| "outline keys (LLeaf x) = LLeaf x"

lemma exposes_redacted [simp]: "\<not> exposes keys REDACTED"
  by (simp add: REDACTED_def)

lemma scrub_hides: "\<not> exposes keys (scrub keys v)"
proof (induction keys v rule: scrub.induct)
  case (1 keys items)
  show ?case using 1 [OF _ refl] by (auto simp: list_ex_iff split: if_splits)
qed (auto simp: list_ex_iff)

lemma scrub_keeps: "\<not> exposes keys v \<Longrightarrow> scrub keys v = v"
proof (induction keys v rule: scrub.induct)
  case (1 keys items)
  have "(if sensitive keys k then REDACTED else scrub keys item) = item" if "(k, item) \<in> set items" for k item
    using 1 that by (auto simp: list_ex_iff)
  then have "map (\<lambda>(k, item). (k, if sensitive keys k then REDACTED else scrub keys item)) items = items"
    by (intro map_idI) auto
  then show ?case by simp
next
  case (2 keys items)
  then show ?case by (auto simp: list_ex_iff intro: map_idI)
next
  case (3 keys items)
  then show ?case by (auto simp: list_ex_iff intro: map_idI)
qed simp

lemma scrub_outline: "outline keys (scrub keys v) = outline keys v"
  by (induction keys v rule: scrub.induct) auto

lemma exposes_none: "\<not> exposes [] v"
  by (induction "[] :: string list" v rule: exposes.induct) (auto simp: list_ex_iff sensitive_def)

text \<open>C27. No line shows a value under a sensitive name, at any depth and in whatever renderer: the redaction masks all of
  them, changes nothing else, leaves a clean event as it is, and doing it twice is doing it once.\<close>

theorem nothing_sensitive_is_logged:
  "\<not> exposes (map lower ks) (scrub_sensitive ks v)
   \<and> outline (map lower ks) (scrub_sensitive ks v) = outline (map lower ks) v
   \<and> (scrub_sensitive ks v = v \<longleftrightarrow> \<not> exposes (map lower ks) v)
   \<and> scrub_sensitive ks (scrub_sensitive ks v) = scrub_sensitive ks v"
proof -
  have none: "scrub [] v = v" for v by (rule scrub_keeps [OF exposes_none])
  have "scrub_sensitive ks v = scrub (map lower ks) v" for v
    using none by (simp add: scrub_sensitive_def Let_def)
  then show ?thesis using scrub_hides scrub_keeps scrub_outline by metis
qed

section \<open>Probes\<close>

definition healthz :: "(string \<times> string) list" where
  "healthz = [(''status'', ''ok'')]"

text \<open>A check that raises is a backend that is down.\<close>

definition check_of :: "exn + unit \<Rightarrow> bool" where
  "check_of probe = (case probe of Inl e \<Rightarrow> False | Inr u \<Rightarrow> True)"

definition readyz :: "exn + unit \<Rightarrow> exn + unit \<Rightarrow> json \<times> int" where
  "readyz database redis =
    (let checks = [(''database'', check_of database), (''redis'', check_of redis)];
         ready = list_all snd checks
     in (JDict [(''status'', JStr (if ready then ''ready'' else ''degraded'')),
                (''checks'', JDict (map (\<lambda>(n, b). (n, JBool b)) checks))],
         if ready then 200 else 503))"

lemma readyz_ready: "snd (readyz database redis) = 200 \<longleftrightarrow> database = Inr () \<and> redis = Inr ()"
  by (auto simp: readyz_def check_of_def split: sum.splits)

end
