(* ===== verification/Tools.thy ===== *)
theory Tools imports Prelude "HOL-Library.List_Lexorder" begin

text \<open>
  The repository's own gates: the line budgets of the documents every session reads
  (\<open>scripts/check-doc-budgets.py\<close>) and the format check of the templates rendered with every block off
  (\<open>scripts/micro-render-check.py\<close>). The files, the TOML table, jinja2 and the ruff processes are arguments; the exit
  code and what is written to stderr are the result.
\<close>

section \<open>Files and how a script ends\<close>

datatype file_entry = File string | Directory

datatype script_end = Exit int "string list" | Raised exn

definition read_text :: "(string \<Rightarrow> file_entry option) \<Rightarrow> string \<Rightarrow> exn + string" where
  "read_text fs path = (case fs path of
      None \<Rightarrow> Inl (OSError ''No such file'')
    | Some Directory \<Rightarrow> Inl (OSError ''Is a directory'')
    | Some (File t) \<Rightarrow> Inr t)"

section \<open>Document budgets\<close>

text \<open>One round of the loop: nothing, a failure, or the error of reading what is no file.\<close>

definition budget_failure :: "(string \<Rightarrow> file_entry option) \<Rightarrow> string \<times> int \<Rightarrow> exn + string list" where
  "budget_failure fs nb =
    (case nb of (name, budget) \<Rightarrow>
       if fs name = None then Inr [name @ '': budgeted but missing'']
       else and_then (read_text fs name) (\<lambda>t.
         let actual = int (length (splitlines t));
             headroom = budget - actual
         in Inr (if headroom < 0
                 then [name @ '': '' @ int_str actual @ '' lines exceeds its budget of '' @ int_str budget
                       @ '' by '' @ int_str (- headroom)]
                 else [])))"

fun budget_failures :: "(string \<Rightarrow> file_entry option) \<Rightarrow> (string \<times> int) list \<Rightarrow> exn + string list" where
  "budget_failures fs [] = Inr []"
| "budget_failures fs (nb # rest) =
     and_then (budget_failure fs nb) (\<lambda>f. and_then (budget_failures fs rest) (\<lambda>g. Inr (f @ g)))"

definition check_doc_budgets :: "(string \<Rightarrow> file_entry option) \<Rightarrow> (string \<times> int) list \<Rightarrow> script_end" where
  "check_doc_budgets fs budgets =
    (case budget_failures fs (sort_key fst budgets) of
       Inl e \<Rightarrow> Raised e
     | Inr failures \<Rightarrow>
         if failures \<noteq> []
         then Exit 1 (''DOC BUDGET EXCEEDED:'' # map (\<lambda>f. ''  - '' @ f) failures)
         else Exit 0 [])"

text \<open>A document within its budget.\<close>

definition within_budget :: "(string \<Rightarrow> file_entry option) \<Rightarrow> string \<times> int \<Rightarrow> bool" where
  "within_budget fs nb = (case fs (fst nb) of Some (File t) \<Rightarrow> int (length (splitlines t)) \<le> snd nb | _ \<Rightarrow> False)"

lemma budget_failure_none: "budget_failure fs nb = Inr [] \<longleftrightarrow> within_budget fs nb"
  by (cases nb) (auto simp: budget_failure_def within_budget_def read_text_def Let_def
      split: option.splits file_entry.splits)

lemma budget_failures_none: "budget_failures fs bs = Inr [] \<longleftrightarrow> list_all (within_budget fs) bs"
  by (induction bs) (auto simp: and_then_Inr budget_failure_none)

text \<open>The gate is green exactly when every budgeted document is a file of at most its budget's lines, in whatever
  order the table lists them.\<close>

lemma doc_budget_gate: "check_doc_budgets fs budgets = Exit 0 [] \<longleftrightarrow> list_all (within_budget fs) budgets"
proof -
  have "list_all (within_budget fs) (sort_key fst budgets) = list_all (within_budget fs) budgets"
    by (simp add: list_all_iff)
  then show ?thesis
    using budget_failures_none [of fs "sort_key fst budgets"]
    by (auto simp: check_doc_budgets_def split: sum.splits)
qed

section \<open>Rendering with every block off\<close>

definition ends_with :: "string \<Rightarrow> string \<Rightarrow> bool" where
  "ends_with suffix s = starts_with (rev suffix) (rev s)"

definition strip_ws :: "string \<Rightarrow> string" where
  "strip_ws s = rev (dropWhile is_space (rev (dropWhile is_space s)))"

text \<open>A run of ruff: the return code and its standard output, or the error of starting it.\<close>

type_synonym ruff_process = "string list \<Rightarrow> string \<Rightarrow> exn + int \<times> string"

definition pinned_ruff :: "(string \<Rightarrow> file_entry option) \<Rightarrow> script_end + string list" where
  "pinned_ruff fs =
    (let version = strip_ws (case read_text fs ''.ruff-version'' of Inl e \<Rightarrow> [] | Inr t \<Rightarrow> t)
     in if version = [] then Inl (Exit 1 [''micro-render-check: no ruff version recorded in .ruff-version''])
        else Inr [''uvx'', ''ruff@'' @ version])"

definition render_all_off :: "(string \<Rightarrow> exn + string) \<Rightarrow> string \<Rightarrow> string option" where
  "render_all_off jinja source = (case jinja source of Inl e \<Rightarrow> None | Inr t \<Rightarrow> Some t)"

definition is_target :: "string \<Rightarrow> bool" where
  "is_target p = (ends_with ''.py.jinja'' p \<and> \<not> contains ''{%'' p)"

definition format_argv :: "string list" where
  "format_argv = [''format'', ''--check'', ''--line-length'', ''100'', ''rendered.py'']"

definition lint_argv :: "string list" where
  "lint_argv = [''check'', ''--select'', ''I,E501,W291,W293'', ''--line-length'', ''100'', ''--config'',
     ''lint.isort.known-first-party = ['' @ [CHR 0x22] @ ''app'' @ [CHR 0x22] @ '']'', ''rendered.py'']"

definition failure_detail :: "string \<Rightarrow> string \<Rightarrow> string" where
  "failure_detail fmt lint =
     concat (map (\<lambda>line. ''      '' @ line @ [CHR 0x0A])
       (filter (\<lambda>line. strip_ws line \<noteq> []) (take 6 (splitlines fmt) @ take 6 (splitlines lint))))"

definition check_target ::
  "(string \<Rightarrow> file_entry option) \<Rightarrow> (string \<Rightarrow> exn + string) \<Rightarrow> ruff_process \<Rightarrow> string list \<Rightarrow> string \<Rightarrow> exn + string list" where
  "check_target fs jinja run ruff path =
    and_then (read_text fs path) (\<lambda>source.
      case render_all_off jinja source of
        None \<Rightarrow> Inr []
      | Some rendered \<Rightarrow>
          and_then (run (ruff @ format_argv) rendered) (\<lambda>fmt.
          and_then (run (ruff @ lint_argv) rendered) (\<lambda>lint.
            Inr (if fst fmt \<noteq> 0 \<or> fst lint \<noteq> 0
                 then [path @ [CHR 0x0A] @ ''    with every gated block OFF, the render is not clean:'' @ [CHR 0x0A]
                       @ failure_detail (snd fmt) (snd lint)]
                 else []))))"

fun check_targets ::
  "(string \<Rightarrow> file_entry option) \<Rightarrow> (string \<Rightarrow> exn + string) \<Rightarrow> ruff_process \<Rightarrow> string list \<Rightarrow> string list \<Rightarrow> exn + string list" where
  "check_targets fs jinja run ruff [] = Inr []"
| "check_targets fs jinja run ruff (p # ps) =
     and_then (check_target fs jinja run ruff p) (\<lambda>f. and_then (check_targets fs jinja run ruff ps) (\<lambda>g. Inr (f @ g)))"

definition micro_render_main ::
  "(string \<Rightarrow> file_entry option) \<Rightarrow> (string \<Rightarrow> exn + string) \<Rightarrow> ruff_process \<Rightarrow> string list \<Rightarrow> script_end" where
  "micro_render_main fs jinja run paths =
    (let targets = filter is_target paths in
     if targets = [] then Exit 0 []
     else (case pinned_ruff fs of
         Inl quit \<Rightarrow> quit
       | Inr ruff \<Rightarrow>
           (case check_targets fs jinja run ruff targets of
              Inl e \<Rightarrow> Raised e
            | Inr failures \<Rightarrow>
                if failures \<noteq> []
                then Exit 1 (''MICRO-RENDER CHECK FAILED'' # map (\<lambda>f. ''  '' @ f) failures)
                else Exit 0 [])))"

text \<open>A path that passes: a readable template that does not render alone, or whose render both runs accept.\<close>

definition clean_render ::
  "(string \<Rightarrow> file_entry option) \<Rightarrow> (string \<Rightarrow> exn + string) \<Rightarrow> ruff_process \<Rightarrow> string list \<Rightarrow> string \<Rightarrow> bool" where
  "clean_render fs jinja run ruff path =
    (case read_text fs path of
       Inl e \<Rightarrow> False
     | Inr source \<Rightarrow>
         (case jinja source of
            Inl e \<Rightarrow> True
          | Inr rendered \<Rightarrow>
              (case (run (ruff @ format_argv) rendered, run (ruff @ lint_argv) rendered) of
                 (Inr (a, s), Inr (b, t)) \<Rightarrow> a = 0 \<and> b = 0
               | _ \<Rightarrow> False)))"

lemma check_target_clean: "check_target fs jinja run ruff p = Inr [] \<longleftrightarrow> clean_render fs jinja run ruff p"
  by (auto simp: check_target_def clean_render_def render_all_off_def and_then_Inr split: sum.splits)

lemma check_targets_clean:
  "check_targets fs jinja run ruff ps = Inr [] \<longleftrightarrow> list_all (clean_render fs jinja run ruff) ps"
  by (induction ps) (auto simp: and_then_Inr check_target_clean)

text \<open>The gate is green exactly when no path is a target, or ruff's version is recorded and every target passes.\<close>

lemma micro_render_gate:
  "micro_render_main fs jinja run paths = Exit 0 [] \<longleftrightarrow>
     filter is_target paths = []
     \<or> (\<exists>ruff. pinned_ruff fs = Inr ruff \<and> list_all (clean_render fs jinja run ruff) (filter is_target paths))"
proof (cases "pinned_ruff fs")
  case (Inl quit)
  then have "quit \<noteq> Exit 0 []" by (auto simp: pinned_ruff_def Let_def split: if_splits)
  then show ?thesis using Inl by (auto simp: micro_render_main_def Let_def)
next
  case (Inr ruff)
  then show ?thesis
    using check_targets_clean [of fs jinja run ruff "filter is_target paths"]
    by (auto simp: micro_render_main_def Let_def split: sum.splits)
qed

end
