(* ===== verification/BillingConc.thy ===== *)
theory BillingConc imports BillingProps begin

text \<open>
  Concurrent requests on the billing tables (\<open>app/billing/router.py.jinja\<close>), statement by statement, as PostgreSQL runs
  them at READ COMMITTED and SQLAlchemy issues them: a pending row is inserted before the next query, the rows a handler
  changed are written when it commits, and an UPDATE sets the columns whose values the handler changed, on the row as it
  then is. Deliveries of the provider's webhook overlap with each other and with checkouts. An event is recorded once in
  every interleaving, and alone a delivery does exactly what \<open>payments_webhook\<close> does, no less and no more; overlapping events can leave a plan that
  no order of them gives, and overlapping checkouts leave a customer whose payments reach nobody.
\<close>

section \<open>Transactions\<close>

text \<open>
  What a request has done: nothing; a delivery has looked its event up, inserted the record of it, read the organization
  of its customer, read the subscription of that organization; a checkout has read an organization that has no customer.
\<close>

datatype hook_txn =
    Rest
  | Unseen payment_event
  | Recorded payment_event
  | Found payment_event organization
  | Loaded payment_event organization "subscription option"
  | Checkout organization

record hook_world =
  hw_db :: billing_db
  hw_txs :: "nat \<Rightarrow> hook_txn"
  hw_applied :: "(string \<times> string) list"

text \<open>The event whose record an open transaction has inserted.\<close>

fun held_event :: "hook_txn \<Rightarrow> payment_event option" where
  "held_event (Recorded ev) = Some ev"
| "held_event (Found ev org) = Some ev"
| "held_event (Loaded ev org s) = Some ev"
| "held_event x = None"

definition key_free :: "(nat \<Rightarrow> hook_txn) \<Rightarrow> nat \<Rightarrow> string \<Rightarrow> bool" where
  "key_free txs i eid \<longleftrightarrow> (\<forall>j ev. j \<noteq> i \<longrightarrow> held_event (txs j) = Some ev \<longrightarrow> pe_event_id ev \<noteq> eid)"

definition event_record :: "string \<Rightarrow> payment_event \<Rightarrow> processed_event" where
  "event_record prov ev = \<lparr>pv_provider = prov, pv_event_id = pe_event_id ev, pv_type = pe_event_type ev\<rparr>"

text \<open>The row for an organization that has none, and the columns an UPDATE sets on the current row: those in which the
  row as it was loaded and the row as the handler left it differ.\<close>

definition fresh_subscription :: "uuid \<Rightarrow> string \<Rightarrow> payment_event \<Rightarrow> organization \<Rightarrow> subscription" where
  "fresh_subscription new_id prov ev org = \<lparr>sub_id = new_id, sub_org = org_id org, sub_provider = prov,
     sub_provider_id = or_else (pe_subscription_id ev) [], sub_status = or_else (pe_status ev) [],
     sub_plan = or_else (pe_plan ev) FREE_PLAN, sub_period_end = pe_period_end ev\<rparr>"

definition write_changes :: "subscription \<Rightarrow> subscription \<Rightarrow> subscription \<Rightarrow> subscription" where
  "write_changes loaded left row = row\<lparr>
     sub_provider := (if sub_provider left = sub_provider loaded then sub_provider row else sub_provider left),
     sub_provider_id := (if sub_provider_id left = sub_provider_id loaded then sub_provider_id row else sub_provider_id left),
     sub_status := (if sub_status left = sub_status loaded then sub_status row else sub_status left),
     sub_plan := (if sub_plan left = sub_plan loaded then sub_plan row else sub_plan left),
     sub_period_end := (if sub_period_end left = sub_period_end loaded then sub_period_end row else sub_period_end left)\<rparr>"

definition update_loaded :: "string \<Rightarrow> payment_event \<Rightarrow> subscription \<Rightarrow> subscription list \<Rightarrow> subscription list" where
  "update_loaded prov ev s = update_where (\<lambda>x. sub_id x = sub_id s) (write_changes s (update_subscription prov ev s))"

abbreviation proceeds :: "hook_world \<Rightarrow> nat \<Rightarrow> hook_txn \<Rightarrow> hook_world" where
  "proceeds w i x \<equiv> w\<lparr>hw_txs := (hw_txs w)(i := x)\<rparr>"

text \<open>A delivery commits its record and the subscriptions as they then are.\<close>

definition finishes :: "hook_world \<Rightarrow> nat \<Rightarrow> string \<Rightarrow> payment_event \<Rightarrow> subscription list \<Rightarrow> hook_world" where
  "finishes w i prov ev subs = \<lparr>hw_db = (hw_db w)\<lparr>processed := processed (hw_db w) @ [event_record prov ev], subscriptions := subs\<rparr>,
     hw_txs = (hw_txs w)(i := Rest), hw_applied = (prov, pe_event_id ev) # hw_applied w\<rparr>"

definition matching_orgs :: "payment_event \<Rightarrow> billing_db \<Rightarrow> organization list" where
  "matching_orgs ev db = filter (\<lambda>o'. payments_customer_id o' = pe_customer_ref ev) (b_orgs db)"

text \<open>
  The steps. An INSERT waits while another open transaction has inserted its key and fails when the key is committed,
  which ends in a rollback. A delivery that finds its event recorded answers and changes nothing.
\<close>

inductive hook_step :: "string \<Rightarrow> hook_world \<Rightarrow> hook_world \<Rightarrow> bool" for prov :: string where
  look: "hw_txs w i = Rest \<Longrightarrow> (prov, pe_event_id ev) \<notin> event_key ` set (processed (hw_db w))
    \<Longrightarrow> hook_step prov w (proceeds w i (Unseen ev))"
| insert_record: "hw_txs w i = Unseen ev \<Longrightarrow> pe_event_type ev \<in> set SUBSCRIPTION_EVENTS
    \<Longrightarrow> (prov, pe_event_id ev) \<notin> event_key ` set (processed (hw_db w)) \<Longrightarrow> key_free (hw_txs w) i (pe_event_id ev)
    \<Longrightarrow> hook_step prov w (proceeds w i (Recorded ev))"
| finish_ignored: "hw_txs w i = Unseen ev \<Longrightarrow> pe_event_type ev \<notin> set SUBSCRIPTION_EVENTS
    \<Longrightarrow> (prov, pe_event_id ev) \<notin> event_key ` set (processed (hw_db w)) \<Longrightarrow> key_free (hw_txs w) i (pe_event_id ev)
    \<Longrightarrow> hook_step prov w (finishes w i prov ev (subscriptions (hw_db w)))"
| select_org: "hw_txs w i = Recorded ev \<Longrightarrow> matching_orgs ev (hw_db w) = [org]
    \<Longrightarrow> hook_step prov w (proceeds w i (Found ev org))"
| finish_unknown: "hw_txs w i = Recorded ev \<Longrightarrow> matching_orgs ev (hw_db w) = []
    \<Longrightarrow> hook_step prov w (finishes w i prov ev (subscriptions (hw_db w)))"
| select_subscription: "hw_txs w i = Found ev org
    \<Longrightarrow> hook_step prov w (proceeds w i (Loaded ev org (lookup_by sub_org (org_id org) (subscriptions (hw_db w)))))"
| finish_insert: "hw_txs w i = Loaded ev org None \<Longrightarrow> s = fresh_subscription new_id prov ev org
    \<Longrightarrow> sub_id s \<notin> sub_id ` set (subscriptions (hw_db w)) \<Longrightarrow> sub_org s \<notin> sub_org ` set (subscriptions (hw_db w))
    \<Longrightarrow> sub_provider_id s \<notin> sub_provider_id ` set (subscriptions (hw_db w))
    \<Longrightarrow> hook_step prov w (finishes w i prov ev (subscriptions (hw_db w) @ [s]))"
| finish_update: "hw_txs w i = Loaded ev org (Some s) \<Longrightarrow> ss = update_loaded prov ev s (subscriptions (hw_db w))
    \<Longrightarrow> distinct (map sub_provider_id ss) \<Longrightarrow> hook_step prov w (finishes w i prov ev ss)"
| begin_checkout: "hw_txs w i = Rest \<Longrightarrow> get_org oid (hw_db w) = Inr org \<Longrightarrow> payments_customer_id org = None
    \<Longrightarrow> hook_step prov w (proceeds w i (Checkout org))"
| end_checkout: "hw_txs w i = Checkout org \<Longrightarrow> Some c \<notin> payments_customer_id ` set (b_orgs (hw_db w))
    \<Longrightarrow> hook_step prov w (w\<lparr>hw_db := save_org (org\<lparr>payments_customer_id := Some c\<rparr>) (hw_db w),
          hw_txs := (hw_txs w)(i := Rest)\<rparr>)"
| hook_rollback: "hook_step prov w (proceeds w i Rest)"

abbreviation hook_steps :: "string \<Rightarrow> hook_world \<Rightarrow> hook_world \<Rightarrow> bool" where
  "hook_steps prov \<equiv> (hook_step prov)\<^sup>*\<^sup>*"

definition calm :: "billing_db \<Rightarrow> hook_world" where
  "calm db = \<lparr>hw_db = db, hw_txs = (\<lambda>_. Rest), hw_applied = []\<rparr>"

section \<open>Every event once\<close>

lemma write_changes_simps [simp]:
  "sub_id (write_changes a b r) = sub_id r" "sub_org (write_changes a b r) = sub_org r"
  by (simp_all add: write_changes_def)

lemma write_changes_own: "write_changes s (update_subscription prov ev s) s = update_subscription prov ev s"
  by (simp add: write_changes_def update_subscription_def)

text \<open>No open transaction holds a committed key, and no two hold the same.\<close>

definition holds_ok :: "string \<Rightarrow> (string \<times> string) set \<Rightarrow> (nat \<Rightarrow> hook_txn) \<Rightarrow> bool" where
  "holds_ok prov keys txs \<longleftrightarrow> (\<forall>i ev. held_event (txs i) = Some ev \<longrightarrow> (prov, pe_event_id ev) \<notin> keys)
     \<and> (\<forall>i j ev ev'. i \<noteq> j \<longrightarrow> held_event (txs i) = Some ev \<longrightarrow> held_event (txs j) = Some ev' \<longrightarrow> pe_event_id ev \<noteq> pe_event_id ev')"

definition hooks_inv :: "string \<Rightarrow> billing_db \<Rightarrow> hook_world \<Rightarrow> bool" where
  "hooks_inv prov db w \<longleftrightarrow> billing_ok (hw_db w) \<and> unique_on sub_id (subscriptions (hw_db w))
     \<and> map event_key (processed (hw_db w)) = map event_key (processed db) @ rev (hw_applied w)
     \<and> holds_ok prov (event_key ` set (processed (hw_db w))) (hw_txs w)"

lemma holds_okD:
  assumes "holds_ok prov keys txs" "held_event (txs i) = Some ev"
  shows "(prov, pe_event_id ev) \<notin> keys" "key_free txs i (pe_event_id ev)"
proof -
  show "(prov, pe_event_id ev) \<notin> keys" using assms unfolding holds_ok_def by blast
  show "key_free txs i (pe_event_id ev)" using assms unfolding holds_ok_def key_free_def by metis
qed

lemma holds_ok_set:
  assumes "holds_ok prov keys txs"
    and "\<And>ev. held_event x = Some ev \<Longrightarrow> (prov, pe_event_id ev) \<notin> keys \<and> key_free txs i (pe_event_id ev)"
  shows "holds_ok prov keys (txs(i := x))"
  using assms unfolding holds_ok_def key_free_def by (auto split: if_splits) metis+

lemma holds_ok_finish:
  "holds_ok prov keys txs \<Longrightarrow> key_free txs i (pe_event_id ev)
    \<Longrightarrow> holds_ok prov (insert (prov, pe_event_id ev) keys) (txs(i := Rest))"
  unfolding holds_ok_def key_free_def by auto

lemma hooks_inv_held:
  assumes "hooks_inv prov db w" "held_event (hw_txs w i) = Some ev"
  shows "(prov, pe_event_id ev) \<notin> event_key ` set (processed (hw_db w))" "key_free (hw_txs w) i (pe_event_id ev)"
proof -
  have "holds_ok prov (event_key ` set (processed (hw_db w))) (hw_txs w)" using assms(1) by (simp add: hooks_inv_def)
  from holds_okD [OF this assms(2)]
  show "(prov, pe_event_id ev) \<notin> event_key ` set (processed (hw_db w))" "key_free (hw_txs w) i (pe_event_id ev)" .
qed

lemma hooks_invD:
  assumes "hooks_inv prov db w"
  shows "unique_on sub_org (subscriptions (hw_db w))" "unique_on sub_id (subscriptions (hw_db w))"
    "distinct (map sub_provider_id (subscriptions (hw_db w)))" "unique_on event_key (processed (hw_db w))"
  using assms unfolding hooks_inv_def billing_ok_def by blast+

lemma event_key_record [simp]: "event_key (event_record prov ev) = (prov, pe_event_id ev)"
  by (simp add: event_key_def event_record_def)

lemma hooks_inv_proceeds:
  assumes "hooks_inv prov db w"
    and "\<And>ev. held_event x = Some ev \<Longrightarrow> (prov, pe_event_id ev) \<notin> event_key ` set (processed (hw_db w))
      \<and> key_free (hw_txs w) i (pe_event_id ev)"
  shows "hooks_inv prov db (proceeds w i x)"
  using assms(1) holds_ok_set [of prov "event_key ` set (processed (hw_db w))" "hw_txs w" x i, OF _ assms(2)]
  by (simp add: hooks_inv_def)

lemma hooks_inv_finishes:
  assumes inv: "hooks_inv prov db w" and new: "(prov, pe_event_id ev) \<notin> event_key ` set (processed (hw_db w))"
    and free: "key_free (hw_txs w) i (pe_event_id ev)"
    and subs: "unique_on sub_org subs" "unique_on sub_id subs" "distinct (map sub_provider_id subs)"
  shows "hooks_inv prov db (finishes w i prov ev subs)"
proof -
  have "holds_ok prov (insert (prov, pe_event_id ev) (event_key ` set (processed (hw_db w)))) ((hw_txs w)(i := Rest))"
    using inv free by (intro holds_ok_finish) (simp_all add: hooks_inv_def)
  moreover have "unique_on event_key (processed (hw_db w) @ [event_record prov ev])"
    using hooks_invD(4) [OF inv] new by (simp add: unique_on_def)
  ultimately show ?thesis using inv subs by (simp add: hooks_inv_def finishes_def billing_ok_def)
qed

lemma hook_step_inv: "hook_step prov w w' \<Longrightarrow> hooks_inv prov db w \<Longrightarrow> hooks_inv prov db w'"
proof (induction rule: hook_step.induct)
  case (insert_record w i ev)
  then show ?case by (intro hooks_inv_proceeds) simp_all
next
  case (finish_ignored w i ev)
  then show ?case by (intro hooks_inv_finishes) (simp_all add: hooks_inv_def billing_ok_def)
next
  case (select_org w i ev org)
  have "held_event (hw_txs w i) = Some ev" using select_org by simp
  from hooks_inv_held [OF select_org.prems this] show ?case using select_org.prems by (intro hooks_inv_proceeds) simp_all
next
  case (finish_unknown w i ev)
  have "held_event (hw_txs w i) = Some ev" using finish_unknown by simp
  from hooks_inv_held [OF finish_unknown.prems this] show ?case
    using finish_unknown.prems by (intro hooks_inv_finishes) (simp_all add: hooks_inv_def billing_ok_def)
next
  case (select_subscription w i ev org)
  have "held_event (hw_txs w i) = Some ev" using select_subscription by simp
  from hooks_inv_held [OF select_subscription.prems this] show ?case
    using select_subscription.prems by (intro hooks_inv_proceeds) simp_all
next
  case (finish_insert w i ev org s new_id)
  have "held_event (hw_txs w i) = Some ev" using finish_insert by simp
  from hooks_inv_held [OF finish_insert.prems this] show ?case
    using finish_insert hooks_invD(1-3) [OF finish_insert.prems] by (intro hooks_inv_finishes) (simp_all add: unique_on_def)
next
  case (finish_update w i ev org s ss)
  have held: "held_event (hw_txs w i) = Some ev" using finish_update by simp
  have "unique_on sub_org ss" "unique_on sub_id ss"
    using finish_update.prems unfolding finish_update(2) update_loaded_def hooks_inv_def billing_ok_def
    by (auto intro!: unique_on_update)
  then show ?case
    using finish_update hooks_inv_held [OF finish_update.prems held] by (intro hooks_inv_finishes) simp_all
next
  case (end_checkout w i org c)
  have "holds_ok prov (event_key ` set (processed (hw_db w))) ((hw_txs w)(i := Rest))"
    using end_checkout.prems by (intro holds_ok_set) (simp_all add: hooks_inv_def)
  then show ?case using end_checkout.prems by (simp add: hooks_inv_def billing_ok_def)
qed (auto intro: hooks_inv_proceeds)

lemma hook_steps_inv: "hook_steps prov w w' \<Longrightarrow> hooks_inv prov db w \<Longrightarrow> hooks_inv prov db w'"
  by (induction rule: rtranclp_induct) (auto intro: hook_step_inv)

text \<open>C10. In every interleaving of deliveries and checkouts an event takes effect at most once, the record of events grows by
  exactly those that did, and the uniqueness of subscriptions holds.\<close>

theorem event_applied_once:
  assumes "billing_ok db" and "unique_on sub_id (subscriptions db)" and run: "hook_steps prov (calm db) w"
  shows "distinct (hw_applied w) \<and> set (hw_applied w) \<inter> event_key ` set (processed db) = {}
    \<and> map event_key (processed (hw_db w)) = map event_key (processed db) @ rev (hw_applied w) \<and> billing_ok (hw_db w)"
proof -
  have "hooks_inv prov db (calm db)" using assms(1,2) by (simp add: hooks_inv_def calm_def holds_ok_def)
  from hook_steps_inv [OF run this] have inv: "hooks_inv prov db w" .
  then have "distinct (map event_key (processed db) @ rev (hw_applied w))"
    by (metis hooks_inv_def billing_ok_def unique_on_def)
  then show ?thesis using inv by (auto simp: hooks_inv_def)
qed

section \<open>One delivery alone\<close>

lemma update_loaded_own:
  assumes "unique_on sub_id subs" "unique_on sub_org subs" "lookup_by sub_org oid subs = Some s"
  shows "update_loaded prov ev s subs = update_where (\<lambda>x. sub_org x = oid) (update_subscription prov ev) subs"
proof -
  have s: "s \<in> set subs" "sub_org s = oid" using lookup_by_SomeD [OF assms(3)] by simp_all
  have "(if sub_id x = sub_id s then write_changes s (update_subscription prov ev s) x else x)
      = (if sub_org x = oid then update_subscription prov ev x else x)" if "x \<in> set subs" for x
    using unique_onD [OF assms(1) that s(1)] unique_onD [OF assms(2) that s(1)] s(2) by (auto simp: write_changes_own)
  then show ?thesis by (simp add: update_loaded_def update_where_def)
qed

text \<open>
  The runs in which a transaction handles one event, any number of times and with any rollbacks, while every other
  transaction rests.
\<close>

fun on_event :: "payment_event \<Rightarrow> hook_txn \<Rightarrow> bool" where
  "on_event ev Rest \<longleftrightarrow> True"
| "on_event ev (Unseen e) \<longleftrightarrow> e = ev"
| "on_event ev (Recorded e) \<longleftrightarrow> e = ev"
| "on_event ev (Found e org) \<longleftrightarrow> e = ev"
| "on_event ev (Loaded e org s) \<longleftrightarrow> e = ev"
| "on_event ev (Checkout org) \<longleftrightarrow> False"

definition lone_step :: "string \<Rightarrow> nat \<Rightarrow> payment_event \<Rightarrow> hook_world \<Rightarrow> hook_world \<Rightarrow> bool" where
  "lone_step prov i ev w w' \<longleftrightarrow> hook_step prov w w'
     \<and> (\<forall>j. if j = i then on_event ev (hw_txs w' j) else hw_txs w' j = Rest)"

abbreviation lone_steps :: "string \<Rightarrow> nat \<Rightarrow> payment_event \<Rightarrow> hook_world \<Rightarrow> hook_world \<Rightarrow> bool" where
  "lone_steps prov i ev \<equiv> (lone_step prov i ev)\<^sup>*\<^sup>*"

lemma lone_hook_steps: "lone_steps prov i ev w w' \<Longrightarrow> hook_steps prov w w'"
  by (erule mono_rtranclp [rule_format, rotated]) (simp add: lone_step_def)

definition lone_at :: "billing_db \<Rightarrow> nat \<Rightarrow> hook_txn \<Rightarrow> hook_world" where
  "lone_at db i x = \<lparr>hw_db = db, hw_txs = (\<lambda>_. Rest)(i := x), hw_applied = []\<rparr>"

definition done_alone :: "string \<Rightarrow> payment_event \<Rightarrow> billing_db \<Rightarrow> hook_world" where
  "done_alone prov ev db' = \<lparr>hw_db = db', hw_txs = (\<lambda>_. Rest), hw_applied = [(prov, pe_event_id ev)]\<rparr>"

lemma lone_at_simps [simp]:
  "hw_db (lone_at db i x) = db" "hw_txs (lone_at db i x) i = x" "proceeds (lone_at db i x) i y = lone_at db i y"
  "j \<noteq> i \<Longrightarrow> hw_txs (lone_at db i x) j = Rest" "hw_applied (lone_at db i x) = []"
  "key_free (hw_txs (lone_at db i x)) i eid"
  by (simp_all add: lone_at_def key_free_def)

lemma lone_at_calm: "lone_at db i Rest = calm db"
  by (simp add: lone_at_def calm_def fun_upd_idem)

lemma lone_at_finishes: "finishes (lone_at db i x) i prov ev subs
    = done_alone prov ev (db\<lparr>processed := processed db @ [event_record prov ev], subscriptions := subs\<rparr>)"
  by (simp add: lone_at_def finishes_def done_alone_def fun_upd_idem)

lemma done_alone_simps [simp]:
  "hw_db (done_alone prov ev db) = db" "hw_txs (done_alone prov ev db) = (\<lambda>_. Rest)"
  "hw_applied (done_alone prov ev db) = [(prov, pe_event_id ev)]"
  by (simp_all add: done_alone_def)

text \<open>What the route makes of an event.\<close>

definition delivered :: "string \<Rightarrow> uuid \<Rightarrow> payment_event \<Rightarrow> billing_db \<Rightarrow> billing_db \<Rightarrow> bool" where
  "delivered prov new_id ev db db' \<longleftrightarrow> (prov, pe_event_id ev) \<notin> event_key ` set (processed db)
     \<and> (let db1 = db\<lparr>processed := processed db @ [event_record prov ev]\<rparr>
        in if pe_event_type ev \<in> set SUBSCRIPTION_EVENTS then sync_subscription new_id prov ev db1 = Inr db' else db' = db1)"

lemma webhook_delivered:
  assumes "pp_verify_webhook p b sg = Inr ev"
  shows "payments_webhook p new_id b sg db = (Inr ''ok'', db') \<longleftrightarrow> delivered (pp_name p) new_id ev db db'"
proof (cases "lookup_by event_key (pp_name p, pe_event_id ev) (processed db)")
  case None
  then have "(pp_name p, pe_event_id ev) \<notin> event_key ` set (processed db)" by (simp add: lookup_by_None)
  then show ?thesis using assms None
    by (auto simp: payments_webhook_def delivered_def event_record_def Let_def split: sum.splits)
next
  case (Some r)
  then have "(pp_name p, pe_event_id ev) \<in> event_key ` set (processed db)"
    using lookup_by_None [of event_key "(pp_name p, pe_event_id ev)" "processed db"] by fastforce
  then show ?thesis using assms Some by (auto simp: payments_webhook_def delivered_def)
qed

lemma lone_move:
  assumes "lone_steps prov i ev (calm db) (lone_at db i x)" "hook_step prov (lone_at db i x) (lone_at db i y)" "on_event ev y"
  shows "lone_steps prov i ev (calm db) (lone_at db i y)"
  using assms(1) by (rule rtranclp.rtrancl_into_rtrancl) (simp add: lone_step_def assms(2,3))

lemma lone_finish:
  assumes "lone_steps prov i ev (calm db) (lone_at db i x)" "hook_step prov (lone_at db i x) (done_alone prov ev db')"
  shows "lone_steps prov i ev (calm db) (done_alone prov ev db')"
  using assms(1) by (rule rtranclp.rtrancl_into_rtrancl) (simp add: lone_step_def assms(2))

lemma lone_starts:
  assumes "(prov, pe_event_id ev) \<notin> event_key ` set (processed db)"
  shows "lone_steps prov i ev (calm db) (lone_at db i (Unseen ev))"
proof -
  have step: "hook_step prov (lone_at db i Rest) (lone_at db i (Unseen ev))"
    using hook_step.look [of "lone_at db i Rest" i prov ev] assms by simp
  have "lone_steps prov i ev (calm db) (lone_at db i Rest)" by (simp add: lone_at_calm)
  from lone_move [OF this step] show ?thesis by simp
qed

lemma lone_loads:
  assumes new: "(prov, pe_event_id ev) \<notin> event_key ` set (processed db)" and type: "pe_event_type ev \<in> set SUBSCRIPTION_EVENTS"
  shows "lone_steps prov i ev (calm db) (lone_at db i (Recorded ev))"
    and "matching_orgs ev db = [org]
      \<Longrightarrow> lone_steps prov i ev (calm db) (lone_at db i (Loaded ev org (lookup_by sub_org (org_id org) (subscriptions db))))"
proof -
  show rec: "lone_steps prov i ev (calm db) (lone_at db i (Recorded ev))"
    using lone_move [OF lone_starts [OF new]] hook_step.insert_record [of "lone_at db i (Unseen ev)" i ev prov] new type by simp
  assume m: "matching_orgs ev db = [org]"
  have "lone_steps prov i ev (calm db) (lone_at db i (Found ev org))"
    using lone_move [OF rec] hook_step.select_org [of "lone_at db i (Recorded ev)" i ev org prov] m by simp
  from lone_move [OF this] hook_step.select_subscription [of "lone_at db i (Found ev org)" i ev org prov]
  show "lone_steps prov i ev (calm db) (lone_at db i (Loaded ev org (lookup_by sub_org (org_id org) (subscriptions db))))" by simp
qed

lemma delivery_runs:
  assumes ok: "billing_ok db" "unique_on sub_id (subscriptions db)" "new_id \<notin> sub_id ` set (subscriptions db)"
    and del: "delivered prov new_id ev db db'"
  shows "lone_steps prov i ev (calm db) (done_alone prov ev db')"
proof (cases "pe_event_type ev \<in> set SUBSCRIPTION_EVENTS")
  case False
  have new: "(prov, pe_event_id ev) \<notin> event_key ` set (processed db)" using del by (simp add: delivered_def)
  show ?thesis
    using lone_finish [OF lone_starts [OF new]] hook_step.finish_ignored [of "lone_at db i (Unseen ev)" i ev prov] new del False
    by (simp add: delivered_def lone_at_finishes)
next
  case True
  have new: "(prov, pe_event_id ev) \<notin> event_key ` set (processed db)" using del by (simp add: delivered_def)
  note recorded = lone_loads(1) [OF new True] and loaded = lone_loads(2) [OF new True]
  have "sync_subscription new_id prov ev (db\<lparr>processed := processed db @ [event_record prov ev]\<rparr>) = Inr db'"
    using del True by (simp add: delivered_def)
  then show ?thesis
  proof (cases rule: sync_cases)
    case unknown
    then show ?thesis using lone_finish [OF recorded] hook_step.finish_unknown [of "lone_at db i (Recorded ev)" i ev prov]
      by (simp add: lone_at_finishes matching_orgs_def)
  next
    case (inserted org s)
    let ?l = "lone_at db i (Loaded ev org None)"
    have s: "s = fresh_subscription new_id prov ev org" "sub_id s = new_id" "sub_org s = org_id org"
      using inserted(3) by (simp_all add: fresh_subscription_def)
    have none: "lookup_by sub_org (org_id org) (subscriptions db) = None" using inserted(2) by simp
    have "hook_step prov ?l (finishes ?l i prov ev (subscriptions db @ [s]))"
      using hook_step.finish_insert [of ?l i ev org s new_id prov] inserted(4) s ok(3) none by (simp add: lookup_by_None)
    then show ?thesis using lone_finish [OF loaded [of org]] inserted(1,5) none by (simp add: lone_at_finishes matching_orgs_def)
  next
    case (updated org s ss)
    let ?l = "lone_at db i (Loaded ev org (Some s))"
    have some: "lookup_by sub_org (org_id org) (subscriptions db) = Some s" using updated(2) by simp
    have ss: "ss = update_loaded prov ev s (subscriptions db)"
      using update_loaded_own [OF ok(2) _ some, of prov ev] ok(1) updated(3) by (simp add: billing_ok_def)
    have "hook_step prov ?l (finishes ?l i prov ev ss)"
      using hook_step.finish_update [of ?l i ev org s ss prov] ss updated(4) by simp
    then show ?thesis using lone_finish [OF loaded [of org]] updated(1,5) some by (simp add: lone_at_finishes matching_orgs_def)
  qed
qed

text \<open>Where a transaction can be that is alone, and that nothing but the outcome of the route comes of it.\<close>

definition newly :: "string \<Rightarrow> payment_event \<Rightarrow> billing_db \<Rightarrow> payment_event \<Rightarrow> bool" where
  "newly prov ev db e \<longleftrightarrow> e = ev \<and> pe_event_type ev \<in> set SUBSCRIPTION_EVENTS
     \<and> (prov, pe_event_id ev) \<notin> event_key ` set (processed db)"

fun lone_ok :: "string \<Rightarrow> payment_event \<Rightarrow> billing_db \<Rightarrow> hook_txn \<Rightarrow> bool" where
  "lone_ok prov ev db Rest \<longleftrightarrow> True"
| "lone_ok prov ev db (Unseen e) \<longleftrightarrow> e = ev"
| "lone_ok prov ev db (Recorded e) \<longleftrightarrow> newly prov ev db e"
| "lone_ok prov ev db (Found e org) \<longleftrightarrow> newly prov ev db e \<and> matching_orgs ev db = [org]"
| "lone_ok prov ev db (Loaded e org s) \<longleftrightarrow> newly prov ev db e \<and> matching_orgs ev db = [org]
     \<and> s = lookup_by sub_org (org_id org) (subscriptions db)"
| "lone_ok prov ev db (Checkout org) \<longleftrightarrow> False"

definition lone_inv :: "string \<Rightarrow> nat \<Rightarrow> payment_event \<Rightarrow> billing_db \<Rightarrow> hook_world \<Rightarrow> bool" where
  "lone_inv prov i ev db w \<longleftrightarrow> (\<exists>x. w = lone_at db i x \<and> lone_ok prov ev db x)
     \<or> (\<exists>new_id db'. new_id \<notin> sub_id ` set (subscriptions db) \<and> delivered prov new_id ev db db' \<and> w = done_alone prov ev db')"

lemma fresh_id: "\<exists>x :: string. x \<notin> f ` set xs"
  using infinite_UNIV_listI ex_new_if_finite by blast

lemma delivered_recorded:
  "newly prov ev db ev \<Longrightarrow> delivered prov new_id ev db db' \<longleftrightarrow>
    sync_subscription new_id prov ev (db\<lparr>processed := processed db @ [event_record prov ev]\<rparr>) = Inr db'"
  by (simp add: delivered_def newly_def)

lemma lone_inv_done:
  "new_id \<notin> sub_id ` set (subscriptions db) \<Longrightarrow> delivered prov new_id ev db db' \<Longrightarrow> lone_inv prov i ev db (done_alone prov ev db')"
  unfolding lone_inv_def by blast

lemma delivered_keeps: "delivered prov new_id ev db db' \<Longrightarrow> processed db' = processed db @ [event_record prov ev]"
  by (auto simp: delivered_def Let_def split: if_splits elim!: sync_cases)

lemma lone_at_busy: "hw_txs (lone_at db i x) k = y \<Longrightarrow> y \<noteq> Rest \<Longrightarrow> k = i \<and> y = x"
  by (cases "k = i") simp_all

lemma lone_at_rollback: "proceeds (lone_at db i x) k Rest = (if k = i then lone_at db i Rest else lone_at db i x)"
proof (cases "k = i")
  case False
  then have "((\<lambda>_. Rest)(i := x))(k := Rest) = (\<lambda>_. Rest)(i := x)" by auto
  then show ?thesis using False by (simp add: lone_at_def)
qed simp

lemma lone_step_at:
  assumes ok: "billing_ok db" "unique_on sub_id (subscriptions db)" and at: "lone_ok prov ev db x"
    and step: "hook_step prov (lone_at db i x) w'" and lone: "\<And>j. if j = i then on_event ev (hw_txs w' j) else hw_txs w' j = Rest"
  shows "lone_inv prov i ev db w'"
proof -
  have here: "lone_inv prov i ev db (lone_at db i y)" if "lone_ok prov ev db y" for y
    unfolding lone_inv_def by (intro disjI1 exI conjI) (rule refl, rule that)
  obtain fresh where fresh: "fresh \<notin> sub_id ` set (subscriptions db)" using fresh_id [of sub_id "subscriptions db"] by blast
  from step show ?thesis
  proof (cases rule: hook_step.cases)
    case (look k ev')
    then have "k = i" using lone [of k] by (auto split: if_splits)
    then show ?thesis using look lone [of i] here [of "Unseen ev"] by simp
  next
    case (insert_record k ev')
    then have "k = i" "x = Unseen ev'" by (auto dest: lone_at_busy)
    then show ?thesis using insert_record at here [of "Recorded ev"] by (simp add: newly_def)
  next
    case (finish_ignored k ev')
    then have "k = i" "x = Unseen ev'" by (auto dest: lone_at_busy)
    then show ?thesis using finish_ignored at fresh
      by (auto simp: lone_at_finishes delivered_def intro!: lone_inv_done)
  next
    case (select_org k ev' org)
    then have "k = i" "x = Recorded ev'" by (auto dest: lone_at_busy)
    then show ?thesis using select_org at here [of "Found ev org"] by (simp add: newly_def)
  next
    case (finish_unknown k ev')
    then have x: "k = i" "x = Recorded ev'" by (auto dest: lone_at_busy)
    have "ev' = ev" "newly prov ev db ev" using at x by (simp_all add: newly_def)
    then show ?thesis using finish_unknown x fresh
      by (auto simp: lone_at_finishes delivered_recorded sync_subscription_def matching_orgs_def intro!: lone_inv_done)
  next
    case (select_subscription k ev' org)
    then have "k = i" "x = Found ev' org" by (auto dest: lone_at_busy)
    then show ?thesis using select_subscription at
        here [of "Loaded ev org (lookup_by sub_org (org_id org) (subscriptions db))"] by (simp add: newly_def)
  next
    case (finish_insert k ev' org s new_id)
    then have x: "k = i" "x = Loaded ev' org None" by (auto dest: lone_at_busy)
    have "ev' = ev" "newly prov ev db ev" using at x by (simp_all add: newly_def)
    then show ?thesis using finish_insert x at
      by (auto simp: lone_at_finishes delivered_recorded sync_subscription_def matching_orgs_def fresh_subscription_def
          insert_unique_def intro!: lone_inv_done [of new_id])
  next
    case (finish_update k ev' org s ss)
    then have x: "k = i" "x = Loaded ev' org (Some s)" by (auto dest: lone_at_busy)
    then have ev: "ev' = ev" "newly prov ev db ev" "matching_orgs ev db = [org]"
      and s: "lookup_by sub_org (org_id org) (subscriptions db) = Some s" using at by (simp_all add: newly_def)
    have ss: "ss = update_where (\<lambda>x. sub_org x = org_id org) (update_subscription prov ev) (subscriptions db)"
      using finish_update x(1) ev(1) update_loaded_own [OF ok(2) _ s, of prov ev] ok(1) by (simp add: billing_ok_def)
    have "delivered prov fresh ev db (db\<lparr>processed := processed db @ [event_record prov ev], subscriptions := ss\<rparr>)"
      using finish_update(4) s ev(3) unfolding delivered_recorded [OF ev(2)] ss
      by (simp add: sync_subscription_def matching_orgs_def)
    from lone_inv_done [OF fresh this] show ?thesis using finish_update(1) x(1) ev(1) by (simp add: lone_at_finishes)
  next
    case (begin_checkout k oid org)
    then show ?thesis using lone [of k] by (auto split: if_splits)
  next
    case (end_checkout k org c)
    then have "x = Checkout org" by (auto dest: lone_at_busy)
    then show ?thesis using at by simp
  next
    case (hook_rollback k)
    then show ?thesis using at here [of x] here [of Rest] lone_at_rollback [of db i x k] by (auto split: if_splits)
  qed
qed

lemma lone_step_done:
  assumes del: "new_id \<notin> sub_id ` set (subscriptions db)" "delivered prov new_id ev db db'"
    and step: "hook_step prov (done_alone prov ev db') w'"
    and lone: "\<And>j. if j = i then on_event ev (hw_txs w' j) else hw_txs w' j = Rest"
  shows "lone_inv prov i ev db w'"
proof -
  have recorded: "(prov, pe_event_id ev) \<in> event_key ` set (processed db')" using delivered_keeps [OF del(2)] by simp
  from step show ?thesis
  proof (cases rule: hook_step.cases)
    case (look k ev')
    then have "ev' = ev" using lone [of k] by (auto split: if_splits)
    then show ?thesis using look recorded by simp
  next
    case (begin_checkout k oid org)
    then show ?thesis using lone [of k] by (auto split: if_splits)
  next
    case (hook_rollback k)
    then have "w' = done_alone prov ev db'" by (simp add: done_alone_def fun_upd_idem)
    then show ?thesis using lone_inv_done [OF del] by simp
  qed simp_all
qed

lemma lone_steps_inv:
  assumes ok: "billing_ok db" "unique_on sub_id (subscriptions db)" and run: "lone_steps prov i ev (calm db) w"
  shows "lone_inv prov i ev db w"
  using run
proof (induction rule: rtranclp_induct)
  case base
  have "lone_ok prov ev db Rest" by simp
  then show ?case unfolding lone_inv_def lone_at_calm [of db i, symmetric] by blast
next
  case (step v w)
  have hook: "hook_step prov v w" and lone: "\<And>j. if j = i then on_event ev (hw_txs w j) else hw_txs w j = Rest"
    using step.hyps(2) by (simp_all add: lone_step_def)
  from step.IH show ?case unfolding lone_inv_def [of prov i ev db v]
    using lone_step_at [OF ok _ _ lone] lone_step_done [OF _ _ _ lone] hook by blast
qed

text \<open>C11. A delivery that is alone does what the route does and nothing else. While one transaction handles one verified
  event, of any type, and every other rests, a state in which it rests too is the one it started from (nothing was
  committed: the event is a duplicate, the handler failed, or it was rolled back) or exactly the one the route returns when
  it answers ok, with that one event applied; and each answer ok of the route, with an unused id for a subscription
  it may insert, is reached so.\<close>

theorem lone_delivery_is_the_route:
  assumes "billing_ok db" and "unique_on sub_id (subscriptions db)" and "pp_verify_webhook p b sg = Inr ev"
  shows "lone_steps (pp_name p) i ev (calm db) w \<and> hw_txs w i = Rest \<longleftrightarrow> w = calm db
    \<or> (\<exists>new_id db'. new_id \<notin> sub_id ` set (subscriptions db) \<and> payments_webhook p new_id b sg db = (Inr ''ok'', db')
        \<and> w = \<lparr>hw_db = db', hw_txs = (\<lambda>_. Rest), hw_applied = [(pp_name p, pe_event_id ev)]\<rparr>)" (is "?run \<longleftrightarrow> ?route")
proof
  assume run: ?run
  then have "lone_inv (pp_name p) i ev db w" using lone_steps_inv [OF assms(1,2)] by blast
  then consider x where "w = lone_at db i x" | new_id db' where "new_id \<notin> sub_id ` set (subscriptions db)"
    "delivered (pp_name p) new_id ev db db'" "w = done_alone (pp_name p) ev db'"
    unfolding lone_inv_def by blast
  then show ?route
  proof cases
    case 1
    then have "w = lone_at db i Rest" using run by simp
    then show ?thesis by (simp add: lone_at_calm)
  next
    case 2
    then show ?thesis unfolding webhook_delivered [OF assms(3)] done_alone_def by blast
  qed
next
  assume ?route
  moreover have "?run" if "w = calm db" using that by (simp add: calm_def)
  moreover have "?run" if "new_id \<notin> sub_id ` set (subscriptions db)" "delivered (pp_name p) new_id ev db db'"
    "w = done_alone (pp_name p) ev db'" for new_id db'
    using delivery_runs [OF assms(1,2) that(1,2), of i] that(3) by simp
  ultimately show ?run unfolding webhook_delivered [OF assms(3)] done_alone_def by blast
qed

section \<open>Deliveries that overlap\<close>

definition two_at :: "billing_db \<Rightarrow> hook_txn \<Rightarrow> hook_txn \<Rightarrow> hook_world" where
  "two_at db x y = \<lparr>hw_db = db, hw_txs = (\<lambda>_. Rest)(0 := x, 1 := y), hw_applied = []\<rparr>"

lemma two_at_simps [simp]:
  "hw_txs (two_at db x y) 0 = x" "hw_txs (two_at db x y) (Suc 0) = y" "hw_db (two_at db x y) = db"
  "proceeds (two_at db x y) 0 x' = two_at db x' y" "proceeds (two_at db x y) (Suc 0) y' = two_at db x y'"
  by (simp_all add: two_at_def fun_upd_twist)

lemma two_at_calm: "two_at db Rest Rest = calm db"
  by (simp add: two_at_def calm_def fun_upd_idem)

lemma both_loaded:
  assumes "pe_event_type ev1 \<in> set SUBSCRIPTION_EVENTS" "pe_event_type ev2 \<in> set SUBSCRIPTION_EVENTS"
    and "(prov, pe_event_id ev1) \<notin> event_key ` set (processed db)" "(prov, pe_event_id ev2) \<notin> event_key ` set (processed db)"
    and "pe_event_id ev1 \<noteq> pe_event_id ev2" "matching_orgs ev1 db = [org]" "matching_orgs ev2 db = [org]"
  shows "hook_steps prov (calm db) (two_at db (Loaded ev1 org (lookup_by sub_org (org_id org) (subscriptions db)))
    (Loaded ev2 org (lookup_by sub_org (org_id org) (subscriptions db))))"
proof -
  let ?s = "lookup_by sub_org (org_id org) (subscriptions db)"
  have goes: "hook_steps prov u v \<Longrightarrow> hook_step prov v w \<Longrightarrow> hook_steps prov u w" for u v w
    by (rule rtranclp.rtrancl_into_rtrancl)
  have a1: "hook_step prov (two_at db Rest Rest) (two_at db (Unseen ev1) Rest)"
    using hook_step.look [of "two_at db Rest Rest" 0 prov ev1] assms by simp
  have a2: "hook_step prov (two_at db (Unseen ev1) Rest) (two_at db (Unseen ev1) (Unseen ev2))"
    using hook_step.look [of "two_at db (Unseen ev1) Rest" "Suc 0" prov ev2] assms by simp
  have a3: "hook_step prov (two_at db (Unseen ev1) (Unseen ev2)) (two_at db (Recorded ev1) (Unseen ev2))"
    using hook_step.insert_record [of "two_at db (Unseen ev1) (Unseen ev2)" 0 ev1 prov] assms
    by (simp add: key_free_def) (simp add: two_at_def)
  have a4: "hook_step prov (two_at db (Recorded ev1) (Unseen ev2)) (two_at db (Recorded ev1) (Recorded ev2))"
    using hook_step.insert_record [of "two_at db (Recorded ev1) (Unseen ev2)" "Suc 0" ev2 prov] assms
    by (simp add: key_free_def) (simp add: two_at_def)
  have a5: "hook_step prov (two_at db (Recorded ev1) (Recorded ev2)) (two_at db (Found ev1 org) (Recorded ev2))"
    using hook_step.select_org [of "two_at db (Recorded ev1) (Recorded ev2)" 0 ev1 org prov] assms by simp
  have a6: "hook_step prov (two_at db (Found ev1 org) (Recorded ev2)) (two_at db (Found ev1 org) (Found ev2 org))"
    using hook_step.select_org [of "two_at db (Found ev1 org) (Recorded ev2)" "Suc 0" ev2 org prov] assms by simp
  have a7: "hook_step prov (two_at db (Found ev1 org) (Found ev2 org)) (two_at db (Loaded ev1 org ?s) (Found ev2 org))"
    using hook_step.select_subscription [of "two_at db (Found ev1 org) (Found ev2 org)" 0 ev1 org prov] by simp
  have a8: "hook_step prov (two_at db (Loaded ev1 org ?s) (Found ev2 org)) (two_at db (Loaded ev1 org ?s) (Loaded ev2 org ?s))"
    using hook_step.select_subscription [of "two_at db (Loaded ev1 org ?s) (Found ev2 org)" "Suc 0" ev2 org prov] by simp
  have "(hook_step prov)\<^sup>*\<^sup>* (calm db) (two_at db (Unseen ev1) Rest)" using a1 unfolding two_at_calm by blast
  from goes [OF goes [OF goes [OF goes [OF goes [OF goes [OF goes [OF this a2] a3] a4] a5] a6] a7] a8] show ?thesis .
qed

text \<open>An event about the subscription of the row, with a status and a plan.\<close>

definition about :: "string \<Rightarrow> subscription \<Rightarrow> payment_event \<Rightarrow> string \<Rightarrow> string \<Rightarrow> bool" where
  "about prov s ev stat plan \<longleftrightarrow> sub_provider s = prov \<and> pe_subscription_id ev = Some (sub_provider_id s)
     \<and> sub_provider_id s \<noteq> [] \<and> pe_status ev = Some stat \<and> stat \<noteq> [] \<and> pe_plan ev = Some plan \<and> plan \<noteq> []"

lemma about_update: "about prov s ev stat plan \<Longrightarrow> update_subscription prov ev s
    = s\<lparr>sub_status := stat, sub_plan := plan, sub_period_end := pe_period_end ev\<rparr>"
  by (simp add: about_def update_subscription_def or_else_def split: list.split)

lemma update_loaded_about:
  assumes "about prov s ev stat plan"
  shows "map sub_provider_id (update_loaded prov ev s subs) = map sub_provider_id subs"
    "lookup_by sub_org oid (update_loaded prov ev s subs) = map_option (\<lambda>x. if sub_id x = sub_id s then
        x\<lparr>sub_status := (if stat = sub_status s then sub_status x else stat),
          sub_plan := (if plan = sub_plan s then sub_plan x else plan),
          sub_period_end := (if pe_period_end ev = sub_period_end s then sub_period_end x else pe_period_end ev)\<rparr> else x)
      (lookup_by sub_org oid subs)"
proof -
  have w: "write_changes s (update_subscription prov ev s) x =
      x\<lparr>sub_status := (if stat = sub_status s then sub_status x else stat),
        sub_plan := (if plan = sub_plan s then sub_plan x else plan),
        sub_period_end := (if pe_period_end ev = sub_period_end s then sub_period_end x else pe_period_end ev)\<rparr>" for x
    unfolding about_update [OF assms] by (simp add: write_changes_def)
  show "map sub_provider_id (update_loaded prov ev s subs) = map sub_provider_id subs"
    unfolding update_loaded_def by (rule map_update_where) (simp add: w)
  show "lookup_by sub_org oid (update_loaded prov ev s subs) = map_option (\<lambda>x. if sub_id x = sub_id s then
        x\<lparr>sub_status := (if stat = sub_status s then sub_status x else stat),
          sub_plan := (if plan = sub_plan s then sub_plan x else plan),
          sub_period_end := (if pe_period_end ev = sub_period_end s then sub_period_end x else pe_period_end ev)\<rparr> else x)
      (lookup_by sub_org oid subs)"
    unfolding update_loaded_def w [abs_def] by (rule lookup_by_update) simp
qed

lemma sync_about:
  assumes ok: "billing_ok db" and m: "matching_orgs ev db = [org]" and s: "lookup_by sub_org (org_id org) (subscriptions db) = Some s"
    and ev: "about prov s ev stat plan"
  shows "\<exists>db'. sync_subscription i prov ev db = Inr db' \<and> billing_ok db' \<and> b_orgs db' = b_orgs db
    \<and> lookup_by sub_org (org_id org) (subscriptions db') = Some (s\<lparr>sub_status := stat, sub_plan := plan, sub_period_end := pe_period_end ev\<rparr>)"
proof -
  let ?ss = "update_where (\<lambda>x. sub_org x = org_id org) (update_subscription prov ev) (subscriptions db)"
  have so: "s \<in> set (subscriptions db)" "sub_org s = org_id org" using lookup_by_SomeD [OF s] by simp_all
  have uniq: "unique_on sub_org (subscriptions db)" "distinct (map sub_provider_id (subscriptions db))" using ok by (simp_all add: billing_ok_def)
  have "sub_provider_id (if sub_org x = org_id org then update_subscription prov ev x else x) = sub_provider_id x"
    if "x \<in> set (subscriptions db)" for x
    using unique_onD [OF uniq(1) that so(1)] so(2) about_update [OF ev] by auto
  then have "map sub_provider_id ?ss = map sub_provider_id (subscriptions db)" by (simp add: update_where_def)
  then have d: "distinct (map sub_provider_id ?ss)" using uniq(2) by simp
  have "sync_subscription i prov ev db = Inr (db\<lparr>subscriptions := ?ss\<rparr>)"
    using m s d by (simp add: sync_subscription_def matching_orgs_def Let_def)
  moreover have "lookup_by sub_org (org_id org) ?ss = Some (update_subscription prov ev s)"
    using lookup_by_update [of sub_org "update_subscription prov ev" "org_id org" "\<lambda>x. sub_org x = org_id org" "subscriptions db"]
      s so(2) by simp
  ultimately show ?thesis using sync_ok [of i prov ev db] ok about_update [OF ev] by auto
qed

text \<open>
  Two deliveries for one subscription that is not active: one event says that it became active with the plan it has, the
  other that it is still not active with a larger plan. Both orders leave a plan that an event granted: none, or the old
  one. When the deliveries overlap each sets its own column, and the organization gets the larger plan that nobody paid
  for.
\<close>

theorem overlapping_events_merge:
  assumes ok: "billing_ok db" and s: "lookup_by sub_org (org_id org) (subscriptions db) = Some s"
    and paid: "about prov s ev1 active (sub_plan s)" "active \<in> set ACTIVE_STATUSES"
    and unpaid: "about prov s ev2 (sub_status s) larger" "sub_status s \<notin> set ACTIVE_STATUSES" "larger \<noteq> sub_plan s"
    and types: "pe_event_type ev1 \<in> set SUBSCRIPTION_EVENTS" "pe_event_type ev2 \<in> set SUBSCRIPTION_EVENTS"
    and new: "(prov, pe_event_id ev1) \<notin> event_key ` set (processed db)" "(prov, pe_event_id ev2) \<notin> event_key ` set (processed db)"
      "pe_event_id ev1 \<noteq> pe_event_id ev2"
    and m: "matching_orgs ev1 db = [org]" "matching_orgs ev2 db = [org]"
  shows "(\<exists>w. hook_steps prov (calm db) w \<and> hw_txs w = (\<lambda>_. Rest) \<and> active_plan (org_id org) (hw_db w) = larger)
    \<and> (\<exists>d1 d2. sync_subscription i prov ev1 db = Inr d1 \<and> sync_subscription j prov ev2 d1 = Inr d2 \<and> active_plan (org_id org) d2 = FREE_PLAN)
    \<and> (\<exists>d1 d2. sync_subscription j prov ev2 db = Inr d1 \<and> sync_subscription i prov ev1 d1 = Inr d2 \<and> active_plan (org_id org) d2 = sub_plan s)"
proof -
  let ?subs = "subscriptions db" and ?x1 = "Loaded ev1 org (Some s)" and ?x2 = "Loaded ev2 org (Some s)"
  let ?s1 = "update_loaded prov ev1 s ?subs"
  let ?s2 = "update_loaded prov ev2 s ?s1"
  have d: "distinct (map sub_provider_id ?s1)" "distinct (map sub_provider_id ?s2)"
    using ok by (simp_all add: update_loaded_about [OF paid(1)] update_loaded_about [OF unpaid(1)] billing_ok_def)
  define w1 where "w1 = finishes (two_at db ?x1 ?x2) 0 prov ev1 ?s1"
  define w2 where "w2 = finishes w1 1 prov ev2 ?s2"
  have "hook_steps prov (calm db) (two_at db ?x1 ?x2)" using both_loaded [OF types new m] s by simp
  moreover have "hook_step prov (two_at db ?x1 ?x2) w1" unfolding w1_def
    by (rule hook_step.finish_update [where org = org and s = s]) (simp_all add: d)
  moreover have "hook_step prov w1 w2" unfolding w2_def
    by (rule hook_step.finish_update [where org = org and s = s]) (simp_all add: w1_def finishes_def two_at_def d)
  ultimately have "hook_steps prov (calm db) w2" by (meson rtranclp.rtrancl_into_rtrancl)
  moreover have "hw_txs w2 = (\<lambda>_. Rest)" by (simp add: w2_def w1_def finishes_def two_at_def fun_eq_iff)
  moreover have "active_plan (org_id org) (hw_db w2) = larger"
    using s unpaid(2,3) paid(2)
    by (auto simp: w2_def w1_def finishes_def active_plan_def update_loaded_about [OF paid(1)] update_loaded_about [OF unpaid(1)])
  moreover have "\<exists>d1 d2. sync_subscription i prov ev1 db = Inr d1 \<and> sync_subscription j prov ev2 d1 = Inr d2
      \<and> active_plan (org_id org) d2 = FREE_PLAN"
  proof -
    obtain d1 where d1: "sync_subscription i prov ev1 db = Inr d1" "billing_ok d1" "b_orgs d1 = b_orgs db"
      "lookup_by sub_org (org_id org) (subscriptions d1) = Some (s\<lparr>sub_status := active, sub_plan := sub_plan s, sub_period_end := pe_period_end ev1\<rparr>)"
      using sync_about [OF ok m(1) s paid(1)] by blast
    have "about prov (s\<lparr>sub_status := active, sub_plan := sub_plan s, sub_period_end := pe_period_end ev1\<rparr>) ev2 (sub_status s) larger"
      using unpaid(1) by (simp add: about_def)
    from sync_about [OF d1(2) _ d1(4) this] m(2) d1(1,3) unpaid(2) show ?thesis
      by (fastforce simp: matching_orgs_def active_plan_def)
  qed
  moreover have "\<exists>d1 d2. sync_subscription j prov ev2 db = Inr d1 \<and> sync_subscription i prov ev1 d1 = Inr d2
      \<and> active_plan (org_id org) d2 = sub_plan s"
  proof -
    obtain d1 where d1: "sync_subscription j prov ev2 db = Inr d1" "billing_ok d1" "b_orgs d1 = b_orgs db"
      "lookup_by sub_org (org_id org) (subscriptions d1) = Some (s\<lparr>sub_status := sub_status s, sub_plan := larger, sub_period_end := pe_period_end ev2\<rparr>)"
      using sync_about [OF ok m(2) s unpaid(1)] by blast
    have "about prov (s\<lparr>sub_status := sub_status s, sub_plan := larger, sub_period_end := pe_period_end ev2\<rparr>) ev1 active (sub_plan s)"
      using paid(1) by (simp add: about_def)
    from sync_about [OF d1(2) _ d1(4) this] m(1) d1(1,3) paid(2) show ?thesis
      by (fastforce simp: matching_orgs_def active_plan_def)
  qed
  ultimately show ?thesis by blast
qed

section \<open>Checkouts that overlap\<close>

lemma saved_customers:
  assumes "c \<in> payments_customer_id ` set (b_orgs (save_org (org\<lparr>payments_customer_id := k\<rparr>) db))"
  shows "c = k \<or> c \<in> payments_customer_id ` {x \<in> set (b_orgs db). org_id x \<noteq> org_id org}"
  using assms by (auto simp: save_org_def set_update_where split: if_splits)

lemma get_org_saved:
  assumes "get_org oid db = Inr org" "unique_on org_id (b_orgs db)"
  shows "get_org oid (save_org (org\<lparr>payments_customer_id := k\<rparr>) db) = Inr (org\<lparr>payments_customer_id := k\<rparr>)"
proof -
  have "lookup_by org_id oid (b_orgs db) = Some org" "org_id org = oid"
    using assms(1) by (auto simp: get_org_def split: option.splits dest: lookup_by_SomeD)
  then show ?thesis by (simp add: get_org_def save_org_def lookup_by_update)
qed

text \<open>
  Two checkouts of an organization without a customer that overlap both create one, and the later commit overwrites the
  first. Whoever pays through the first is a customer the service does not know: the event is answered with ok, changes no
  subscription, and is a duplicate from then on.
\<close>

theorem paying_customer_lost:
  assumes org: "get_org oid db = Inr org" "payments_customer_id org = None" "unique_on org_id (b_orgs db)"
    and fresh: "Some c1 \<notin> payments_customer_id ` set (b_orgs db)" "Some c2 \<notin> payments_customer_id ` set (b_orgs db)" "c1 \<noteq> c2"
    and ev: "pp_verify_webhook p b sg = Inr ev" "pe_customer_ref ev = Some c1" "(pp_name p, pe_event_id ev) \<notin> event_key ` set (processed db)"
  shows "\<exists>w db'. hook_steps (pp_name p) (calm db) w \<and> hw_txs w = (\<lambda>_. Rest)
    \<and> get_org oid (hw_db w) = Inr (org\<lparr>payments_customer_id := Some c2\<rparr>)
    \<and> payments_webhook p i b sg (hw_db w) = (Inr ''ok'', db') \<and> subscriptions db' = subscriptions db
    \<and> payments_webhook p j b sg db' = (Inr ''duplicate'', db')"
proof -
  define db1 where "db1 = save_org (org\<lparr>payments_customer_id := Some c1\<rparr>) db"
  define db2 where "db2 = save_org (org\<lparr>payments_customer_id := Some c2\<rparr>) db1"
  let ?c = "Checkout org"
  have goes: "hook_steps (pp_name p) u v \<Longrightarrow> hook_step (pp_name p) v w \<Longrightarrow> hook_steps (pp_name p) u w" for u v w
    by (rule rtranclp.rtrancl_into_rtrancl)
  have a1: "hook_step (pp_name p) (two_at db Rest Rest) (two_at db ?c Rest)"
    using hook_step.begin_checkout [of "two_at db Rest Rest" 0 oid org "pp_name p"] org by simp
  have a2: "hook_step (pp_name p) (two_at db ?c Rest) (two_at db ?c ?c)"
    using hook_step.begin_checkout [of "two_at db ?c Rest" "Suc 0" oid org "pp_name p"] org by simp
  have a3: "hook_step (pp_name p) (two_at db ?c ?c) (two_at db1 Rest ?c)"
    using hook_step.end_checkout [of "two_at db ?c ?c" 0 org c1 "pp_name p"] fresh(1)
    by (simp add: db1_def) (simp add: two_at_def fun_upd_twist)
  have "Some c2 \<notin> payments_customer_id ` set (b_orgs db1)" using saved_customers fresh unfolding db1_def by blast
  then have a4: "hook_step (pp_name p) (two_at db1 Rest ?c) (two_at db2 Rest Rest)"
    using hook_step.end_checkout [of "two_at db1 Rest ?c" 1 org c2 "pp_name p"]
    by (simp add: db2_def) (simp add: two_at_def)
  have "hook_steps (pp_name p) (calm db) (two_at db ?c Rest)" using a1 unfolding two_at_calm by blast
  from goes [OF goes [OF goes [OF this a2] a3] a4] have run: "hook_steps (pp_name p) (calm db) (two_at db2 Rest Rest)" .
  have uniq1: "unique_on org_id (b_orgs db1)" using org(3) by (simp add: db1_def save_org_def unique_on_update)
  have lookup1: "get_org oid db1 = Inr (org\<lparr>payments_customer_id := Some c1\<rparr>)" using get_org_saved org(1,3) db1_def by blast
  have found: "get_org oid db2 = Inr (org\<lparr>payments_customer_id := Some c2\<rparr>)"
    using get_org_saved [OF lookup1 uniq1, of "Some c2"] by (simp add: db2_def)
  have others: "Some c1 \<notin> payments_customer_id ` {x \<in> set (b_orgs db1). org_id x \<noteq> org_id org}"
    using fresh(1) by (auto simp: db1_def save_org_def set_update_where split: if_splits)
  have "Some c1 \<notin> payments_customer_id ` set (b_orgs db2)"
    using saved_customers [where c = "Some c1" and org = org and k = "Some c2" and db = db1] others fresh(3) by (auto simp: db2_def)
  then have none: "filter (\<lambda>o'. payments_customer_id o' = pe_customer_ref ev) (b_orgs db2) = []"
    using ev(2) by (force simp: filter_empty_conv)
  have same: "processed db2 = processed db" "subscriptions db2 = subscriptions db" by (simp_all add: db2_def db1_def)
  let ?db = "db2\<lparr>processed := processed db @ [event_record (pp_name p) ev]\<rparr>"
  have "lookup_by event_key (pp_name p, pe_event_id ev) (processed db) = None" using ev(3) by (simp add: lookup_by_None)
  then have "payments_webhook p i b sg db2 = (Inr ''ok'', ?db)"
    using ev(1) none by (simp add: payments_webhook_def same sync_subscription_def event_record_def Let_def)
  moreover have "\<exists>r. lookup_by event_key (pp_name p, pe_event_id ev) (processed ?db) = Some r"
    using lookup_by_None [of event_key "(pp_name p, pe_event_id ev)" "processed ?db"] by fastforce
  then have "payments_webhook p j b sg ?db = (Inr ''duplicate'', ?db)" using ev(1) by (auto simp: payments_webhook_def)
  moreover have "hw_txs (two_at db2 Rest Rest) = (\<lambda>_. Rest)" "hw_db (two_at db2 Rest Rest) = db2" by (simp_all add: two_at_calm calm_def)
  ultimately show ?thesis using run found same(2) by (intro exI [of _ "two_at db2 Rest Rest"] exI [of _ ?db]) simp
qed

section \<open>Witnesses\<close>

text \<open>The demonstration event, which the route answers with ok.\<close>

lemma demo_delivered:
  obtains ev db' where "pp_verify_webhook demo_port ''activated'' ''good'' = Inr ev" "pp_name demo_port = ''razorpay''"
    "payments_webhook demo_port ''s1'' ''activated'' ''good'' (one_org_db (Some ''cust_1'')) = (Inr ''ok'', db')"
    "delivered ''razorpay'' ''s1'' ev (one_org_db (Some ''cust_1'')) db'"
proof -
  let ?db = "one_org_db (Some ''cust_1'')"
  obtain db' where hook: "payments_webhook demo_port ''s1'' ''activated'' ''good'' ?db = (Inr ''ok'', db')"
    using demo_activated by blast
  obtain ev where ev: "pp_verify_webhook demo_port ''activated'' ''good'' = Inr ev" by (simp add: demo_eval)
  have name: "pp_name demo_port = ''razorpay''" by (simp add: razorpay_adapter_def)
  show thesis using that [OF ev name hook] hook unfolding webhook_delivered [OF ev] name by blast
qed

lemma one_org_unique:
  "unique_on sub_id (subscriptions (one_org_db c))" "i \<notin> sub_id ` set (subscriptions (one_org_db c))" "processed (one_org_db c) = []"
  by (simp_all add: one_org_db_def)

lemma event_applied_once_witness:
  "\<exists>w k. hook_steps ''razorpay'' (calm (one_org_db (Some ''cust_1''))) w \<and> hw_applied w = [k]
    \<and> map event_key (processed (hw_db w)) = [k] \<and> billing_ok (hw_db w)"
proof -
  obtain ev db' where del: "delivered ''razorpay'' ''s1'' ev (one_org_db (Some ''cust_1'')) db'" by (rule demo_delivered)
  have run: "hook_steps ''razorpay'' (calm (one_org_db (Some ''cust_1''))) (done_alone ''razorpay'' ev db')"
    by (rule lone_hook_steps [OF delivery_runs [OF billing_ok_one one_org_unique(1,2) del, of 0]])
  from event_applied_once [OF billing_ok_one one_org_unique(1) run] run show ?thesis
    by (intro exI [of _ "done_alone ''razorpay'' ev db'"] exI [of _ "(''razorpay'', pe_event_id ev)"])
      (simp add: one_org_unique(3))
qed

lemma lone_delivery_is_the_route_witness:
  "\<exists>ev w. lone_steps ''razorpay'' 0 ev (calm (one_org_db (Some ''cust_1''))) w \<and> hw_txs w 0 = Rest
    \<and> payments_webhook demo_port ''s1'' ''activated'' ''good'' (one_org_db (Some ''cust_1'')) = (Inr ''ok'', hw_db w)
    \<and> hw_applied w = [(''razorpay'', pe_event_id ev)]"
proof -
  obtain ev db' where ev: "pp_verify_webhook demo_port ''activated'' ''good'' = Inr ev" and name: "pp_name demo_port = ''razorpay''"
    and hook: "payments_webhook demo_port ''s1'' ''activated'' ''good'' (one_org_db (Some ''cust_1'')) = (Inr ''ok'', db')"
    by (rule demo_delivered)
  from lone_delivery_is_the_route [OF billing_ok_one one_org_unique(1) ev, unfolded name, where i = 0 and w =
      "\<lparr>hw_db = db', hw_txs = (\<lambda>_. Rest), hw_applied = [(''razorpay'', pe_event_id ev)]\<rparr>"] hook one_org_unique(2)
  show ?thesis by (intro exI [of _ ev] exI [of _ "\<lparr>hw_db = db', hw_txs = (\<lambda>_. Rest), hw_applied = [(''razorpay'', pe_event_id ev)]\<rparr>"]) auto
qed

definition trial_event :: "string \<Rightarrow> string \<Rightarrow> string \<Rightarrow> payment_event" where
  "trial_event i stat plan = \<lparr>pe_event_id = i, pe_event_type = EVENT_SUBSCRIPTION_UPDATED, pe_subscription_id = Some ''sub_1'',
     pe_status = Some stat, pe_plan = Some plan, pe_period_end = None, pe_customer_ref = Some ''cust_1''\<rparr>"

definition overdue :: subscription where
  "overdue = \<lparr>sub_id = ''s1'', sub_org = ''o1'', sub_provider = ''stripe'', sub_provider_id = ''sub_1'',
     sub_status = ''past_due'', sub_plan = ''pro'', sub_period_end = None\<rparr>"

definition overdue_db :: billing_db where
  "overdue_db = (one_org_db (Some ''cust_1''))\<lparr>subscriptions := [overdue]\<rparr>"

lemma overlapping_events_merge_witness:
  "\<exists>w. hook_steps ''stripe'' (calm overdue_db) w \<and> active_plan ''o1'' (hw_db w) = ''enterprise''"
proof -
  let ?e1 = "trial_event ''e1'' ''active'' ''pro''" and ?e2 = "trial_event ''e2'' ''past_due'' ''enterprise''"
  let ?org = "\<lparr>org_id = ''o1'', org_name = ''Acme'', org_slug = ''acme'', payments_customer_id = Some ''cust_1''\<rparr>"
  have ok: "billing_ok overdue_db" by (simp add: billing_ok_def overdue_db_def one_org_db_def unique_on_def)
  have s: "lookup_by sub_org (org_id ?org) (subscriptions overdue_db) = Some overdue"
    by (simp add: overdue_db_def overdue_def)
  have a1: "about ''stripe'' overdue ?e1 ''active'' (sub_plan overdue)" and a2: "''active'' \<in> set ACTIVE_STATUSES"
    by (simp_all add: about_def overdue_def trial_event_def ACTIVE_STATUSES_def)
  have b1: "about ''stripe'' overdue ?e2 (sub_status overdue) ''enterprise''"
    and b2: "sub_status overdue \<notin> set ACTIVE_STATUSES" and b3: "''enterprise'' \<noteq> sub_plan overdue"
    by (simp_all add: about_def overdue_def trial_event_def ACTIVE_STATUSES_def)
  have t: "pe_event_type ?e1 \<in> set SUBSCRIPTION_EVENTS" "pe_event_type ?e2 \<in> set SUBSCRIPTION_EVENTS"
    by (simp_all add: trial_event_def SUBSCRIPTION_EVENTS_def)
  have n: "(''stripe'', pe_event_id ?e1) \<notin> event_key ` set (processed overdue_db)"
    "(''stripe'', pe_event_id ?e2) \<notin> event_key ` set (processed overdue_db)" "pe_event_id ?e1 \<noteq> pe_event_id ?e2"
    by (simp_all add: trial_event_def overdue_db_def one_org_db_def)
  have m: "matching_orgs ?e1 overdue_db = [?org]" "matching_orgs ?e2 overdue_db = [?org]"
    by (simp_all add: matching_orgs_def trial_event_def overdue_db_def one_org_db_def)
  from conjunct1 [OF overlapping_events_merge [OF ok s a1 a2 b1 b2 b3 t n m]] show ?thesis by auto
qed

lemma paying_customer_lost_witness:
  "\<exists>w db'. hook_steps ''razorpay'' (calm (one_org_db None)) w
    \<and> payments_webhook demo_port ''s1'' ''activated'' ''good'' (hw_db w) = (Inr ''ok'', db') \<and> subscriptions db' = []"
proof -
  obtain ev where ev: "pp_verify_webhook demo_port ''activated'' ''good'' = Inr ev" "pe_customer_ref ev = Some ''cust_1''"
    by (simp add: demo_eval)
  have name: "pp_name demo_port = ''razorpay''" by (simp add: razorpay_adapter_def)
  let ?org = "\<lparr>org_id = ''o1'', org_name = ''Acme'', org_slug = ''acme'', payments_customer_id = None\<rparr>"
  have org: "get_org ''o1'' (one_org_db None) = Inr ?org" "payments_customer_id ?org = None" "unique_on org_id (b_orgs (one_org_db None))"
    and fresh: "Some ''cust_1'' \<notin> payments_customer_id ` set (b_orgs (one_org_db None))"
      "Some ''cust_2'' \<notin> payments_customer_id ` set (b_orgs (one_org_db None))" "''cust_1'' \<noteq> ''cust_2''"
    and new: "(pp_name demo_port, pe_event_id ev) \<notin> event_key ` set (processed (one_org_db None))"
    and subs: "subscriptions (one_org_db None) = []"
    by (simp_all add: one_org_db_def get_org_def unique_on_def)
  from paying_customer_lost [OF org fresh ev new, of "''s1''" "''s2''"] show ?thesis unfolding name subs by blast
qed

end
