(* ===== verification/Worker.thy ===== *)
theory Worker imports DeliveryProps begin

text \<open>
  The worker at large: the relay (\<open>relay_outbox\<close>) and the deliveries (\<open>deliver_webhook\<close> of \<open>app/jobs/tasks.py.jinja\<close>)
  interleaved with requests that emit events and change endpoints, with an unreliable network and with workers that stop.
  How arq runs a job is documented behaviour: each start counts as a try, \<open>Retry\<close> puts the job back until its delay is
  over, any other end removes it, a job whose tries are used up is dropped, and the job of a worker that stops is run
  again. Their maximum is a parameter (\<open>max_tries\<close>, 5 unless configured).
\<close>

section \<open>Jobs and their tries\<close>

record ticket =
  tk_id :: nat
  tk_job :: delivery_job
  tk_tries :: nat
  tk_due :: datetime

text \<open>A running job has read its endpoint when it started; what it posts then does not see later changes.\<close>

record worker_world =
  wk_now :: datetime
  wk_rows :: "outbox_event list"
  wk_endpoints :: "webhook_endpoint list"
  wk_logs :: "audit_log list"
  wk_next :: nat
  wk_waiting :: "ticket list"
  wk_running :: "(ticket \<times> webhook_endpoint list) list"
  wk_posts :: "(nat \<times> http_request) list"

definition tickets :: "datetime \<Rightarrow> nat \<Rightarrow> delivery_job list \<Rightarrow> ticket list" where
  "tickets now k jobs = map (\<lambda>(i, j). \<lparr>tk_id = i, tk_job = j, tk_tries = 0, tk_due = now\<rparr>) (enumerate k jobs)"

definition start_job :: "ticket \<Rightarrow> ticket" where
  "start_job t = t\<lparr>tk_tries := Suc (tk_tries t)\<rparr>"

definition requeue :: "datetime \<Rightarrow> task_outcome \<Rightarrow> ticket \<Rightarrow> ticket list" where
  "requeue now out t = (case out of TaskRetry s \<Rightarrow> [t\<lparr>tk_due := now + seconds s\<rparr>] | _ \<Rightarrow> [])"

text \<open>The task of a running job, on the endpoints it read and the audit log as it is.\<close>

definition run_task ::
  "(bytes \<Rightarrow> bytes \<Rightarrow> bytes) \<Rightarrow> resolver \<Rightarrow> (http_request \<Rightarrow> http_outcome) \<Rightarrow> uuid \<Rightarrow> worker_world \<Rightarrow> ticket
    \<Rightarrow> webhook_endpoint list \<Rightarrow> task_outcome \<times> delivery_state" where
  "run_task hmac resolve post new_id w t eps =
    deliver_webhook hmac resolve post new_id (wk_now w) (Some (int (tk_tries t))) (tk_job t)
      \<lparr>ds_endpoints = eps, ds_logs = wk_logs w, ds_posted = []\<rparr>"

abbreviation sent_by :: "ticket \<Rightarrow> http_request list \<Rightarrow> (nat \<times> http_request) list" where
  "sent_by t rs \<equiv> map (Pair (tk_id t)) rs"

inductive work_step :: "(bytes \<Rightarrow> bytes \<Rightarrow> bytes) \<Rightarrow> nat \<Rightarrow> worker_world \<Rightarrow> worker_world \<Rightarrow> bool"
  for hmac :: "bytes \<Rightarrow> bytes \<Rightarrow> bytes" and max_tries :: nat where
  begins: "wk_waiting w = xs @ t # ys \<Longrightarrow> tk_due t \<le> wk_now w \<Longrightarrow> tk_tries t < max_tries
    \<Longrightarrow> work_step hmac max_tries w (w\<lparr>wk_waiting := xs @ ys, wk_running := wk_running w @ [(start_job t, wk_endpoints w)]\<rparr>)"
| gives_up: "wk_waiting w = xs @ t # ys \<Longrightarrow> tk_due t \<le> wk_now w \<Longrightarrow> max_tries \<le> tk_tries t
    \<Longrightarrow> work_step hmac max_tries w (w\<lparr>wk_waiting := xs @ ys\<rparr>)"
| ends: "wk_running w = xs @ (t, eps) # ys \<Longrightarrow> run_task hmac resolve post new_id w t eps = (out, st)
    \<Longrightarrow> work_step hmac max_tries w (w\<lparr>wk_running := xs @ ys, wk_waiting := wk_waiting w @ requeue (wk_now w) out t,
          wk_logs := ds_logs st, wk_posts := wk_posts w @ sent_by t (ds_posted st)\<rparr>)"
| stops: "wk_running w = xs @ (t, eps) # ys \<Longrightarrow> run_task hmac resolve post new_id w t eps = (out, st)
    \<Longrightarrow> rs = [] \<or> rs = ds_posted st
    \<Longrightarrow> work_step hmac max_tries w (w\<lparr>wk_running := xs @ ys, wk_waiting := wk_waiting w @ [t\<lparr>tk_due := wk_now w\<rparr>],
          wk_posts := wk_posts w @ sent_by t rs\<rparr>)"

text \<open>What goes on meanwhile: time passes, requests emit events and change the endpoints, and the cron runs the relay on
  whatever the connection to the queue lets through. A round of the relay is one step here; rounds that overlap are the
  matter of WebhooksProps (\<open>relay_reach\<close>).\<close>

inductive other_step :: "worker_world \<Rightarrow> worker_world \<Rightarrow> bool" where
  passes: "wk_now w \<le> now \<Longrightarrow> other_step w (w\<lparr>wk_now := now\<rparr>)"
| emits: "ob_id e \<notin> ob_id ` set (wk_rows w) \<Longrightarrow> other_step w (w\<lparr>wk_rows := wk_rows w @ [e]\<rparr>)"
| edits: "other_step w (w\<lparr>wk_endpoints := eps\<rparr>)"
| relays: "relay_outbox (wk_now w) (wk_endpoints w) (wk_rows w) \<lparr>queued = [], upcoming = ups\<rparr> = (res, rows, q)
    \<Longrightarrow> other_step w (w\<lparr>wk_rows := rows, wk_next := wk_next w + length (queued q),
          wk_waiting := wk_waiting w @ tickets (wk_now w) (wk_next w) (queued q)\<rparr>)"

definition idle :: "datetime \<Rightarrow> outbox_event list \<Rightarrow> webhook_endpoint list \<Rightarrow> audit_log list \<Rightarrow> worker_world" where
  "idle now rows eps logs = \<lparr>wk_now = now, wk_rows = rows, wk_endpoints = eps, wk_logs = logs, wk_next = 0,
     wk_waiting = [], wk_running = [], wk_posts = []\<rparr>"

inductive runs_to :: "(bytes \<Rightarrow> bytes \<Rightarrow> bytes) \<Rightarrow> nat \<Rightarrow> worker_world \<Rightarrow> worker_world \<Rightarrow> bool"
  for hmac :: "bytes \<Rightarrow> bytes \<Rightarrow> bytes" and max_tries :: nat where
  still: "runs_to hmac max_tries w w"
| works: "runs_to hmac max_tries u v \<Longrightarrow> work_step hmac max_tries v w \<Longrightarrow> runs_to hmac max_tries u w"
| others: "runs_to hmac max_tries u v \<Longrightarrow> other_step v w \<Longrightarrow> runs_to hmac max_tries u w"

section \<open>Where jobs and requests come from\<close>

definition news :: "outbox_event list \<Rightarrow> (string \<times> json) set" where
  "news rows = (\<lambda>e. (ob_type e, ob_payload e)) ` {e \<in> set rows. ob_source e = WEBHOOK_SOURCE}"

text \<open>A request that is fit to leave: to a public address, with the signed payload of an event of the outbox.\<close>

definition proper_post :: "(bytes \<Rightarrow> bytes \<Rightarrow> bytes) \<Rightarrow> outbox_event list \<Rightarrow> http_request \<Rightarrow> bool" where
  "proper_post hmac rows r \<longleftrightarrow>
    (\<exists>p ip a. urlsplit (rq_url r) = Inr p \<and> url_hostname p = Some ip \<and> parse_ip ip = Some a \<and> is_public a)
    \<and> (\<exists>ty pl secret sig. (ty, pl) \<in> news rows \<and> rq_body r = utf8 (json_dumps pl) \<and> (''X-Webhook-Event'', ty) \<in> set (rq_headers r)
         \<and> (SIGNATURE_HEADER, sig) \<in> set (rq_headers r) \<and> verify_signature hmac secret (rq_body r) sig = Inr True)"

definition posts_of :: "nat \<Rightarrow> (nat \<times> http_request) list \<Rightarrow> nat" where
  "posts_of k ps = length (filter (\<lambda>p. fst p = k) ps)"

lemma posts_of_append [simp]: "posts_of k (ps @ qs) = posts_of k ps + posts_of k qs"
  by (simp add: posts_of_def)

lemma posts_of_sent [simp]: "posts_of k (sent_by t rs) = (if k = tk_id t then length rs else 0)"
  by (simp add: posts_of_def filter_map comp_def)

lemma proper_post_mono: "proper_post hmac rows r \<Longrightarrow> news rows \<subseteq> news rows' \<Longrightarrow> proper_post hmac rows' r"
  unfolding proper_post_def by blast

lemma run_task_posts:
  assumes run: "run_task hmac resolve post new_id w t eps = (out, st)" and job: "(dj_type (tk_job t), dj_payload (tk_job t)) \<in> news rows"
  shows "length (ds_posted st) \<le> 1" "\<forall>r \<in> set (ds_posted st). proper_post hmac rows r"
proof -
  let ?j = "tk_job t"
  have "ds_posted st = [] \<or> (\<exists>(x :: webhook_endpoint) g. resolve_pinned_target resolve (we_url x) = Inr g
        \<and> ds_posted st = [delivery_request hmac (we_secret x) g (dj_type ?j) (dj_payload ?j)])"
    using deliver_posts [of hmac resolve post new_id "wk_now w" "Some (int (tk_tries t))" ?j
        "\<lparr>ds_endpoints = eps, ds_logs = wk_logs w, ds_posted = []\<rparr>"]
    unfolding run [unfolded run_task_def] by (simp only: snd_conv delivery_state.simps append_Nil) blast
  then consider "ds_posted st = []" | x :: webhook_endpoint and g where "resolve_pinned_target resolve (we_url x) = Inr g"
    "ds_posted st = [delivery_request hmac (we_secret x) g (dj_type ?j) (dj_payload ?j)]" by blast
  then have "length (ds_posted st) \<le> 1 \<and> (\<forall>r \<in> set (ds_posted st). proper_post hmac rows r)"
  proof cases
    case 2
    define r where "r = delivery_request hmac (we_secret x) g (dj_type ?j) (dj_payload ?j)"
    have parts: "rq_url r = pt_url g" "rq_body r = utf8 (json_dumps (dj_payload ?j))" "(''X-Webhook-Event'', dj_type ?j) \<in> set (rq_headers r)"
      by (simp_all add: r_def delivery_request_def Let_def)
    obtain sig where "(SIGNATURE_HEADER, sig) \<in> set (rq_headers r)" "verify_signature hmac (we_secret x) (rq_body r) sig = Inr True"
      using delivery_request_signed unfolding r_def by blast
    moreover obtain p ip a where "urlsplit (pt_url g) = Inr p" "url_hostname p = Some ip" "parse_ip ip = Some a" "is_public a"
      using pinned_facts [OF 2(1)] by blast
    ultimately have "proper_post hmac rows r" unfolding proper_post_def parts(1) using job parts(2,3) by blast
    then show ?thesis using 2(2) by (simp add: r_def)
  qed simp
  then show "length (ds_posted st) \<le> 1" "\<forall>r \<in> set (ds_posted st). proper_post hmac rows r" by blast+
qed

text \<open>The relay loses no news and queues nothing else.\<close>

lemma news_map:
  assumes "\<And>r. r \<in> set rows \<Longrightarrow> ob_source (f r) = ob_source r \<and> ob_type (f r) = ob_type r \<and> ob_payload (f r) = ob_payload r"
  shows "news (map f rows) = news rows"
proof -
  have "{e \<in> set (map f rows). ob_source e = WEBHOOK_SOURCE} = f ` {e \<in> set rows. ob_source e = WEBHOOK_SOURCE}"
    using assms by auto
  then show ?thesis unfolding news_def using assms by (simp add: image_image)
qed

lemma relay_keeps_news:
  assumes uniq: "unique_on ob_id rows" and run: "relay_outbox now endpoints rows q = (res, rows', q')"
  shows "unique_on ob_id rows'" "news rows' = news rows"
    "\<exists>new. queued q' = queued q @ new \<and> (\<forall>j \<in> set new. (dj_type j, dj_payload j) \<in> news rows)"
proof -
  let ?c = "claim_events 100 {} rows"
  obtain r q1 where pub: "publish_events enqueue endpoints now DEFAULT_MAX_ATTEMPTS ?c q = (r, q1)"
    by (cases "publish_events enqueue endpoints now DEFAULT_MAX_ATTEMPTS ?c q")
  have out: "q' = q1" "rows' = (case r of Inl _ \<Rightarrow> rows | Inr es \<Rightarrow> write_back es rows)"
    using run pub by (auto simp: relay_outbox_def drain_outbox_def split: sum.splits)
  show "unique_on ob_id rows'" using uniq out(2) write_back_unique by (cases r) simp_all
  show "\<exists>new. queued q' = queued q @ new \<and> (\<forall>j \<in> set new. (dj_type j, dj_payload j) \<in> news rows)"
    using published_events_are_enqueued [OF uniq run] unfolding news_def job_of_def by force
  show "news rows' = news rows"
  proof (cases r)
    case (Inr es)
    have "ob_source e = ob_source x \<and> ob_type e = ob_type x \<and> ob_payload e = ob_payload x"
      if x: "x \<in> set rows" "lookup_by ob_id (ob_id x) es = Some e" for x e
    proof -
      have e: "e \<in> set es" "ob_id e = ob_id x" using lookup_by_SomeD [OF x(2)] by simp_all
      obtain y z where y: "y \<in> set ?c" "e = settle now DEFAULT_MAX_ATTEMPTS z y"
        using seam.publish_events_jobs [OF pub] Inr e(1) by blast
      have "y \<in> set rows" using y(1) claim_events_sub by blast
      then have "y = x" using unique_onD [OF uniq _ x(1)] y(2) e(2) by simp
      then show ?thesis using y(2) by simp
    qed
    then show ?thesis unfolding out(2) Inr sum.case write_back_def by (intro news_map) (simp split: option.split)
  qed (simp add: out(2))
qed

section \<open>The invariant\<close>

definition ticket_ok :: "nat \<Rightarrow> worker_world \<Rightarrow> nat \<Rightarrow> ticket \<Rightarrow> bool" where
  "ticket_ok max_tries w b t \<longleftrightarrow> tk_id t < wk_next w \<and> tk_tries t \<le> max_tries
     \<and> (dj_type (tk_job t), dj_payload (tk_job t)) \<in> news (wk_rows w) \<and> posts_of (tk_id t) (wk_posts w) + b \<le> tk_tries t"

definition live_ids :: "worker_world \<Rightarrow> nat list" where
  "live_ids w = map tk_id (wk_waiting w) @ map (tk_id \<circ> fst) (wk_running w)"

definition worker_ok :: "(bytes \<Rightarrow> bytes \<Rightarrow> bytes) \<Rightarrow> nat \<Rightarrow> worker_world \<Rightarrow> bool" where
  "worker_ok hmac max_tries w \<longleftrightarrow> unique_on ob_id (wk_rows w) \<and> distinct (live_ids w)
     \<and> (\<forall>t \<in> set (wk_waiting w). ticket_ok max_tries w 0 t) \<and> (\<forall>x \<in> set (wk_running w). ticket_ok max_tries w 1 (fst x))
     \<and> (\<forall>k. posts_of k (wk_posts w) \<le> max_tries) \<and> (\<forall>k. wk_next w \<le> k \<longrightarrow> posts_of k (wk_posts w) = 0)
     \<and> (\<forall>p \<in> set (wk_posts w). proper_post hmac (wk_rows w) (snd p))"

lemma worker_ok_leaves:
  assumes ok: "worker_ok hmac max_tries w" and run: "wk_running w = xs @ (t, eps) # ys"
    and rs: "length rs \<le> 1" "\<forall>r \<in> set rs. proper_post hmac (wk_rows w) r"
    and zs: "zs = [] \<or> (\<exists>s. zs = [t\<lparr>tk_due := s\<rparr>])"
  shows "worker_ok hmac max_tries (w\<lparr>wk_running := xs @ ys, wk_waiting := wk_waiting w @ zs, wk_logs := logs,
          wk_posts := wk_posts w @ sent_by t rs\<rparr>)" (is "worker_ok _ _ ?w")
proof -
  have t: "ticket_ok max_tries w 1 t" using ok run by (simp add: worker_ok_def)
  have ids: "distinct (live_ids w)" using ok by (simp add: worker_ok_def)
  have same: "ticket_ok max_tries ?w b x = ticket_ok max_tries w b x" if "tk_id x \<noteq> tk_id t" for x b
    using that by (simp add: ticket_ok_def)
  have zs_ok: "\<forall>z \<in> set zs. ticket_ok max_tries ?w 0 z" using zs t rs(1) by (auto simp: ticket_ok_def)
  have out: "tk_id t \<notin> tk_id ` set (wk_waiting w)" "tk_id t \<notin> (\<lambda>x. tk_id (fst x)) ` set (xs @ ys)"
    using ids run by (auto simp: live_ids_def)
  then have waiting: "\<forall>x \<in> set (wk_waiting w). tk_id x \<noteq> tk_id t" and running: "\<forall>x \<in> set (xs @ ys). tk_id (fst x) \<noteq> tk_id t"
    by (metis image_eqI)+
  have "\<forall>x \<in> set (wk_waiting w @ zs). ticket_ok max_tries ?w 0 x"
    using ok waiting same zs_ok by (auto simp: worker_ok_def)
  moreover have "\<forall>x \<in> set (xs @ ys). ticket_ok max_tries ?w 1 (fst x)"
    using ok running same run by (auto simp: worker_ok_def)
  moreover have "distinct (live_ids ?w)" using zs ids out run
    by (elim disjE exE) (simp_all add: live_ids_def comp_def image_Un Int_Un_distrib Int_Un_distrib2)
  moreover have "posts_of k (wk_posts ?w) \<le> max_tries" for k
  proof (cases "k = tk_id t")
    case True
    then show ?thesis using t rs(1) by (simp add: ticket_ok_def)
  next
    case False
    then show ?thesis using ok by (simp add: worker_ok_def)
  qed
  moreover have "posts_of k (wk_posts ?w) = 0" if "wk_next w \<le> k" for k
    using ok that t by (simp add: worker_ok_def ticket_ok_def)
  moreover have "\<forall>p \<in> set (wk_posts ?w). proper_post hmac (wk_rows w) (snd p)" using ok rs(2) by (auto simp: worker_ok_def)
  ultimately show ?thesis using ok by (simp add: worker_ok_def)
qed

lemma work_step_ok: "work_step hmac max_tries v w \<Longrightarrow> worker_ok hmac max_tries v \<Longrightarrow> worker_ok hmac max_tries w"
proof (induction rule: work_step.induct)
  case (begins w xs t ys)
  then show ?case by (auto simp: worker_ok_def ticket_ok_def live_ids_def start_job_def)
next
  case (gives_up w xs t ys)
  then show ?case by (auto simp: worker_ok_def ticket_ok_def live_ids_def)
next
  case (ends w xs t eps ys resolve post new_id out st)
  have job: "(dj_type (tk_job t), dj_payload (tk_job t)) \<in> news (wk_rows w)"
    using ends.prems ends.hyps(1) by (simp add: worker_ok_def ticket_ok_def)
  have "requeue (wk_now w) out t = [] \<or> (\<exists>s. requeue (wk_now w) out t = [t\<lparr>tk_due := s\<rparr>])"
    by (auto simp: requeue_def split: task_outcome.split)
  from worker_ok_leaves [OF ends.prems ends.hyps(1) run_task_posts [OF ends.hyps(2) job] this] show ?case .
next
  case (stops w xs t eps ys resolve post new_id out st rs)
  have job: "(dj_type (tk_job t), dj_payload (tk_job t)) \<in> news (wk_rows w)"
    using stops.prems stops.hyps(1) by (simp add: worker_ok_def ticket_ok_def)
  have "length rs \<le> 1" "\<forall>r \<in> set rs. proper_post hmac (wk_rows w) r"
    using run_task_posts [OF stops.hyps(2) job] stops.hyps(3) by auto
  from worker_ok_leaves [OF stops.prems stops.hyps(1) this, of "[t\<lparr>tk_due := wk_now w\<rparr>]" "wk_logs w"]
  show ?case by (simp add: exI [of _ "wk_now w"])
qed

lemma worker_ok_rows:
  assumes ok: "worker_ok hmac max_tries w" and rows: "unique_on ob_id rows" "news (wk_rows w) \<subseteq> news rows"
  shows "worker_ok hmac max_tries (w\<lparr>wk_rows := rows\<rparr>)"
proof -
  have "ticket_ok max_tries w b t \<Longrightarrow> ticket_ok max_tries (w\<lparr>wk_rows := rows\<rparr>) b t" for b t
    using rows(2) by (auto simp: ticket_ok_def)
  moreover have "live_ids (w\<lparr>wk_rows := rows\<rparr>) = live_ids w" by (simp add: live_ids_def)
  ultimately show ?thesis using ok rows(1) proper_post_mono [OF _ rows(2)] by (simp add: worker_ok_def)
qed

lemma tickets_ids: "map tk_id (tickets now k js) = [k..<k + length js]"
  by (simp add: tickets_def enumerate_eq_zip split_def comp_def)

lemma tickets_new: "t \<in> set (tickets now k js) \<Longrightarrow> k \<le> tk_id t \<and> tk_id t < k + length js \<and> tk_tries t = 0 \<and> tk_job t \<in> set js"
  by (auto simp: tickets_def in_set_enumerate_eq)

lemma distinct_between: "set (A @ C) \<inter> set B = {} \<Longrightarrow> distinct (A @ C) \<Longrightarrow> distinct B \<Longrightarrow> distinct (A @ B @ C)"
  by auto

lemma worker_ok_queued:
  assumes ok: "worker_ok hmac max_tries w" and jobs: "\<forall>j \<in> set js. (dj_type j, dj_payload j) \<in> news (wk_rows w)"
  shows "worker_ok hmac max_tries (w\<lparr>wk_next := wk_next w + length js, wk_waiting := wk_waiting w @ tickets now (wk_next w) js\<rparr>)"
    (is "worker_ok _ _ ?w")
proof -
  have old: "ticket_ok max_tries ?w b t" if "ticket_ok max_tries w b t" for b t using that by (simp add: ticket_ok_def)
  have new: "\<forall>t \<in> set (tickets now (wk_next w) js). ticket_ok max_tries ?w 0 t"
    using tickets_new jobs ok by (fastforce simp: ticket_ok_def worker_ok_def)
  have below: "\<forall>k \<in> set (live_ids w). k < wk_next w" using ok by (auto simp: worker_ok_def ticket_ok_def live_ids_def)
  have "set (live_ids w) \<inter> set [wk_next w..<wk_next w + length js] = {}" using below by fastforce
  moreover have "distinct (live_ids w)" using ok by (simp add: worker_ok_def)
  moreover have "live_ids ?w = map tk_id (wk_waiting w) @ [wk_next w..<wk_next w + length js] @ map (tk_id \<circ> fst) (wk_running w)"
    by (simp add: live_ids_def tickets_ids)
  ultimately have "distinct (live_ids ?w)" unfolding live_ids_def by (metis distinct_between distinct_upt)
  then show ?thesis using ok old new by (auto simp: worker_ok_def)
qed

lemma other_step_ok: "other_step v w \<Longrightarrow> worker_ok hmac max_tries v \<Longrightarrow> worker_ok hmac max_tries w"
proof (induction rule: other_step.induct)
  case (passes w now)
  then show ?case by (simp add: worker_ok_def ticket_ok_def live_ids_def)
next
  case (emits e w)
  have "news (wk_rows w) \<subseteq> news (wk_rows w @ [e])" by (auto simp: news_def)
  then show ?case using emits by (intro worker_ok_rows) (simp_all add: worker_ok_def unique_on_def)
next
  case (edits w eps)
  then show ?case by (simp add: worker_ok_def ticket_ok_def live_ids_def)
next
  case (relays w ups res rows q)
  have "unique_on ob_id (wk_rows w)" using relays.prems by (simp add: worker_ok_def)
  note facts = relay_keeps_news [OF this relays.hyps]
  have "worker_ok hmac max_tries (w\<lparr>wk_rows := rows\<rparr>)" using worker_ok_rows [OF relays.prems facts(1)] facts(2) by simp
  moreover have "\<forall>j \<in> set (queued q). (dj_type j, dj_payload j) \<in> news rows" using facts(2,3) by auto
  ultimately show ?case using worker_ok_queued [of hmac max_tries "w\<lparr>wk_rows := rows\<rparr>" "queued q" "wk_now w"] by simp
qed

lemma runs_to_ok: "runs_to hmac max_tries v w \<Longrightarrow> worker_ok hmac max_tries v \<Longrightarrow> worker_ok hmac max_tries w"
  by (induction rule: runs_to.induct) (auto intro: work_step_ok other_step_ok)

lemma idle_ok: "unique_on ob_id rows \<Longrightarrow> worker_ok hmac max_tries (idle now rows eps logs)"
  by (simp add: worker_ok_def idle_def live_ids_def posts_of_def)

text \<open>C9. However rounds of the relay, deliveries, retries, changes of endpoints and stops of workers interleave, every request
  that leaves goes to a public address, carries the payload and type of an event of the outbox with a signature of that
  payload, and no job posts more often than it may be tried.\<close>

theorem every_post_is_accounted:
  assumes "unique_on ob_id rows" "runs_to hmac max_tries (idle now rows eps logs) w"
  shows "(\<forall>p \<in> set (wk_posts w). proper_post hmac (wk_rows w) (snd p)) \<and> (\<forall>k. posts_of k (wk_posts w) \<le> max_tries)
    \<and> length (wk_posts w) \<le> max_tries * wk_next w"
proof -
  have ok: "worker_ok hmac max_tries w" using runs_to_ok [OF assms(2) idle_ok [OF assms(1)]] .
  have small: "posts_of k (wk_posts w) \<le> max_tries" "wk_next w \<le> k \<Longrightarrow> posts_of k (wk_posts w) = 0" for k
    using ok by (simp_all add: worker_ok_def)
  have sum: "length ps = (\<Sum>k<n. posts_of k ps)" if "\<forall>p \<in> set ps. fst p < n" for ps :: "(nat \<times> http_request) list" and n
    using that
  proof (induction ps)
    case (Cons p ps)
    have "posts_of k (p # ps) = (if k = fst p then 1 else 0) + posts_of k ps" for k by (simp add: posts_of_def)
    then show ?case using Cons by (simp add: sum.distrib)
  qed (simp add: posts_of_def)
  have "\<forall>p \<in> set (wk_posts w). fst p < wk_next w"
  proof
    fix p assume "p \<in> set (wk_posts w)"
    then have "posts_of (fst p) (wk_posts w) \<noteq> 0" by (auto simp: posts_of_def filter_empty_conv)
    then show "fst p < wk_next w" using small(2) [of "fst p"] by force
  qed
  from sum [OF this] have "length (wk_posts w) \<le> (\<Sum>k<wk_next w. max_tries)" using small(1) by (simp only: sum_mono)
  then show ?thesis using ok by (simp add: worker_ok_def mult.commute)
qed

section \<open>Every job ends\<close>

text \<open>The steps a worker can still make on a job: a start and an end per try, and giving up.\<close>

definition work_left :: "nat \<Rightarrow> worker_world \<Rightarrow> nat" where
  "work_left max_tries w = sum_list (map (\<lambda>t. 2 * (max_tries - tk_tries t) + 1) (wk_waiting w))
     + sum_list (map (\<lambda>(t, eps). 2 * (max_tries - tk_tries t) + 2) (wk_running w))"

lemma work_step_less: "work_step hmac max_tries v w \<Longrightarrow> work_left max_tries w < work_left max_tries v"
proof (induction rule: work_step.induct)
  case (ends w xs t eps ys resolve post new_id out st)
  then show ?case by (cases out) (simp_all add: work_left_def requeue_def)
qed (simp_all add: work_left_def start_job_def)

lemma work_steps_less: "(work_step hmac max_tries ^^ n) v w \<Longrightarrow> work_left max_tries w + n \<le> work_left max_tries v"
proof (induction n arbitrary: w)
  case (Suc n)
  then obtain u where "(work_step hmac max_tries ^^ n) v u" "work_step hmac max_tries u w" by auto
  with Suc.IH work_step_less show ?case by fastforce
qed simp

lemma work_step_possible:
  assumes "\<forall>t \<in> set (wk_waiting w). tk_due t \<le> wk_now w" "\<forall>x. \<not> work_step hmac max_tries w x"
  shows "wk_waiting w = [] \<and> wk_running w = []"
proof
  show "wk_waiting w = []"
  proof (rule ccontr)
    assume "wk_waiting w \<noteq> []"
    then obtain t ys where split: "wk_waiting w = [] @ t # ys" by (cases "wk_waiting w") simp_all
    have due: "tk_due t \<le> wk_now w" using assms(1) split by simp
    show False
    proof (cases "tk_tries t < max_tries")
      case True
      from work_step.begins [OF split due this] assms(2) show False by blast
    next
      case False
      then have "max_tries \<le> tk_tries t" by simp
      from work_step.gives_up [OF split due this] assms(2) show False by blast
    qed
  qed
  show "wk_running w = []"
  proof (rule ccontr)
    assume "wk_running w \<noteq> []"
    then obtain t eps ys where split: "wk_running w = [] @ (t, eps) # ys" by (cases "wk_running w") auto
    obtain out st where "run_task hmac no_resolver (\<lambda>_. TransportError) [] w t eps = (out, st)" by fastforce
    from work_step.ends [OF split this] assms(2) show False by blast
  qed
qed

text \<open>However receivers answer and workers stop, the worker is done with the jobs it finds after at most eleven steps for
  each (with five tries): it never retries for ever, and when nothing is left for it to do on jobs that are due, every
  job has been completed or given up.\<close>

theorem every_job_ends:
  assumes steps: "(work_step hmac max_tries ^^ n) v w" and idle: "wk_running v = []"
  shows "n \<le> (2 * max_tries + 1) * length (wk_waiting v)
    \<and> ((\<forall>t \<in> set (wk_waiting w). tk_due t \<le> wk_now w) \<longrightarrow> (\<forall>x. \<not> work_step hmac max_tries w x)
        \<longrightarrow> wk_waiting w = [] \<and> wk_running w = [])"
proof -
  have "sum_list (map (\<lambda>t. 2 * (max_tries - tk_tries t) + 1) ts) \<le> (2 * max_tries + 1) * length ts" for ts
    by (induction ts) simp_all
  then have "work_left max_tries v \<le> (2 * max_tries + 1) * length (wk_waiting v)" using idle by (simp add: work_left_def)
  moreover have "n \<le> work_left max_tries v" using work_steps_less [OF steps] by simp
  moreover have "(\<forall>t \<in> set (wk_waiting w). tk_due t \<le> wk_now w) \<longrightarrow> (\<forall>x. \<not> work_step hmac max_tries w x)
        \<longrightarrow> wk_waiting w = [] \<and> wk_running w = []" using work_step_possible by blast
  ultimately show ?thesis by (meson le_trans)
qed

section \<open>A run\<close>

definition one_job :: worker_world where
  "one_job = \<lparr>wk_now = 9, wk_rows = [(demo_outbox ''e1'')\<lparr>ob_published := Some 9\<rparr>], wk_endpoints = [hooked], wk_logs = [], wk_next = 1,
     wk_waiting = [\<lparr>tk_id = 0, tk_job = hooked_job, tk_tries = 0, tk_due = 9\<rparr>], wk_running = [], wk_posts = []\<rparr>"

definition one_running :: worker_world where
  "one_running = one_job\<lparr>wk_waiting := [], wk_running := [(\<lparr>tk_id = 0, tk_job = hooked_job, tk_tries = 1, tk_due = 9\<rparr>, [hooked])]\<rparr>"

lemma one_begins: "work_step demo_hmac 5 one_job one_running"
proof -
  let ?t = "\<lparr>tk_id = 0, tk_job = hooked_job, tk_tries = 0, tk_due = 9\<rparr>"
  have "wk_waiting one_job = [] @ ?t # []" "tk_due ?t \<le> wk_now one_job" "tk_tries ?t < 5" by (simp_all add: one_job_def)
  from work_step.begins [OF this, of demo_hmac] show ?thesis by (simp add: one_running_def one_job_def start_job_def)
qed

lemma one_ends: "\<exists>w r. work_step demo_hmac 5 one_running w \<and> wk_posts w = [(0, r)] \<and> wk_rows w = wk_rows one_job"
proof -
  let ?t = "\<lparr>tk_id = 0, tk_job = hooked_job, tk_tries = 1, tk_due = 9\<rparr>"
  have now: "wk_running one_running = [] @ (?t, [hooked]) # []" by (simp add: one_running_def)
  obtain out st r where "run_task demo_hmac one_address (\<lambda>_. Response 200) ''l1'' one_running ?t [hooked] = (out, st)"
    and r: "ds_posted st = [r]"
  proof -
    have "lookup_by we_id (dj_endpoint hooked_job) [hooked] = Some hooked" using hooked_found(1) by (simp add: hooked_state_def)
    then show thesis using that
      by (simp add: run_task_def deliver_webhook_def hooked_found(2,3) Let_def audited_fresh one_running_def one_job_def)
  qed
  from work_step.ends [OF now this(1), of 5] obtain w where w: "work_step demo_hmac 5 one_running w"
    "w = one_running\<lparr>wk_running := [] @ [], wk_waiting := wk_waiting one_running @ requeue (wk_now one_running) out ?t,
       wk_logs := ds_logs st, wk_posts := wk_posts one_running @ sent_by ?t (ds_posted st)\<rparr>" by blast
  then have "wk_posts w = [(0, r)] \<and> wk_rows w = wk_rows one_job" by (simp add: r one_running_def one_job_def)
  then show ?thesis using w(1) by blast
qed

lemma one_queued: "other_step (idle 9 [demo_outbox ''e1''] [hooked] []) one_job"
proof -
  have "subscribed (demo_outbox ''e1'') hooked" using demo_subscribed by (simp add: hooked_def subscribed_def)
  then have "jobs_for [hooked] (demo_outbox ''e1'') = [hooked_job]"
    by (simp add: jobs_for_def hooked_job_def) (simp add: demo_outbox_def WEBHOOK_SOURCE_def)
  then have "relay_outbox 9 [hooked] [demo_outbox ''e1''] \<lparr>queued = [], upcoming = []\<rparr>
      = (Inr 1, [(demo_outbox ''e1'')\<lparr>ob_published := Some 9\<rparr>], \<lparr>queued = [hooked_job], upcoming = []\<rparr>)"
    using relay_healthy [of "\<lparr>queued = [], upcoming = []\<rparr>" 9 "[hooked]" "[demo_outbox ''e1'']"]
    by (simp add: demo_claimed write_back_def)
  then show ?thesis
    using other_step.relays [of "idle 9 [demo_outbox ''e1''] [hooked] []" "[]" "Inr 1"]
    by (simp add: idle_def one_job_def tickets_def)
qed

lemma every_post_is_accounted_witness:
  "\<exists>w r. runs_to demo_hmac 5 (idle 9 [demo_outbox ''e1''] [hooked] []) w \<and> wk_posts w = [(0, r)] \<and> proper_post demo_hmac (wk_rows w) r"
proof -
  obtain w r where w: "work_step demo_hmac 5 one_running w" "wk_posts w = [(0, r)]" using one_ends by blast
  have "runs_to demo_hmac 5 (idle 9 [demo_outbox ''e1''] [hooked] []) w"
    using runs_to.still one_queued one_begins w(1) by (meson runs_to.works runs_to.others)
  from every_post_is_accounted [OF demo_unique this] this w(2) show ?thesis by auto
qed

lemma every_job_ends_witness: "\<exists>w. (work_step demo_hmac 5 ^^ 2) one_job w \<and> 2 \<le> (11 :: nat) * length (wk_waiting one_job)"
proof -
  obtain w where "work_step demo_hmac 5 one_running w" using one_ends by blast
  then have "(work_step demo_hmac 5 ^^ 2) one_job w" using one_begins by (auto simp: numeral_2_eq_2)
  from every_job_ends [OF this] this show ?thesis by (auto simp: one_job_def)
qed

end
