(* ===== verification/QueueSeam.thy ===== *)
theory QueueSeam imports WebhooksProps begin

text \<open>
  The connection behind the queue (\<open>app/jobs/queue.py\<close>): the pool is opened by the first call that needs it and kept for
  the process, and \<open>enqueue\<close> swallows the errors of opening it like those of a submission. Opening is a parameter, the
  list of how the next attempts go. The seam refines the pool that Webhooks describes, and so keeps its contract.
\<close>

section \<open>Connecting\<close>

datatype redis_args = FromDsn string | DefaultRedis

definition redis_settings :: "string option \<Rightarrow> redis_args" where
  "redis_settings redis_url = (case redis_url of Some (c # cs) \<Rightarrow> FromDsn (c # cs) | _ \<Rightarrow> DefaultRedis)"

text \<open>How an attempt to open a pool ends: with a pool, an error of the connection (OSError, RedisError), or another exception.\<close>

datatype connect_outcome = Connected | Refused | ConnectRaised exn

record 'j queue_seam =
  qs_url :: "string option"
  qs_open :: bool
  qs_connects :: "connect_outcome list"
  qs_opened :: "redis_args list"
  qs_pool :: "'j job_pool"

text \<open>The pool, with what ended the attempt to open it when there is none.\<close>

definition get_pool :: "'j queue_seam \<Rightarrow> connect_outcome \<times> 'j queue_seam" where
  "get_pool s =
    (if qs_open s then (Connected, s)
     else (let out = (case qs_connects s of [] \<Rightarrow> Connected | x # xs \<Rightarrow> x); s1 = s\<lparr>qs_connects := tl (qs_connects s)\<rparr>
       in if out = Connected then (out, s1\<lparr>qs_open := True, qs_opened := qs_opened s @ [redis_settings (qs_url s)]\<rparr>)
          else (out, s1)))"

definition enqueue_seam :: "'j \<Rightarrow> 'j queue_seam \<Rightarrow> (exn + bool) \<times> 'j queue_seam" where
  "enqueue_seam j s =
    (case get_pool s of
       (Connected, s1) \<Rightarrow> (case enqueue j (qs_pool s1) of (r, p) \<Rightarrow> (r, s1\<lparr>qs_pool := p\<rparr>))
     | (Refused, s1) \<Rightarrow> (Inr False, s1)
     | (ConnectRaised e, s1) \<Rightarrow> (Inl e, s1))"

section \<open>Refinement\<close>

text \<open>Until a connection is made every call meets what the next attempt to connect meets; then it meets the pool.\<close>

fun as_submission :: "connect_outcome \<Rightarrow> pool_outcome" where
  "as_submission Connected = Accepted"
| "as_submission Refused = Unreachable False"
| "as_submission (ConnectRaised e) = PoolError e"

definition as_pool :: "'j queue_seam \<Rightarrow> 'j job_pool" where
  "as_pool s = (if qs_open s then qs_pool s
     else (qs_pool s)\<lparr>upcoming := map as_submission (takeWhile (\<lambda>x. x \<noteq> Connected) (qs_connects s)) @ upcoming (qs_pool s)\<rparr>)"

lemma job_pool_same [simp]: "p\<lparr>upcoming := upcoming p\<rparr> = (p :: 'j job_pool)"
  by simp

lemma get_pool_facts:
  assumes "get_pool s = (out, s1)"
  shows "qs_pool s1 = qs_pool s" "out = Connected \<longleftrightarrow> qs_open s1" "out = Connected \<Longrightarrow> as_pool s = qs_pool s1"
  using assms by (auto simp: get_pool_def as_pool_def Let_def split: if_splits list.splits)

lemma seam_step: "enqueue j (as_pool s) = (fst (enqueue_seam j s), as_pool (snd (enqueue_seam j s)))"
proof -
  obtain out s1 where g: "get_pool s = (out, s1)" by fastforce
  note facts = get_pool_facts [OF g]
  show ?thesis
  proof (cases out)
    case Connected
    obtain r p where "enqueue j (qs_pool s1) = (r, p)" by fastforce
    then show ?thesis using g facts Connected by (simp add: enqueue_seam_def as_pool_def [of "s1\<lparr>qs_pool := p\<rparr>"])
  next
    case Refused
    then obtain xs where "\<not> qs_open s" "qs_connects s = Refused # xs" "s1 = s\<lparr>qs_connects := xs\<rparr>"
      using g by (auto simp: get_pool_def Let_def split: if_splits list.splits)
    then show ?thesis using g Refused by (simp add: enqueue_seam_def as_pool_def enqueue_def)
  next
    case (ConnectRaised e)
    then obtain xs where "\<not> qs_open s" "qs_connects s = ConnectRaised e # xs" "s1 = s\<lparr>qs_connects := xs\<rparr>"
      using g by (auto simp: get_pool_def Let_def split: if_splits list.splits)
    then show ?thesis using g ConnectRaised by (simp add: enqueue_seam_def as_pool_def enqueue_def)
  qed
qed

text \<open>The seam is an enqueue port like the pool, so that what the relay owes to the port holds over it.\<close>

lemma queued_as_pool [simp]: "queued (as_pool s) = queued (qs_pool s)"
  by (simp add: as_pool_def)

interpretation lazy: enqueue_port enqueue_seam "\<lambda>s. queued (qs_pool s)"
proof
  fix j and s s' :: "delivery_job queue_seam"
  assume "enqueue_seam j s = (Inr True, s')"
  then have "enqueue j (as_pool s) = (Inr True, as_pool s')" by (simp add: seam_step)
  from seam.accepted [OF this] show "queued (qs_pool s') = queued (qs_pool s) @ [j]" by simp
next
  fix j and s s' :: "delivery_job queue_seam" and r
  assume "enqueue_seam j s = (r, s')"
  then have "enqueue j (as_pool s) = (r, as_pool s')" by (simp add: seam_step)
  from seam.at_most [OF this] show "queued (qs_pool s') = queued (qs_pool s) \<or> queued (qs_pool s') = queued (qs_pool s) @ [j]" by simp
qed

section \<open>A process\<close>

fun enqueue_all :: "'j list \<Rightarrow> 'j queue_seam \<Rightarrow> (exn + bool) list \<times> 'j queue_seam" where
  "enqueue_all [] s = ([], s)"
| "enqueue_all (j # js) s = (case enqueue_seam j s of (r, s1) \<Rightarrow> (case enqueue_all js s1 of (rs, s2) \<Rightarrow> (r # rs, s2)))"

fun submit_all :: "'j list \<Rightarrow> 'j job_pool \<Rightarrow> (exn + bool) list \<times> 'j job_pool" where
  "submit_all [] p = ([], p)"
| "submit_all (j # js) p = (case enqueue j p of (r, p1) \<Rightarrow> (case submit_all js p1 of (rs, p2) \<Rightarrow> (r # rs, p2)))"

definition fresh_seam :: "string option \<Rightarrow> connect_outcome list \<Rightarrow> 'j job_pool \<Rightarrow> 'j queue_seam" where
  "fresh_seam url outs p = \<lparr>qs_url = url, qs_open = False, qs_connects = outs, qs_opened = [], qs_pool = p\<rparr>"

lemma submit_all_seam: "submit_all js (as_pool s) = (fst (enqueue_all js s), as_pool (snd (enqueue_all js s)))"
  by (induction js arbitrary: s) (simp_all add: seam_step split: prod.split)

definition opened_ok :: "'j queue_seam \<Rightarrow> bool" where
  "opened_ok s \<longleftrightarrow> qs_opened s = (if qs_open s then [redis_settings (qs_url s)] else [])"

lemma opened_step: "opened_ok s \<Longrightarrow> opened_ok (snd (enqueue_seam j s)) \<and> qs_url (snd (enqueue_seam j s)) = qs_url s"
  by (auto simp: opened_ok_def enqueue_seam_def get_pool_def Let_def split: prod.split list.split connect_outcome.split)

lemma opened_run: "opened_ok s \<Longrightarrow> opened_ok (snd (enqueue_all js s)) \<and> qs_url (snd (enqueue_all js s)) = qs_url s"
proof (induction js arbitrary: s)
  case (Cons j js)
  obtain r s1 where one: "enqueue_seam j s = (r, s1)" by fastforce
  obtain rs s2 where rest: "enqueue_all js s1 = (rs, s2)" by fastforce
  show ?case using opened_step [OF Cons.prems, of j] Cons.IH [of s1] by (simp add: one rest)
qed simp

text \<open>A process that submits jobs opens one pool at most, with the configured address, and answers every submission as a pool
  does that refuses until the connection is made: an outage at the start is swallowed call by call and over with it.\<close>

theorem pool_opened_once:
  "submit_all js (as_pool (fresh_seam url outs p))
      = (fst (enqueue_all js (fresh_seam url outs p)), as_pool (snd (enqueue_all js (fresh_seam url outs p))))
    \<and> (qs_opened (snd (enqueue_all js (fresh_seam url outs p))) = []
       \<or> qs_opened (snd (enqueue_all js (fresh_seam url outs p))) = [redis_settings url])"
proof
  show "submit_all js (as_pool (fresh_seam url outs p))
      = (fst (enqueue_all js (fresh_seam url outs p)), as_pool (snd (enqueue_all js (fresh_seam url outs p))))"
    by (rule submit_all_seam)
  have "opened_ok (fresh_seam url outs p)" by (simp add: opened_ok_def fresh_seam_def)
  from opened_run [OF this, of js] show "qs_opened (snd (enqueue_all js (fresh_seam url outs p))) = []
       \<or> qs_opened (snd (enqueue_all js (fresh_seam url outs p))) = [redis_settings url]"
    by (simp add: opened_ok_def fresh_seam_def)
qed

end
