(* ===== verification/AdminPanel.thy ===== *)
theory AdminPanel imports PerimeterProps begin

text \<open>
  The admin panel (\<open>app/admin/views.py.jinja\<close>, \<open>app/admin/setup.py.jinja\<close>): its views with the columns each page uses,
  and how it is mounted behind the authentication of \<open>app/admin/auth.py\<close>. sqladmin, which draws the pages and carries out
  the forms, is a parameter with the documented meaning of the lists a view declares.
\<close>

section \<open>The tables\<close>

text \<open>A mapped attribute (a column, or a relationship, whose value is what the page shows for the related rows), and whether
  a row needs a value for it: it is not nullable and has no default.\<close>

type_synonym model_columns = "(string \<times> bool) list"

definition User_columns :: model_columns where
  "User_columns = [(''id'', False), (''email'', True), (''hashed_password'', True), (''is_active'', False),
     (''is_superuser'', False), (''is_verified'', False), (''token_version'', False)]"

definition Organization_columns :: model_columns where
  "Organization_columns = [(''id'', False), (''name'', True), (''slug'', True), (''created_at'', False),
     (''payments_customer_id'', False), (''memberships'', False)]"

definition Membership_columns :: model_columns where
  "Membership_columns = [(''id'', False), (''organization_id'', True), (''user_id'', True), (''role'', False),
     (''created_at'', False), (''organization'', False)]"

definition Subscription_columns :: model_columns where
  "Subscription_columns = [(''id'', False), (''organization_id'', True), (''provider'', True),
     (''provider_subscription_id'', True), (''status'', True), (''plan'', True), (''current_period_end'', False),
     (''created_at'', False)]"

definition ApiKey_columns :: model_columns where
  "ApiKey_columns = [(''id'', False), (''organization_id'', True), (''created_by_user_id'', True), (''name'', True),
     (''prefix'', True), (''hashed_secret'', True), (''scopes'', False), (''expires_at'', False), (''last_used_at'', False),
     (''revoked_at'', False), (''created_at'', False)]"

definition WebhookEndpoint_columns :: model_columns where
  "WebhookEndpoint_columns = [(''id'', False), (''organization_id'', True), (''url'', True), (''secret'', True),
     (''event_types'', True), (''active'', False), (''created_at'', False)]"

definition AuditLog_columns :: model_columns where
  "AuditLog_columns = [(''id'', False), (''organization_id'', False), (''actor'', False), (''action'', True),
     (''target'', False), (''meta'', False), (''created_at'', False)]"

section \<open>The views\<close>

record admin_view =
  av_columns :: model_columns
  av_name :: string
  av_name_plural :: string
  av_icon :: string
  column_list :: "string list"
  column_searchable_list :: "string list"
  column_sortable_list :: "string list"
  column_details_exclude_list :: "string list"
  form_excluded_columns :: "string list"
  can_create :: bool
  can_edit :: bool
  can_delete :: bool

definition UserAdmin :: admin_view where
  "UserAdmin = \<lparr>av_columns = User_columns, av_name = ''User'', av_name_plural = ''Users'', av_icon = ''fa-solid fa-user'',
     column_list = [''id'', ''email'', ''is_active'', ''is_superuser'', ''is_verified''],
     column_searchable_list = [''email''], column_sortable_list = [''email'', ''is_active'', ''is_superuser'', ''is_verified''],
     column_details_exclude_list = [''hashed_password''], form_excluded_columns = [''hashed_password''],
     can_create = True, can_edit = True, can_delete = True\<rparr>"

definition OrganizationAdmin :: admin_view where
  "OrganizationAdmin = \<lparr>av_columns = Organization_columns, av_name = ''Organization'', av_name_plural = ''Organizations'',
     av_icon = ''fa-solid fa-building'', column_list = [''id'', ''name'', ''slug'', ''created_at''],
     column_searchable_list = [''name'', ''slug''], column_sortable_list = [''name'', ''created_at''],
     column_details_exclude_list = [''payments_customer_id''], form_excluded_columns = [''payments_customer_id''],
     can_create = True, can_edit = True, can_delete = True\<rparr>"

definition MembershipAdmin :: admin_view where
  "MembershipAdmin = \<lparr>av_columns = Membership_columns, av_name = ''Membership'', av_name_plural = ''Memberships'',
     av_icon = ''fa-solid fa-user-group'', column_list = [''id'', ''organization_id'', ''user_id'', ''role'', ''created_at''],
     column_searchable_list = [''role''], column_sortable_list = [''role'', ''created_at''],
     column_details_exclude_list = [], form_excluded_columns = [], can_create = True, can_edit = True, can_delete = True\<rparr>"

definition SubscriptionAdmin :: admin_view where
  "SubscriptionAdmin = \<lparr>av_columns = Subscription_columns, av_name = ''Subscription'', av_name_plural = ''Subscriptions'',
     av_icon = ''fa-solid fa-credit-card'',
     column_list = [''id'', ''organization_id'', ''provider'', ''status'', ''plan'', ''current_period_end'', ''created_at''],
     column_searchable_list = [''plan'', ''status''], column_sortable_list = [''status'', ''created_at''],
     column_details_exclude_list = [''provider_subscription_id''], form_excluded_columns = [''provider_subscription_id''],
     can_create = True, can_edit = True, can_delete = True\<rparr>"

definition ApiKeyAdmin :: admin_view where
  "ApiKeyAdmin = \<lparr>av_columns = ApiKey_columns, av_name = ''API key'', av_name_plural = ''API keys'', av_icon = ''fa-solid fa-key'',
     column_list = [''id'', ''organization_id'', ''name'', ''prefix'', ''scopes'', ''expires_at'', ''last_used_at'',
       ''revoked_at'', ''created_at''],
     column_searchable_list = [''name'', ''prefix''], column_sortable_list = [''name'', ''created_at''],
     column_details_exclude_list = [''hashed_secret''], form_excluded_columns = [''hashed_secret''],
     can_create = True, can_edit = True, can_delete = True\<rparr>"

definition WebhookEndpointAdmin :: admin_view where
  "WebhookEndpointAdmin = \<lparr>av_columns = WebhookEndpoint_columns, av_name = ''Webhook endpoint'',
     av_name_plural = ''Webhook endpoints'', av_icon = ''fa-solid fa-bolt'',
     column_list = [''id'', ''organization_id'', ''url'', ''event_types'', ''active'', ''created_at''],
     column_searchable_list = [''url''], column_sortable_list = [''active'', ''created_at''],
     column_details_exclude_list = [''secret''], form_excluded_columns = [''secret''],
     can_create = True, can_edit = True, can_delete = True\<rparr>"

definition AuditLogAdmin :: admin_view where
  "AuditLogAdmin = \<lparr>av_columns = AuditLog_columns, av_name = ''Audit log'', av_name_plural = ''Audit logs'',
     av_icon = ''fa-solid fa-clipboard-list'',
     column_list = [''id'', ''organization_id'', ''actor'', ''action'', ''target'', ''created_at''],
     column_searchable_list = [''actor'', ''action'', ''target''], column_sortable_list = [''action'', ''created_at''],
     column_details_exclude_list = [], form_excluded_columns = [], can_create = False, can_edit = False, can_delete = False\<rparr>"

definition register_model_views :: "admin_view list \<Rightarrow> admin_view list" where
  "register_model_views views = views @ [UserAdmin, OrganizationAdmin, MembershipAdmin, SubscriptionAdmin, ApiKeyAdmin,
     WebhookEndpointAdmin, AuditLogAdmin]"

text \<open>How the panel is mounted: the key and the flags of its session cookie, its title and its views.\<close>

record admin_panel =
  ap_secret_key :: string
  ap_https_only :: bool
  ap_same_site :: string
  ap_title :: string
  ap_views :: "admin_view list"

definition mount_admin :: "string \<Rightarrow> bool \<Rightarrow> string \<Rightarrow> admin_panel" where
  "mount_admin users_jwt_secret production app_name = \<lparr>ap_secret_key = users_jwt_secret, ap_https_only = production,
     ap_same_site = ''lax'', ap_title = app_name @ '' admin'', ap_views = register_model_views []\<rparr>"

section \<open>What sqladmin does with a view\<close>

type_synonym table_row = "string \<Rightarrow> json"

datatype panel_page =
  ListPage string "string option" | ExportPage string | DetailsPage string | CreatePage | EditPage string

datatype panel_form = CreateRow "(string \<times> json) list" | EditRow string "(string \<times> json) list" | DeleteRow string

text \<open>The columns a page may depend on. A list also depends on the columns that it searches and sorts by; an export (in the
  format it is asked for) has the columns of the list, since no view declares others.\<close>

definition page_columns :: "admin_view \<Rightarrow> panel_page \<Rightarrow> string list" where
  "page_columns v pg = (case pg of
       ListPage search order \<Rightarrow> column_list v @ column_searchable_list v @ column_sortable_list v
     | ExportPage fmt \<Rightarrow> column_list v
     | DetailsPage i \<Rightarrow> filter (\<lambda>c. c \<notin> set (column_details_exclude_list v)) (map fst (av_columns v))
     | CreatePage \<Rightarrow> [] | EditPage i \<Rightarrow> filter (\<lambda>c. c \<notin> set (form_excluded_columns v)) (map fst (av_columns v)))"

record sqladmin =
  sq_page :: "admin_view \<Rightarrow> panel_page \<Rightarrow> table_row list \<Rightarrow> string"
  sq_submit :: "admin_view \<Rightarrow> panel_form \<Rightarrow> table_row list \<Rightarrow> table_row list"

definition seen_through :: "string list \<Rightarrow> table_row \<Rightarrow> string \<Rightarrow> json option" where
  "seen_through cols r = (\<lambda>c. if c = ''id'' \<or> c \<in> set cols then Some (r c) else None)"

text \<open>
  The documented behaviour: a page shows its own columns; the flags of a view allow its forms; a form sets the columns it
  is not excluded from, so that an inserted row has nothing in an excluded column without a default, and PostgreSQL takes
  a row only with all the values it needs.
\<close>

definition has_needed :: "admin_view \<Rightarrow> table_row \<Rightarrow> bool" where
  "has_needed v r \<longleftrightarrow> (\<forall>(c, needed) \<in> set (av_columns v). needed \<longrightarrow> r c \<noteq> JNull)"

definition sqladmin_ok :: "sqladmin \<Rightarrow> bool" where
  "sqladmin_ok lib \<longleftrightarrow>
    (\<forall>v pg rows rows'. map (seen_through (page_columns v pg)) rows = map (seen_through (page_columns v pg)) rows'
        \<longrightarrow> sq_page lib v pg rows = sq_page lib v pg rows')
    \<and> (\<forall>v form rows. (\<not> can_create v \<longrightarrow> sq_submit lib v (CreateRow form) rows = rows)
        \<and> (sq_submit lib v (CreateRow form) rows = rows
           \<or> (\<exists>r. sq_submit lib v (CreateRow form) rows = rows @ [r] \<and> has_needed v r
                \<and> (\<forall>c \<in> set (form_excluded_columns v). (c, True) \<in> set (av_columns v) \<longrightarrow> r c = JNull))))
    \<and> (\<forall>v i form rows. (\<not> can_edit v \<longrightarrow> sq_submit lib v (EditRow i form) rows = rows)
        \<and> (\<exists>g. sq_submit lib v (EditRow i form) rows = map g rows \<and> (\<forall>r. \<forall>c \<in> set (form_excluded_columns v). g r c = r c)))
    \<and> (\<forall>v i rows. (\<not> can_delete v \<longrightarrow> sq_submit lib v (DeleteRow i) rows = rows)
        \<and> (can_delete v \<longrightarrow> sq_submit lib v (DeleteRow i) rows = filter (\<lambda>r. r ''id'' \<noteq> JStr i) rows))"

text \<open>A request to the panel: without an authenticated session there is neither a page nor a change.\<close>

definition panel_page :: "sqladmin \<Rightarrow> admin_user list \<Rightarrow> admin_session \<Rightarrow> admin_view \<Rightarrow> panel_page \<Rightarrow> table_row list \<Rightarrow> string option" where
  "panel_page lib us session v pg rows = (if admin_authenticate us session then Some (sq_page lib v pg rows) else None)"

definition panel_submit :: "sqladmin \<Rightarrow> admin_user list \<Rightarrow> admin_session \<Rightarrow> admin_view \<Rightarrow> panel_form \<Rightarrow> table_row list \<Rightarrow> table_row list" where
  "panel_submit lib us session v form rows = (if admin_authenticate us session then sq_submit lib v form rows else rows)"

section \<open>What the panel shows and changes\<close>

definition SECRETS :: "string list" where
  "SECRETS = [''hashed_password'', ''hashed_secret'', ''secret'', ''payments_customer_id'', ''provider_subscription_id'']"

text \<open>A row with its secrets blotted out.\<close>

definition redacted :: "table_row \<Rightarrow> table_row" where
  "redacted r = (\<lambda>c. if c \<in> set SECRETS then JNull else r c)"

lemmas view_defs = UserAdmin_def OrganizationAdmin_def MembershipAdmin_def SubscriptionAdmin_def ApiKeyAdmin_def
  WebhookEndpointAdmin_def AuditLogAdmin_def
lemmas column_defs = User_columns_def Organization_columns_def Membership_columns_def Subscription_columns_def
  ApiKey_columns_def WebhookEndpoint_columns_def AuditLog_columns_def

lemma view_cases:
  assumes "v \<in> set (ap_views (mount_admin secret production name))"
  obtains "v = UserAdmin" | "v = OrganizationAdmin" | "v = MembershipAdmin" | "v = SubscriptionAdmin" | "v = ApiKeyAdmin"
    | "v = WebhookEndpointAdmin" | "v = AuditLogAdmin"
  using assms by (auto simp: mount_admin_def register_model_views_def)

lemma pages_avoid_secrets:
  assumes "v \<in> set (ap_views (mount_admin secret production name))"
  shows "set (page_columns v pg) \<inter> set SECRETS = {}"
  using assms by (cases rule: view_cases; cases pg) (simp_all add: page_columns_def view_defs column_defs SECRETS_def)

lemma forms_avoid_secrets:
  assumes "v \<in> set (ap_views (mount_admin secret production name))" "c \<in> set SECRETS" "c \<in> fst ` set (av_columns v)"
  shows "c \<in> set (form_excluded_columns v)"
  using assms by (cases rule: view_cases) (auto simp: view_defs column_defs SECRETS_def)

text \<open>C32. No page of the panel depends on a secret, however its list is searched or sorted: tables that differ only in password
  and key hashes, signing secrets and the provider's ids look the same. Whoever is not an active superuser sees no page.\<close>

theorem panel_hides_secrets:
  assumes lib: "sqladmin_ok lib" and v: "v \<in> set (ap_views (mount_admin secret production name))"
    and same: "map redacted rows = map redacted rows'"
  shows "panel_page lib us session v pg rows = panel_page lib us session v pg rows'
    \<and> (panel_page lib us session v pg rows \<noteq> None \<longleftrightarrow> admin_authenticate us session)"
proof -
  have "seen_through (page_columns v pg) r = seen_through (page_columns v pg) (redacted r)" for r
    using pages_avoid_secrets [OF v, of pg] by (auto simp: seen_through_def redacted_def SECRETS_def fun_eq_iff)
  then have "map (seen_through (page_columns v pg)) rs = map (seen_through (page_columns v pg)) (map redacted rs)" for rs
    by simp
  then have "map (seen_through (page_columns v pg)) rows = map (seen_through (page_columns v pg)) rows'" using same by metis
  then have "sq_page lib v pg rows = sq_page lib v pg rows'" using lib unfolding sqladmin_ok_def by blast
  then show ?thesis by (simp add: panel_page_def)
qed

text \<open>No form of the view of the audit log changes it, no form of any view changes a secret of a row that stays,
  and none but an active superuser's changes anything.\<close>

theorem panel_changes_no_secret:
  assumes lib: "sqladmin_ok lib" and v: "v \<in> set (ap_views (mount_admin secret production name))"
    and new: "rows' = panel_submit lib us session v form rows"
  shows "(rows' \<noteq> rows \<longrightarrow> admin_authenticate us session \<and> v \<noteq> AuditLogAdmin)
    \<and> ((\<exists>r. rows' = rows @ [r]) \<or> (\<exists>keep. rows' = filter keep rows)
       \<or> (\<exists>g. rows' = map g rows \<and> (\<forall>r. \<forall>c \<in> set SECRETS. c \<in> fst ` set (av_columns v) \<longrightarrow> g r c = r c)))"
proof -
  have guard: "rows' \<noteq> rows \<longrightarrow> admin_authenticate us session" using new by (auto simp: panel_submit_def)
  have laws: "can_create v \<or> sq_submit lib v (CreateRow f) rows = rows"
      "sq_submit lib v (CreateRow f) rows = rows \<or> (\<exists>r. sq_submit lib v (CreateRow f) rows = rows @ [r])"
      "can_edit v \<or> sq_submit lib v (EditRow i f) rows = rows"
      "\<exists>g. sq_submit lib v (EditRow i f) rows = map g rows \<and> (\<forall>r. \<forall>c \<in> set (form_excluded_columns v). g r c = r c)"
      "can_delete v \<or> sq_submit lib v (DeleteRow i) rows = rows"
      "can_delete v \<longrightarrow> sq_submit lib v (DeleteRow i) rows = filter (\<lambda>r. r ''id'' \<noteq> JStr i) rows"
    for f i using lib unfolding sqladmin_ok_def by blast+
  have "rows' = rows" if "v = AuditLogAdmin"
    using laws(1,3,5) that new by (cases form) (auto simp: panel_submit_def AuditLogAdmin_def)
  moreover have "(\<exists>r. rows' = rows @ [r]) \<or> (\<exists>keep. rows' = filter keep rows)
       \<or> (\<exists>g. rows' = map g rows \<and> (\<forall>r. \<forall>c \<in> set SECRETS. c \<in> fst ` set (av_columns v) \<longrightarrow> g r c = r c))"
  proof (cases "admin_authenticate us session")
    case True
    then have rows': "rows' = sq_submit lib v form rows" using new by (simp add: panel_submit_def)
    have same: "\<exists>keep. rows = filter keep rows" by (rule exI [of _ "\<lambda>_. True"]) simp
    show ?thesis
    proof (cases form)
      case (CreateRow f)
      then show ?thesis using laws(2) [of f] rows' same by auto
    next
      case (EditRow i f)
      obtain g where "rows' = map g rows" "\<forall>r. \<forall>c \<in> set (form_excluded_columns v). g r c = r c"
        using laws(4) [of i f] rows' EditRow by auto
      then show ?thesis using forms_avoid_secrets [OF v] by blast
    next
      case (DeleteRow i)
      then show ?thesis using laws(5,6) [of i] rows' same by auto
    qed
  next
    case False
    then show ?thesis using new by (auto simp: panel_submit_def intro!: exI [of _ "\<lambda>_. True"])
  qed
  ultimately show ?thesis using guard by blast
qed

text \<open>The panel offers to create users, subscriptions, API keys and webhook endpoints, but their forms leave out a column
  that a row needs: no submission of one ever adds a row.\<close>

theorem panel_cannot_create:
  assumes lib: "sqladmin_ok lib" and v: "v \<in> {UserAdmin, SubscriptionAdmin, ApiKeyAdmin, WebhookEndpointAdmin}"
  shows "can_create v \<and> panel_submit lib us session v (CreateRow form) rows = rows"
proof -
  have "\<exists>c. c \<in> set (form_excluded_columns v) \<and> (c, True) \<in> set (av_columns v)"
    using v by (auto simp: view_defs column_defs)
  then obtain c where c: "c \<in> set (form_excluded_columns v)" "(c, True) \<in> set (av_columns v)" by blast
  have law: "sq_submit lib v (CreateRow form) rows = rows \<or> (\<exists>r. has_needed v r
        \<and> (\<forall>c \<in> set (form_excluded_columns v). (c, True) \<in> set (av_columns v) \<longrightarrow> r c = JNull))"
    using lib unfolding sqladmin_ok_def by blast
  have "sq_submit lib v (CreateRow form) rows = rows" using law
  proof (elim disjE exE conjE)
    fix r assume r: "has_needed v r" "\<forall>c \<in> set (form_excluded_columns v). (c, True) \<in> set (av_columns v) \<longrightarrow> r c = JNull"
    have "r c = JNull" using r(2) c by blast
    then show ?thesis using r(1) c(2) by (auto simp: has_needed_def)
  qed
  moreover have "can_create v" using v by (auto simp: view_defs)
  ultimately show ?thesis by (simp add: panel_submit_def)
qed

text \<open>The log is declared immutable and its view read-only, but its rows reference their organization with ON DELETE CASCADE:
  PostgreSQL removes those whose organization is gone.\<close>

definition cascade_to_logs :: "table_row list \<Rightarrow> table_row list \<Rightarrow> table_row list" where
  "cascade_to_logs organizations logs =
    filter (\<lambda>r. r ''organization_id'' = JNull \<or> r ''organization_id'' \<in> (\<lambda>x. x ''id'') ` set organizations) logs"

text \<open>Deleting an organization in the panel erases its audit log: exactly the entries of that organization are gone.\<close>

theorem deleted_organization_takes_its_log:
  assumes lib: "sqladmin_ok lib" and root: "admin_authenticate us session"
    and refers: "\<forall>r \<in> set logs. r ''organization_id'' = JNull \<or> r ''organization_id'' \<in> (\<lambda>x. x ''id'') ` set organizations"
  shows "cascade_to_logs (panel_submit lib us session OrganizationAdmin (DeleteRow i) organizations) logs
    = filter (\<lambda>r. r ''organization_id'' \<noteq> JStr i) logs"
proof -
  have "can_delete OrganizationAdmin" by (simp add: OrganizationAdmin_def)
  then have "sq_submit lib OrganizationAdmin (DeleteRow i) organizations = filter (\<lambda>r. r ''id'' \<noteq> JStr i) organizations"
    using lib unfolding sqladmin_ok_def by blast
  then have "panel_submit lib us session OrganizationAdmin (DeleteRow i) organizations
      = filter (\<lambda>r. r ''id'' \<noteq> JStr i) organizations" using root by (simp add: panel_submit_def)
  then show ?thesis unfolding cascade_to_logs_def using refers by (intro filter_cong refl) force
qed

section \<open>A panel\<close>

text \<open>A library that shows whether a table's first row has the same values as a constant and lets rows be deleted.\<close>

definition plain_lib :: sqladmin where
  "plain_lib = \<lparr>sq_page = (\<lambda>v pg rows. if map (seen_through (page_columns v pg)) rows = [] then ''none'' else ''some''),
     sq_submit = (\<lambda>v form rows. case form of DeleteRow i \<Rightarrow> (if can_delete v then filter (\<lambda>r. r ''id'' \<noteq> JStr i) rows else rows)
        | _ \<Rightarrow> rows)\<rparr>"

lemma plain_lib_eval:
  "sq_submit plain_lib v (CreateRow form) rows = rows" "sq_submit plain_lib v (EditRow i form) rows = rows"
  "sq_submit plain_lib v (DeleteRow i) rows = (if can_delete v then filter (\<lambda>r. r ''id'' \<noteq> JStr i) rows else rows)"
  "sq_page plain_lib v pg rows = (if map (seen_through (page_columns v pg)) rows = [] then ''none'' else ''some'')"
  by (simp_all add: plain_lib_def)

lemma plain_lib_ok: "sqladmin_ok plain_lib"
  unfolding sqladmin_ok_def
proof (intro conjI allI)
  fix v pg and rows rows' :: "table_row list"
  show "map (seen_through (page_columns v pg)) rows = map (seen_through (page_columns v pg)) rows'
      \<longrightarrow> sq_page plain_lib v pg rows = sq_page plain_lib v pg rows'"
    by (rule impI) (simp only: plain_lib_eval(4))
next
  fix v i form and rows :: "table_row list"
  show "\<exists>g. sq_submit plain_lib v (EditRow i form) rows = map g rows \<and> (\<forall>r. \<forall>c \<in> set (form_excluded_columns v). g r c = r c)"
    unfolding plain_lib_eval(2) by (rule exI [of _ "\<lambda>r. r"]) simp
qed (simp_all add: plain_lib_eval(1-3))

definition user_row :: "string \<Rightarrow> table_row" where
  "user_row h c = (if c = ''id'' then JStr ''u1'' else if c = ''hashed_password'' then JStr h else JNull)"

lemma root_in: "admin_authenticate [root_user] (Some root_id)"
proof -
  have "parse_uuid root_id = Some (ad_id root_user)" "privileged root_user"
    by (simp_all add: root_id_canonical root_user_def privileged_def)
  moreover have "unique_on ad_id [root_user]" by (simp add: unique_on_def)
  ultimately show ?thesis using admin_authenticate_iff [of "[root_user]" "Some root_id"] by simp
qed

lemma user_view: "UserAdmin \<in> set (ap_views (mount_admin ''s'' True ''app''))"
  by (simp add: mount_admin_def register_model_views_def)

lemma panel_hides_secrets_witness:
  "panel_page plain_lib [root_user] (Some root_id) UserAdmin (DetailsPage ''u1'') [user_row ''h1'']
    = panel_page plain_lib [root_user] (Some root_id) UserAdmin (DetailsPage ''u1'') [user_row ''h2'']"
proof -
  have "map redacted [user_row ''h1''] = map redacted [user_row ''h2'']"
    by (auto simp: redacted_def user_row_def SECRETS_def fun_eq_iff)
  from panel_hides_secrets [OF plain_lib_ok user_view this] show ?thesis by (rule conjunct1)
qed

lemma panel_changes_no_secret_witness:
  "panel_submit plain_lib [root_user] (Some root_id) UserAdmin (DeleteRow ''u1'') [user_row ''h1''] = []
    \<and> admin_authenticate [root_user] (Some root_id)"
proof -
  have gone: "panel_submit plain_lib [root_user] (Some root_id) UserAdmin (DeleteRow ''u1'') [user_row ''h1''] = []"
    by (simp add: panel_submit_def root_in plain_lib_def UserAdmin_def user_row_def)
  from panel_changes_no_secret [OF plain_lib_ok user_view refl, of "[root_user]" "Some root_id" "DeleteRow ''u1''" "[user_row ''h1'']"]
  show ?thesis unfolding gone by simp
qed

lemma panel_cannot_create_witness:
  "panel_submit plain_lib [root_user] (Some root_id) ApiKeyAdmin (CreateRow [(''name'', JStr ''ci'')]) [] = []"
  by (rule conjunct2 [OF panel_cannot_create [OF plain_lib_ok]]) simp

lemma deleted_organization_takes_its_log_witness:
  "cascade_to_logs (panel_submit plain_lib [root_user] (Some root_id) OrganizationAdmin (DeleteRow ''o1'') [\<lambda>c. JStr ''o1''])
    [\<lambda>c. JStr ''o1''] = []"
proof -
  have "\<forall>r \<in> set [\<lambda>c :: string. JStr ''o1'']. r ''organization_id'' = JNull
      \<or> r ''organization_id'' \<in> (\<lambda>x. x ''id'') ` set [\<lambda>c :: string. JStr ''o1'']" by simp
  from deleted_organization_takes_its_log [OF plain_lib_ok root_in this] show ?thesis by simp
qed

end
