(* ===== verification/Observability.thy ===== *)
theory Observability imports Complex_Main Prelude begin

text \<open>
  The set-up of telemetry (\<open>app/observability/setup.py.jinja\<close>, \<open>app/observability/sentry.py\<close>) and its end in the lifespan
  of the application (\<open>app/core/lifespan.py.jinja\<close>). What OpenTelemetry, Prometheus and Sentry do is theirs: the model
  keeps the list of the calls the service makes to them, and the three providers a process may hold.
\<close>

section \<open>Calls and state\<close>

text \<open>Providers are numbered as they are built.\<close>

datatype telemetry_call =
    SentryInit "string" string real string
  | MountHealth
  | MountMetrics
  | BuildTracer nat "(string \<times> string) list" string
  | BuildMeter nat "(string \<times> string) list" string
  | BuildLogger nat "(string \<times> string) list" string
  | AddLogHandler nat
  | InstrumentHttpx
  | InstrumentSqlalchemy
  | InstrumentRedis
  | InstrumentApp
  | ShutTracer nat
  | ShutMeter nat
  | ShutLogger nat

record telemetry =
  tm_tracer :: "nat option"
  tm_meter :: "nat option"
  tm_logger :: "nat option"
  tm_fresh :: nat
  tm_calls :: "telemetry_call list"

record telemetry_settings =
  ts_app_name :: string
  ts_environment :: string
  ts_otel_endpoint :: "string option"
  ts_otel_service_name :: "string option"
  ts_sentry_dsn :: "string option"
  ts_sentry_traces_sample_rate :: real

definition calling :: "telemetry_call list \<Rightarrow> telemetry \<Rightarrow> telemetry" where
  "calling cs tm = tm\<lparr>tm_calls := tm_calls tm @ cs\<rparr>"

text \<open>An unset setting and an empty one are alike.\<close>

definition set_text :: "string option \<Rightarrow> string option" where
  "set_text s = (case s of Some (c # cs) \<Rightarrow> Some (c # cs) | _ \<Rightarrow> None)"

definition rstrip_slash :: "string \<Rightarrow> string" where
  "rstrip_slash s = rev (dropWhile (\<lambda>c. c = CHR ''/'') (rev s))"

section \<open>Set-up\<close>

definition init_sentry :: "string \<Rightarrow> telemetry_settings \<Rightarrow> telemetry \<Rightarrow> bool \<times> telemetry" where
  "init_sentry version st tm =
    (case set_text (ts_sentry_dsn st) of
       None \<Rightarrow> (False, tm)
     | Some dsn \<Rightarrow> (True, calling [SentryInit dsn (ts_environment st) (ts_sentry_traces_sample_rate st) version] tm))"

definition resource_of :: "string \<Rightarrow> telemetry_settings \<Rightarrow> (string \<times> string) list" where
  "resource_of version st =
    [(''service.name'', case set_text (ts_otel_service_name st) of Some n \<Rightarrow> n | None \<Rightarrow> ts_app_name st),
     (''service.version'', version), (''deployment.environment'', ts_environment st)]"

definition setup_otlp :: "string \<Rightarrow> telemetry_settings \<Rightarrow> string \<Rightarrow> telemetry \<Rightarrow> telemetry" where
  "setup_otlp version st endpoint tm =
    (if tm_tracer tm \<noteq> None then tm
     else (let resource = resource_of version st; n = tm_fresh tm
       in (calling [BuildTracer n resource (endpoint @ ''/v1/traces''), BuildMeter n resource (endpoint @ ''/v1/metrics''),
             BuildLogger n resource (endpoint @ ''/v1/logs''), AddLogHandler n, InstrumentHttpx, InstrumentSqlalchemy,
             InstrumentRedis] tm)\<lparr>tm_tracer := Some n, tm_meter := Some n, tm_logger := Some n, tm_fresh := Suc n\<rparr>))"

definition setup_observability :: "string \<Rightarrow> telemetry_settings \<Rightarrow> telemetry \<Rightarrow> bool \<times> telemetry" where
  "setup_observability version st tm =
    (let tm1 = snd (init_sentry version st (calling [MountHealth, MountMetrics] tm))
     in case set_text (ts_otel_endpoint st) of
          None \<Rightarrow> (False, tm1)
        | Some endpoint \<Rightarrow> (True, calling [InstrumentApp] (setup_otlp version st (rstrip_slash endpoint) tm1)))"

definition shutdown_observability :: "telemetry \<Rightarrow> telemetry" where
  "shutdown_observability tm =
    (let tm1 = (case tm_tracer tm of None \<Rightarrow> tm | Some n \<Rightarrow> (calling [ShutTracer n] tm)\<lparr>tm_tracer := None\<rparr>);
         tm2 = (case tm_meter tm1 of None \<Rightarrow> tm1 | Some n \<Rightarrow> (calling [ShutMeter n] tm1)\<lparr>tm_meter := None\<rparr>)
     in case tm_logger tm2 of None \<Rightarrow> tm2 | Some n \<Rightarrow> (calling [ShutLogger n] tm2)\<lparr>tm_logger := None\<rparr>)"

section \<open>A process\<close>

text \<open>A process builds applications, with whatever settings, and its lifespans end.\<close>

datatype process_event = BuildApp telemetry_settings | LifespanEnds

fun process_run :: "string \<Rightarrow> process_event list \<Rightarrow> telemetry \<Rightarrow> telemetry" where
  "process_run version [] tm = tm"
| "process_run version (BuildApp st # es) tm = process_run version es (snd (setup_observability version st tm))"
| "process_run version (LifespanEnds # es) tm = process_run version es (shutdown_observability tm)"

definition no_telemetry :: telemetry where
  "no_telemetry = \<lparr>tm_tracer = None, tm_meter = None, tm_logger = None, tm_fresh = 0, tm_calls = []\<rparr>"

text \<open>The providers that were built and not shut down.\<close>

fun running :: "telemetry_call list \<Rightarrow> nat set \<times> nat set \<times> nat set \<Rightarrow> nat set \<times> nat set \<times> nat set" where
  "running [] abc = abc"
| "running (c # cs) (a, b, d) = running cs
     (case c of BuildTracer n r u \<Rightarrow> (insert n a, b, d) | BuildMeter n r u \<Rightarrow> (a, insert n b, d) | BuildLogger n r u \<Rightarrow> (a, b, insert n d)
      | ShutTracer n \<Rightarrow> (a - {n}, b, d) | ShutMeter n \<Rightarrow> (a, b - {n}, d) | ShutLogger n \<Rightarrow> (a, b, d - {n}) | _ \<Rightarrow> (a, b, d))"

lemma running_append: "running (cs @ ds) abc = running ds (running cs abc)"
  by (induction cs abc rule: running.induct) simp_all

definition live :: "telemetry \<Rightarrow> nat set \<times> nat set \<times> nat set" where
  "live tm = running (tm_calls tm) ({}, {}, {})"

definition telemetry_ok :: "telemetry \<Rightarrow> bool" where
  "telemetry_ok tm \<longleftrightarrow> live tm = (set_option (tm_tracer tm), set_option (tm_meter tm), set_option (tm_logger tm))
     \<and> tm_meter tm = tm_tracer tm \<and> tm_logger tm = tm_tracer tm"

lemma setup_ok: "telemetry_ok tm \<Longrightarrow> telemetry_ok (snd (setup_observability version st tm))"
  by (auto simp: telemetry_ok_def live_def setup_observability_def setup_otlp_def init_sentry_def calling_def running_append Let_def
      split: option.split)

lemma shutdown_ok: "telemetry_ok tm \<Longrightarrow> telemetry_ok (shutdown_observability tm) \<and> tm_tracer (shutdown_observability tm) = None"
  by (cases "tm_tracer tm") (simp_all add: telemetry_ok_def live_def shutdown_observability_def calling_def running_append Let_def)

lemma process_ok: "telemetry_ok tm \<Longrightarrow> telemetry_ok (process_run version es tm)"
  by (induction version es tm rule: process_run.induct) (simp_all add: setup_ok shutdown_ok)

text \<open>However often applications are built and lifespans end, a process never runs two exporting stacks at once: what it built
  and has not shut down is one provider of each kind or none, and after the end of a lifespan it is none.\<close>

theorem one_telemetry_stack:
  "(live (process_run version es no_telemetry) = ({}, {}, {}) \<or> (\<exists>n. live (process_run version es no_telemetry) = ({n}, {n}, {n})))
    \<and> live (process_run version (es @ [LifespanEnds]) no_telemetry) = ({}, {}, {})"
proof
  have ok: "telemetry_ok (process_run version xs no_telemetry)" for xs
    by (rule process_ok) (simp add: telemetry_ok_def live_def no_telemetry_def)
  show "live (process_run version es no_telemetry) = ({}, {}, {}) \<or> (\<exists>n. live (process_run version es no_telemetry) = ({n}, {n}, {n}))"
    using ok [of es] by (cases "tm_tracer (process_run version es no_telemetry)") (auto simp: telemetry_ok_def)
  have last: "process_run version (xs @ [LifespanEnds]) tm = shutdown_observability (process_run version xs tm)" for xs tm
    by (induction version xs tm rule: process_run.induct) simp_all
  show "live (process_run version (es @ [LifespanEnds]) no_telemetry) = ({}, {}, {})"
    unfolding last using shutdown_ok [OF ok [of es]] by (auto simp: telemetry_ok_def)
qed

text \<open>A service in which neither the collector nor Sentry is configured reports nowhere: it mounts its probes and metrics.\<close>

theorem unconfigured_is_silent:
  assumes "\<forall>st. BuildApp st \<in> set es \<longrightarrow> set_text (ts_otel_endpoint st) = None \<and> set_text (ts_sentry_dsn st) = None"
  shows "set (tm_calls (process_run version es no_telemetry)) \<subseteq> {MountHealth, MountMetrics}"
proof -
  have "tm_tracer tm = None \<Longrightarrow> tm_meter tm = None \<Longrightarrow> tm_logger tm = None \<Longrightarrow> set (tm_calls tm) \<subseteq> {MountHealth, MountMetrics}
      \<Longrightarrow> set (tm_calls (process_run version es tm)) \<subseteq> {MountHealth, MountMetrics}" for tm
    using assms by (induction version es tm rule: process_run.induct)
      (simp_all add: setup_observability_def init_sentry_def calling_def shutdown_observability_def Let_def)
  then show ?thesis by (simp add: no_telemetry_def)
qed

definition quiet_settings :: telemetry_settings where
  "quiet_settings = \<lparr>ts_app_name = ''app'', ts_environment = ''local'', ts_otel_endpoint = None, ts_otel_service_name = None,
     ts_sentry_dsn = Some [], ts_sentry_traces_sample_rate = 0\<rparr>"

lemma unconfigured_is_silent_witness:
  "set (tm_calls (process_run ''1.0'' [BuildApp quiet_settings, LifespanEnds, BuildApp quiet_settings] no_telemetry)) \<subseteq> {MountHealth, MountMetrics}"
  by (rule unconfigured_is_silent) (simp add: quiet_settings_def set_text_def)

end
