(* ===== verification/Spec2Isabelle.thy ===== *)
theory Spec2Isabelle
  imports MeteringProps IdempotencyProps IdempotencyConc IdempotencyRefine RateLimitProps Tenancy ApiKeys
    BillingProps SessionsProps SessionsConc DeliveryProps StorageProps PerimeterProps Rls Assembly Email TenancyRoutes
    Accounts Agents MeteringRoutes Logging Tools BillingConc Worker QueueSeam AdminPanel Observability
begin

text \<open>
  A verification development for the backend template in \<open>src/template\<close>: a FastAPI service for organizations, with
  sessions, API keys, billing, usage metering, webhooks, rate limits, idempotent requests, storage and mail, and a
  worker that runs its jobs. The template has a flag for each part. The model is the service with all of them on;
  paths below are relative to \<open>src/template/src/app\<close>, where some directories have a flag in their name.

  \<^bold>\<open>How a request goes through it.\<close> The middlewares set the tenant of the path, add hardening headers and answer a
  repeated idempotency key from a table. A route's dependencies limit its rate, authenticate the caller by an access
  token or an API key, and look up the caller's membership and role. The handler changes the tables of the database,
  under row-level security, and writes what others are to learn into an outbox in the same transaction. Every ten
  seconds the worker hands the events of the outbox to the queue, whose jobs sign them and post them to public
  addresses only. Payment providers report subscriptions through a webhook of their own, and the plan of an
  organization decides its budget, its features and the rates of its invoices.

  \<^bold>\<open>How it is modelled.\<close> A table is the list of its rows, oldest first (theory Prelude, with the laws of lookup,
  insertion under a unique constraint, update and deletion). A handler is a function from its arguments and the
  tables to a result and the tables, where \<open>Inl\<close> is the exception it raises; a transaction that fails returns the
  tables it got. Clocks, fresh identifiers and random secrets are arguments. Requests that interleave are step
  relations whose steps are single statements. Loops are structural recursion over the list they walk, but for the
  buffering of a body, which reads until the client ends it: \<open>buffer_loop\<close> is a partial function and a body that
  never ends has no result. There is no fuel anywhere.

  \<^bold>\<open>Metering\<close> (\<open>metering/\<close>). Rating: rate cards and the rating of usage (\<open>rate_cards.py\<close>, \<open>rating.py\<close>). Metering and
  MeteringProps: the service with usage, invoices, wallets and their ledger (\<open>models.py\<close>, \<open>service.py\<close>); an invoice
  is debited once however stale the copies that are charged, balances are sums of the ledger, periods tile time.
  MeteringRoutes: the six routes, their schemas and the ports (\<open>router.py.jinja\<close>, \<open>schemas.py\<close>, \<open>ports.py\<close>); the
  tables stay well-typed, and a close bills what the summary showed.

  \<^bold>\<open>Idempotency\<close> (\<open>idempotency/\<close>). Idempotency: the store (\<open>models.py\<close>, \<open>store.py\<close>) and the locale
  \<open>idempotency_port\<close> with the laws of a store, interpreted on it. IdempotencyRefine: any such store answers as an
  abstract machine. IdempotencyConc: its statements interleaved. IdempotencyMiddleware and IdempotencyProps: the
  middleware (\<open>middleware.py\<close>) over any store; retries are replayed, conflicts refused, failures retried.

  \<^bold>\<open>Sessions\<close> (\<open>users/\<close>). Sessions and SessionsProps: refresh tokens and their rotation (\<open>sessions.py\<close>), access
  tokens (\<open>auth.py\<close>), the denylist (\<open>denylist.py\<close>) and the routes (\<open>router.py.jinja\<close>); one live token per family,
  what a replay, a logout and a logout everywhere end. SessionsConc: transactions on the tokens, statement by
  statement at READ COMMITTED. Accounts: the mail hooks (\<open>manager.py.jinja\<close>), the worker's tasks and its schedule
  (\<open>jobs/worker.py.jinja\<close>).

  \<^bold>\<open>Organizations\<close> (\<open>tenancy/\<close>, \<open>rbac/\<close>, \<open>api_keys/\<close>). Tenancy: organizations, memberships and roles.
  TenancyRoutes: the routes with the event and the audit entry they write. ApiKeys: minting, revoking and
  authenticating. Rls: the policies of the tenant tables (\<open>migrations/versions/0008_rls.py\<close>), the hook that sets the
  tenant of a transaction (\<open>db/session.py.jinja\<close>) and transactions interleaved on pooled connections.

  \<^bold>\<open>Rate limits\<close> (\<open>ratelimit/\<close>). RateLimit: the two Lua scripts, the adapter and its failure modes, the locale
  \<open>rate_limit_port\<close>. RateLimitDeps and RateLimitProps: the dependencies, the lockout and the plan cache; what a
  window of time admits. Agents: the agent with its guarded route (\<open>agents/\<close>, \<open>api/routes/\<close>) and what its model
  calls can cost, the requests that a missing or failing Redis lets through included.

  \<^bold>\<open>Billing\<close> (\<open>billing/\<close>). Billing: entitlements, the payments port, the Stripe and Razorpay adapters. BillingRoutes:
  the tables, the routes and the provider's webhook, and the locale \<open>payments_contract\<close>, interpreted on both
  adapters. BillingProps: forged events change nothing, a replay is a no-op, whom an event reaches. BillingConc:
  deliveries of the webhook and checkouts, statement by statement; an event is applied once in every interleaving, and
  the runs of a delivery that is alone are exactly the route.

  \<^bold>\<open>Webhooks\<close> (\<open>webhooks/\<close>, \<open>jobs/\<close>, \<open>audit/\<close>). Webhooks and WebhooksProps: endpoints, emission, the relay and the
  queue, with the locale \<open>enqueue_port\<close>; events are published once by concurrent workers and backlogs drain. NetLib,
  Egress and EgressProps: \<open>ipaddress\<close> and \<open>urlsplit\<close> as far as they are used, and the guard against requests into
  private networks (\<open>egress.py\<close>). Delivery and DeliveryProps: the delivery task with its signature
  (\<open>jobs/tasks.py.jinja\<close>, \<open>security.py\<close>), the audit log and its reading route. Worker: the relay and deliveries that
  retry, interleaved with requests and with workers that stop; every request that leaves is accounted for. QueueSeam:
  the lazily opened pool behind \<open>enqueue\<close>, which refines that of Webhooks (\<open>jobs/queue.py\<close>).

  \<^bold>\<open>Storage, mail, perimeter.\<close> Storage and StorageProps: keys, client and routes (\<open>storage/\<close>); tenants are apart in
  every call to S3. Email: messages, rendering and three adapters (\<open>email/\<close>), with the locales \<open>mail_sink\<close> and
  \<open>mail_port\<close>. Perimeter and PerimeterProps: the header and tenant middlewares and the login of the admin panel
  (\<open>core/middleware.py\<close>, \<open>tenancy/rls.py\<close>, \<open>admin/auth.py\<close>). AdminPanel: its views (\<open>admin/views.py.jinja\<close>), what
  they show and change. Observability: the set-up of telemetry (\<open>observability/\<close>) and its end. Assembly: the
  middlewares in the order \<open>main.py.jinja\<close> adds them, inside the server's own error page; every answer but that page
  is hardened. Logging: redaction and probes (\<open>core/logging.py.jinja\<close>, \<open>observability/health.py.jinja\<close>). Tools: the
  repository's own scripts (\<open>src/scripts\<close>).
\<close>

text \<open>
  \<^bold>\<open>Across components.\<close> This theory follows an added member from the request to the subscriber, and an event of the payment
  provider to the invoice, the budget and the features it decides.

  \<^bold>\<open>Parameters.\<close> Code that is not in the repository is an argument: SHA-256 and HMAC, the signing of JWTs, the SDKs of
  the payment providers, name resolution and the HTTP client, S3, jinja2, the SMTP and SES clients, the hashing of
  passwords, the pool of arq and its limit of tries, sqladmin, the agent libraries, Starlette's CORS middleware, the
  processors and renderers of structlog, TOML and ruff. A theorem that needs more of one than its type names it as a hypothesis, and its witness
  instantiates it. Of PostgreSQL the model uses unique constraints, atomic statements, row locks and snapshots at READ
  COMMITTED, transaction-local settings and row security, as its manual describes them; of Redis, that a script runs
  atomically.

  \<^bold>\<open>Bounds.\<close> A round of the relay takes at most a hundred events and an event five attempts, as in the source; a
  listing of S3 has at most a thousand keys; the token buckets hold rationals, where Lua has doubles. Runs of the
  metering service close a period after its start, which the code does not test. Text is
  in characters below 256, \<open>lower\<close> changes ASCII letters, and database integers are unbounded. The widths that
  matter, those of addresses, are words. Rows that the database stamps with one instant keep their order of insertion.
  Bounds on the length of text are stated for the bodies of the metering and organization routes only.

  \<^bold>\<open>What the model shows to be wrong.\<close> Some theorems state what the code does against its comments. Sessions: a
  revocation that overlaps a rotation misses the successor (\<open>revocation_misses_successor\<close>). Row-level security: an id
  without hyphens sets no tenant (\<open>plain_id_loses_tenant\<close>). Metering: a stale charge marks a paid invoice
  uncollectible, a reused key drops a top-up, a close at the start of its period blocks billing, usage that commits
  late is never billed. Idempotency: a late completion answers another request. Webhooks: a short outage of the
  queue dead-letters every event, and one of the resolver drops a delivery. Billing: events without a customer, or of
  one second, reach the wrong organization or none; events handled at once can leave a plan that nobody paid for, and
  checkouts that overlap a customer whom nobody knows. Admin panel: its forms cannot create what they offer, and an
  organization that is deleted takes its audit log along. Organizations: the last owner can be removed, and a member can
  stay without an audit entry. Storage: a listing stops at its first page.

  \<^bold>\<open>Not modelled.\<close> The settings and their defaults beyond those that appear as arguments; the
  middlewares that count and trace requests; the calls inside one run of pydantic-ai; the lifespan of the application and the mounting of its routers; engines, session factories and connection settings;
  migrations other than the policies (they create the tables the models describe); registration, verification and the
  handling of passwords, which are in fastapi-users; the branches of the template for services without some part,
  such as storage routes without organizations; the tests. What remains of the Python files are imports, docstrings,
  exception classes, schemas that only name fields, and the opening of the clients of S3 and the payment providers.

  \<^bold>\<open>Plan.\<close> What could be added: the variants of the routes for services without organizations, and the columns and bounds
  of the remaining schemas.
\<close>

section \<open>From a request to the subscriber\<close>



section \<open>From a payment to what it pays for\<close>

text \<open>C15. An accepted event of the payment provider decides, by the plan it names while its status is an active one and by
  the free plan otherwise, what the next invoice of its customer's organization is rated with and which features its
  members may use, both at once; and the plan that sets the budget of its requests, at once in a process that has no plan
  of it in its cache, and otherwise when the cached one runs out.\<close>

theorem subscription_event_takes_effect:
  assumes bdb: "billing_ok bdb" and hook: "payments_webhook p i b sg bdb = (Inr ''ok'', bdb')"
    and ev: "pp_verify_webhook p b sg = Inr ev" "pe_event_type ev \<in> set SUBSCRIPTION_EVENTS"
    and org: "filter (\<lambda>o'. payments_customer_id o' = pe_customer_ref ev) (b_orgs bdb) = [org]"
    and vals: "pe_status ev = Some stat" "stat \<noteq> []" "pe_plan ev = Some plan" "plan \<noteq> []"
    and now_on: "eff = (if stat \<in> set ACTIVE_STATUSES then plan else FREE_PLAN)"
    and metered: "metering_run (empty_db os) db" "org_id org \<in> set (orgs db)" "new_inv \<notin> inv_id ` set (invoices db)"
    and admin: "require_role ADMIN (org_id org) user tdb = Inr mb" and path: "as_uuid oid = Some (org_id org)"
  shows "(\<exists>iv. fst (close_invoice_route new_inv new_tx now charge_now (org_id org) user tdb (subscriptions bdb') db) = Inr iv
      \<and> ir_plan iv = eff
      \<and> ir_total iv = total_cents (rate eff (usage_for_period (org_id org) (period_start (org_id org) db) now db) None))
    \<and> fst (plan_for_org rst as_uuid now2 oid bdb' cache)
      = Some (case map_of cache oid of
            None \<Rightarrow> eff
          | Some (cached, ends) \<Rightarrow> if 0 < ratelimit_plan_cache_seconds rst \<and> now2 < ends then cached else eff)
    \<and> (require_feature feature (Inr mb) bdb' = Inr () \<longleftrightarrow> plan_has_feature (Some eff) feature)"
proof -
  have active: "active_plan (org_id org) bdb' = eff"
    using event_plan [OF bdb hook ev org vals] now_on by simp
  have "eff = (case lookup_by sub_org (org_id org) (subscriptions bdb') of None \<Rightarrow> DEFAULT_PLAN
      | Some x \<Rightarrow> if sub_status x \<in> set ACTIVE_STATUSES then sub_plan x else DEFAULT_PLAN)"
    unfolding active [symmetric] active_plan_def DEFAULT_PLAN_def by (rule refl)
  note closes = close_bills_period [OF metered admin this, of new_tx now charge_now]
  have "mb_org mb = org_id org" using admin by (auto simp: require_role_Inr dest: get_membership_Inr)
  then have "require_feature feature (Inr mb) bdb' = Inr () \<longleftrightarrow> plan_has_feature (Some eff) feature"
    using active by (simp add: require_feature_def)
  moreover have "fst (plan_for_org rst as_uuid now2 oid bdb' cache) = Some (case map_of cache oid of
            None \<Rightarrow> eff
          | Some (cached, ends) \<Rightarrow> if 0 < ratelimit_plan_cache_seconds rst \<and> now2 < ends then cached else eff)"
    using active path by (simp add: plan_for_org_def Let_def split: option.split)
  ultimately show ?thesis using closes by blast
qed

lemma subscription_event_takes_effect_witness:
  "\<exists>bdb' iv. payments_webhook demo_port ''s1'' ''activated'' ''good'' (one_org_db (Some ''cust_1'')) = (Inr ''ok'', bdb')
    \<and> fst (close_invoice_route ''v1'' ''t1'' 10 11 ''o1'' ''ann'' acme_db (subscriptions bdb') (empty_db [''o1''])) = Inr iv
    \<and> ir_plan iv = ''pro''"
proof -
  obtain bdb' where hook: "payments_webhook demo_port ''s1'' ''activated'' ''good'' (one_org_db (Some ''cust_1'')) = (Inr ''ok'', bdb')"
    using demo_activated by blast
  obtain ev where ev: "pp_verify_webhook demo_port ''activated'' ''good'' = Inr ev"
    "pe_event_type ev \<in> set SUBSCRIPTION_EVENTS" "pe_status ev = Some ''active''" "pe_plan ev = Some ''pro''"
    "pe_customer_ref ev = Some ''cust_1''"
    by (simp add: demo_eval SUBSCRIPTION_EVENTS_def)
  obtain org where org: "filter (\<lambda>o'. payments_customer_id o' = pe_customer_ref ev) (b_orgs (one_org_db (Some ''cust_1''))) = [org]"
    and oid: "org_id org = ''o1''"
    by (simp add: one_org_db_def ev(5))
  obtain mb where mb: "require_role ADMIN (org_id org) ''ann'' acme_db = Inr mb" by (simp add: oid tenancy_eval and_then_def)
  have db: "org_id org \<in> set (orgs (empty_db [''o1'']))" "''v1'' \<notin> inv_id ` set (invoices (empty_db [''o1'']))"
    by (simp_all add: oid empty_db_def)
  have "''active'' \<noteq> []" "''pro'' \<noteq> []" by simp_all
  from conjunct1 [OF subscription_event_takes_effect [where as_uuid = "\<lambda>_. Some (org_id org)" and new_tx = "''t1''" and now = 10
      and charge_now = 11, OF billing_ok_one hook ev(1,2) org ev(3) this(1) ev(4) this(2) refl metering_run.base db mb refl]]
  show ?thesis using hook by (auto simp: oid ACTIVE_STATUSES_def)
qed

end
